(* ===== verification/Prelude.thy ===== *)
theory Prelude
  imports Main "HOL-Library.Word" "HOL-Library.Multiset"
begin

text \<open>
  Shared vocabulary of the development: JavaScript strings as lists of 16-bit code
  units, the state-and-exception actions that event handlers are written in, the
  collections of simplification rules, and the list lemmas more than one component uses.
\<close>

named_theorems js_simps \<open>evaluation of JavaScript value operations\<close>
named_theorems act_simps \<open>evaluation of handler actions\<close>
named_theorems ui_simps \<open>unfolding of the user interface definitions\<close>

section \<open>Code units and string literals\<close>

text \<open>
  A JavaScript string is a finite sequence of unsigned 16-bit code units. Literals of the
  source are ASCII and are written \<open>lit ''...''\<close>.
\<close>

type_synonym jsstr = "16 word list"

definition cu :: "char \<Rightarrow> 16 word" where
  "cu c = of_char c"

definition lit :: "string \<Rightarrow> jsstr" where
  "lit s = map cu s"

lemma unat_cu: "unat (cu c) = of_char c"
proof -
  have "(of_char c :: nat) < 2 ^ 16"
    by (rule less_le_trans [OF nat_of_char_less_256]) simp
  then have "unat (of_nat (of_char c) :: 16 word) = of_char c"
    by (simp add: unat_of_nat)
  then show ?thesis by (simp add: cu_def of_nat_of_char)
qed

lemma cu_eq_iff [simp]: "cu a = cu b \<longleftrightarrow> a = b"
  by (metis unat_cu char_of_char)

lemma inj_cu: "inj cu"
  by (rule injI) simp

lemma lit_eq_iff [simp]: "lit s = lit t \<longleftrightarrow> s = t"
  by (simp add: lit_def inj_map_eq_map [OF inj_cu])

lemma lit_eq_Nil [simp]: "lit s = [] \<longleftrightarrow> s = []" "[] = lit s \<longleftrightarrow> s = []"
  by (auto simp: lit_def)

lemma lit_Nil [simp]: "lit [] = []"
  by (simp add: lit_def)

lemma length_lit [simp]: "length (lit s) = length s"
  by (simp add: lit_def)

lemma lit_append: "lit (s @ t) = lit s @ lit t"
  by (simp add: lit_def)

section \<open>Actions: state passing with exceptions\<close>

text \<open>
  An action reads and writes a state \<open>'s\<close> and ends with a value or with a thrown error.
  The writes made before a throw remain, as in JavaScript.
\<close>

type_synonym ('e, 's, 'a) act = "'s \<Rightarrow> ('e + 'a) \<times> 's"

definition ret :: "'a \<Rightarrow> ('e, 's, 'a) act" where
  "ret v s = (Inr v, s)"

definition throw :: "'e \<Rightarrow> ('e, 's, 'a) act" where
  "throw e s = (Inl e, s)"

definition modify :: "('s \<Rightarrow> 's) \<Rightarrow> ('e, 's, unit) act" where
  "modify f s = (Inr (), f s)"

definition lift_r :: "'e + 'a \<Rightarrow> ('e, 's, 'a) act" where
  "lift_r r s = (r, s)"

definition bind_a :: "('e, 's, 'a) act \<Rightarrow> ('a \<Rightarrow> ('e, 's, 'b) act) \<Rightarrow> ('e, 's, 'b) act" where
  "bind_a m k s = (case m s of (Inl e, t) \<Rightarrow> (Inl e, t) | (Inr v, t) \<Rightarrow> k v t)"

definition seq_a :: "('e, 's, 'a) act \<Rightarrow> ('e, 's, 'b) act \<Rightarrow> ('e, 's, 'b) act" where
  "seq_a m n = bind_a m (\<lambda>_. n)"

definition when_a :: "bool \<Rightarrow> ('e, 's, unit) act \<Rightarrow> ('e, 's, unit) act" where
  "when_a b m = (if b then m else ret ())"

definition try_catch :: "('e, 's, 'a) act \<Rightarrow> ('e \<Rightarrow> ('e, 's, 'a) act) \<Rightarrow> ('e, 's, 'a) act" where
  "try_catch m h s = (case m s of (Inl e, t) \<Rightarrow> h e t | (Inr v, t) \<Rightarrow> (Inr v, t))"

definition try_finally :: "('e, 's, 'a) act \<Rightarrow> ('e, 's, unit) act \<Rightarrow> ('e, 's, 'a) act" where
  "try_finally m f s =
     (case m s of (r, t) \<Rightarrow> (case f t of (Inl e, u) \<Rightarrow> (Inl e, u) | (Inr _, u) \<Rightarrow> (r, u)))"

declare ret_def [act_simps] throw_def [act_simps] modify_def [act_simps]
  lift_r_def [act_simps] bind_a_def [act_simps] seq_a_def [act_simps] when_a_def [act_simps]
  try_catch_def [act_simps] try_finally_def [act_simps]

lemma bind_a_ret [simp]: "bind_a (ret v) k = k v"
  by (rule ext) (simp add: act_simps)

lemma bind_a_assoc: "bind_a (bind_a m k) l = bind_a m (\<lambda>v. bind_a (k v) l)"
  by (rule ext) (simp add: act_simps split: prod.split sum.split)

text \<open>An action keeps a property of the state when the property survives it, also when it throws.\<close>

named_theorems keeps_rules \<open>composition of preservation proofs\<close>

definition keeps :: "('s \<Rightarrow> bool) \<Rightarrow> ('e, 's, 'a) act \<Rightarrow> bool" where
  "keeps P m \<longleftrightarrow> (\<forall>s. P s \<longrightarrow> P (snd (m s)))"

lemma keepsD: "keeps P m \<Longrightarrow> P s \<Longrightarrow> P (snd (m s))"
  by (simp add: keeps_def)

lemma keeps_modify [keeps_rules]: "(\<And>s. P s \<Longrightarrow> P (f s)) \<Longrightarrow> keeps P (modify f)"
  by (simp add: keeps_def modify_def)

lemma keeps_pure [keeps_rules]: "keeps P (ret v)" "keeps P (throw e)" "keeps P (lift_r r)"
  by (simp_all add: keeps_def act_simps)

lemma keeps_bind [keeps_rules]: "keeps P m \<Longrightarrow> (\<And>v. keeps P (k v)) \<Longrightarrow> keeps P (bind_a m k)"
  by (auto simp: keeps_def bind_a_def split: prod.split sum.split)

lemma keeps_bind_value: "(\<And>v. r = Inr v \<Longrightarrow> keeps P (k v)) \<Longrightarrow> keeps P (bind_a (lift_r r) k)"
  by (cases r) (auto simp: keeps_def bind_a_def lift_r_def)

lemma keeps_seq [keeps_rules]: "keeps P m \<Longrightarrow> keeps P n \<Longrightarrow> keeps P (seq_a m n)"
  by (simp add: seq_a_def keeps_bind)

lemma keeps_when [keeps_rules]: "(b \<Longrightarrow> keeps P m) \<Longrightarrow> keeps P (when_a b m)"
  by (simp add: when_a_def keeps_pure)

lemma keeps_if [keeps_rules]: "(b \<Longrightarrow> keeps P m) \<Longrightarrow> (\<not> b \<Longrightarrow> keeps P n) \<Longrightarrow> keeps P (if b then m else n)"
  by simp

lemma keeps_catch [keeps_rules]: "keeps P m \<Longrightarrow> (\<And>e. keeps P (h e)) \<Longrightarrow> keeps P (try_catch m h)"
  by (auto simp: keeps_def try_catch_def split: prod.split sum.split)

lemma keeps_finally [keeps_rules]: "keeps P m \<Longrightarrow> keeps P f \<Longrightarrow> keeps P (try_finally m f)"
  by (auto simp: keeps_def try_finally_def split: prod.split sum.split)

lemma try_finally_modify: "try_finally m (modify f) s = (fst (m s), f (snd (m s)))"
  by (simp add: try_finally_def modify_def split: prod.split)

text \<open>The same sequencing for results that do not touch the state.\<close>

definition bind_r :: "'e + 'a \<Rightarrow> ('a \<Rightarrow> 'e + 'b) \<Rightarrow> 'e + 'b" where
  "bind_r r k = (case r of Inl e \<Rightarrow> Inl e | Inr v \<Rightarrow> k v)"

lemma bind_r_simps [simp]:
  "bind_r (Inl e) k = Inl e"
  "bind_r (Inr v) k = k v"
  by (simp_all add: bind_r_def)

lemma bind_r_Inr_iff: "bind_r r k = Inr w \<longleftrightarrow> (\<exists>v. r = Inr v \<and> k v = Inr w)"
  by (cases r) auto

text \<open>Running a fallible function over a list, left to right, up to the first error.\<close>

primrec map_r :: "('a \<Rightarrow> 'e + 'b) \<Rightarrow> 'a list \<Rightarrow> 'e + 'b list" where
  "map_r f [] = Inr []"
| "map_r f (x # xs) = bind_r (f x) (\<lambda>y. bind_r (map_r f xs) (\<lambda>ys. Inr (y # ys)))"

lemma map_r_total: "(\<And>x. x \<in> set xs \<Longrightarrow> f x = Inr (g x)) \<Longrightarrow> map_r f xs = Inr (map g xs)"
  by (induction xs) auto

lemma map_r_Inr_length: "map_r f xs = Inr ys \<Longrightarrow> length ys = length xs"
  by (induction xs arbitrary: ys) (auto simp: bind_r_Inr_iff)

lemma map_r_Inl_iff: "(\<exists>e. map_r f xs = Inl e) \<longleftrightarrow> (\<exists>x \<in> set xs. \<exists>e. f x = Inl e)"
  by (induction xs) (auto simp: bind_r_def split: sum.splits)

lemma map_r_member: "map_r f xs = Inr ys \<Longrightarrow> y \<in> set ys \<Longrightarrow> \<exists>x \<in> set xs. f x = Inr y"
  by (induction xs arbitrary: ys) (auto simp: bind_r_Inr_iff)

lemma map_r_nth: "map_r f xs = Inr ys \<Longrightarrow> i < length xs \<Longrightarrow> f (xs ! i) = Inr (ys ! i)"
  by (induction xs arbitrary: ys i) (auto simp: bind_r_Inr_iff nth_Cons split: nat.split)

text \<open>Keeping the elements a fallible test accepts.\<close>

primrec filter_r :: "('a \<Rightarrow> 'e + bool) \<Rightarrow> 'a list \<Rightarrow> 'e + 'a list" where
  "filter_r p [] = Inr []"
| "filter_r p (x # xs) =
     bind_r (p x) (\<lambda>b. bind_r (filter_r p xs) (\<lambda>ys. Inr (if b then x # ys else ys)))"

lemma filter_r_total: "(\<And>x. x \<in> set xs \<Longrightarrow> p x = Inr (q x)) \<Longrightarrow> filter_r p xs = Inr (filter q xs)"
  by (induction xs) auto

section \<open>A list without one element\<close>

definition drop_nth :: "nat \<Rightarrow> 'a list \<Rightarrow> 'a list" where
  "drop_nth i xs = take i xs @ drop (Suc i) xs"

lemma drop_nth_mset: "i < length xs \<Longrightarrow> mset xs = add_mset (xs ! i) (mset (drop_nth i xs))"
  by (metis drop_nth_def Cons_nth_drop_Suc append_take_drop_id mset.simps(2) mset_append union_mset_add_mset_right)

lemma set_drop_nth: "set (drop_nth i xs) \<subseteq> set xs"
  by (auto simp: drop_nth_def dest: in_set_takeD in_set_dropD)

lemma drop_nth_other: "x \<in> set xs \<Longrightarrow> x \<noteq> xs ! i \<Longrightarrow> x \<in> set (drop_nth i xs)"
proof (cases "i < length xs")
  case True
  assume x: "x \<in> set xs" "x \<noteq> xs ! i"
  have "set xs = insert (xs ! i) (set (drop_nth i xs))"
    using drop_nth_mset [OF True] by (metis set_mset_add_mset_insert set_mset_mset)
  with x show ?thesis by simp
qed (simp add: drop_nth_def)

lemma filter_drop_nth:
  "i < length xs \<Longrightarrow> length (filter p xs) = length (filter p (drop_nth i xs)) + of_bool (p (xs ! i))"
proof -
  assume i: "i < length xs"
  have "length (filter p ys) = size (filter_mset p (mset ys))" for ys by (simp flip: mset_filter)
  with drop_nth_mset [OF i] show ?thesis by simp
qed

end
