(* ===== verification/JsValue.thy ===== *)
theory JsValue
  imports Prelude
begin

text \<open>
  The JavaScript values the front end handles and the language operations it applies to
  them: truthiness, \<open>||\<close> and \<open>&&\<close>, property reads, \<open>===\<close>, conversion to string,
  \<open>Array.prototype.join\<close>, array spread, and thrown errors as values.
\<close>

section \<open>Values and errors\<close>

text \<open>
  The values are what \<open>JSON.parse\<close> returns, plus \<open>undefined\<close>. Numbers are
  the integers (identifiers and status codes); an object lists its own properties in
  insertion order.
\<close>

datatype jsval =
    Undefined
  | Null
  | Bool bool
  | Num int
  | Str jsstr
  | Arr "jsval list"
  | Obj "(jsstr \<times> jsval) list"

text \<open>
  What is thrown: a \<open>TypeError\<close> raised by the language (the reason is recorded, its text
  is the engine's), a \<open>SyntaxError\<close> from \<open>JSON.parse\<close>, a rejected \<open>fetch\<close>, or
  \<open>new Error(m)\<close>.
\<close>

datatype fault =
    ReadProp jsval jsstr
  | NotFunction jsstr
  | NotIterable
  | BadChild

datatype js_error =
    TypeError fault
  | SyntaxError
  | FetchFailed jsstr
  | JsError jsstr

type_synonym 'a result = "js_error + 'a"

text \<open>
  The parts of the language that the standard leaves to the engine, as parameters:
  the text of built-in errors, date strings outside the ISO grammar, the offset of local
  time from UTC (in milliseconds) at a local time value, and the text of a member that every
  object inherits from \<open>Object.prototype\<close>.
\<close>

record engine =
  fault_text :: "js_error \<Rightarrow> jsstr"
  legacy_date :: "jsstr \<Rightarrow> int option"
  local_offset :: "int \<Rightarrow> int"
  inherited_text :: "jsstr \<Rightarrow> jsstr"

fun err_message :: "engine \<Rightarrow> js_error \<Rightarrow> jsstr" where
  "err_message en (JsError m) = m"
| "err_message en e = fault_text en e"

section \<open>Operations\<close>

fun truthy :: "jsval \<Rightarrow> bool" where
  "truthy Undefined = False"
| "truthy Null = False"
| "truthy (Bool b) = b"
| "truthy (Num n) = (n \<noteq> 0)"
| "truthy (Str s) = (s \<noteq> [])"
| "truthy (Arr xs) = True"
| "truthy (Obj ps) = True"

definition js_or :: "jsval \<Rightarrow> jsval \<Rightarrow> jsval" where
  "js_or a b = (if truthy a then a else b)"

text \<open>\<open>===\<close>: two objects are equal only when they are the same reference, which never holds
  for objects decoded from two messages.\<close>

fun strict_eq :: "jsval \<Rightarrow> jsval \<Rightarrow> bool" where
  "strict_eq Undefined Undefined = True"
| "strict_eq Null Null = True"
| "strict_eq (Bool a) (Bool b) = (a = b)"
| "strict_eq (Num a) (Num b) = (a = b)"
| "strict_eq (Str a) (Str b) = (a = b)"
| "strict_eq _ _ = False"

fun primitive :: "jsval \<Rightarrow> bool" where
  "primitive (Arr _) = False"
| "primitive (Obj _) = False"
| "primitive _ = True"

lemma strict_eq_primitive: "strict_eq a b \<longleftrightarrow> a = b \<and> primitive a"
  by (cases a; cases b) auto

lemma strict_eq_sym: "strict_eq a b \<longleftrightarrow> strict_eq b a"
  by (auto simp: strict_eq_primitive)

fun get_prop :: "jsval \<Rightarrow> string \<Rightarrow> jsval result" where
  "get_prop Undefined k = Inl (TypeError (ReadProp Undefined (lit k)))"
| "get_prop Null k = Inl (TypeError (ReadProp Null (lit k)))"
| "get_prop (Bool b) k = Inr Undefined"
| "get_prop (Num n) k = Inr Undefined"
| "get_prop (Str s) k = Inr (if k = ''length'' then Num (int (length s)) else Undefined)"
| "get_prop (Arr xs) k = Inr (if k = ''length'' then Num (int (length xs)) else Undefined)"
| "get_prop (Obj ps) k = Inr (case map_of ps (lit k) of None \<Rightarrow> Undefined | Some v \<Rightarrow> v)"

fun nullish :: "jsval \<Rightarrow> bool" where
  "nullish Undefined = True"
| "nullish Null = True"
| "nullish _ = False"

lemma get_prop_Inr: "\<not> nullish v \<Longrightarrow> \<exists>w. get_prop v k = Inr w"
  by (cases v) auto

lemma get_prop_Inl_iff: "(\<exists>e. get_prop v k = Inl e) \<longleftrightarrow> nullish v"
  by (cases v) auto

text \<open>The number a value converts to; \<open>None\<close> is \<open>NaN\<close>. Strings, arrays and objects never
  reach a numeric comparison in the code except as the \<open>length\<close> member of an object, which
  no message of the server has.\<close>

fun num_of :: "jsval \<Rightarrow> int option" where
  "num_of Null = Some 0"
| "num_of (Bool b) = Some (if b then 1 else 0)"
| "num_of (Num n) = Some n"
| "num_of _ = None"

definition js_gt :: "jsval \<Rightarrow> int \<Rightarrow> bool" where
  "js_gt v n = (case num_of v of None \<Rightarrow> False | Some m \<Rightarrow> n < m)"

definition js_le :: "jsval \<Rightarrow> int \<Rightarrow> bool" where
  "js_le v n = (case num_of v of None \<Rightarrow> False | Some m \<Rightarrow> m \<le> n)"

text \<open>Decimal notation of an integer.\<close>

fun digits :: "nat \<Rightarrow> jsstr" where
  "digits n = (if n < 10 then [of_nat (48 + n)] else digits (n div 10) @ [of_nat (48 + n mod 10)])"

declare digits.simps [simp del]

definition int_text :: "int \<Rightarrow> jsstr" where
  "int_text n = (if n < 0 then lit ''-'' @ digits (nat (- n)) else digits (nat n))"

fun join_with :: "jsstr \<Rightarrow> jsstr list \<Rightarrow> jsstr" where
  "join_with sep [] = []"
| "join_with sep [s] = s"
| "join_with sep (s # t # ss) = s @ sep @ join_with sep (t # ss)"

text \<open>\<open>ToString\<close>, and \<open>join\<close>, which writes nothing for \<open>null\<close> and \<open>undefined\<close>.\<close>

fun to_string :: "jsval \<Rightarrow> jsstr"
  and elem_text :: "jsval \<Rightarrow> jsstr" where
  "to_string Undefined = lit ''undefined''"
| "to_string Null = lit ''null''"
| "to_string (Bool b) = (if b then lit ''true'' else lit ''false'')"
| "to_string (Num n) = int_text n"
| "to_string (Str s) = s"
| "to_string (Arr xs) = join_with (lit '','') (map elem_text xs)"
| "to_string (Obj ps) = lit ''[object Object]''"
| "elem_text v = (if nullish v then [] else to_string v)"

declare elem_text.simps [simp del]

lemma elem_text_simps [simp]:
  "elem_text Undefined = []"
  "elem_text Null = []"
  "elem_text (Bool b) = to_string (Bool b)"
  "elem_text (Num n) = to_string (Num n)"
  "elem_text (Str s) = s"
  "elem_text (Arr xs) = to_string (Arr xs)"
  "elem_text (Obj ps) = lit ''[object Object]''"
  by (simp_all add: elem_text.simps)

text \<open>\<open>v.join(sep)\<close>, and the receiver of \<open>map\<close>, \<open>filter\<close> and \<open>find\<close>: only an array has
  these methods.\<close>

definition method_array :: "string \<Rightarrow> jsval \<Rightarrow> jsval list result" where
  "method_array name v =
     (case v of
        Arr xs \<Rightarrow> Inr xs
      | _ \<Rightarrow> (if nullish v then Inl (TypeError (ReadProp v (lit name)))
             else Inl (TypeError (NotFunction (lit name)))))"

lemma method_array_Arr [simp]: "method_array name (Arr xs) = Inr xs"
  by (simp add: method_array_def)

lemma method_array_Inr_iff: "method_array name v = Inr xs \<longleftrightarrow> v = Arr xs"
  by (cases v) (auto simp: method_array_def)

definition call_join :: "jsval \<Rightarrow> jsstr \<Rightarrow> jsstr result" where
  "call_join v sep = bind_r (method_array ''join'' v) (\<lambda>xs. Inr (join_with sep (map elem_text xs)))"

text \<open>\<open>[...v]\<close>: the elements of an array, the code points of a string.\<close>

fun code_points :: "jsstr \<Rightarrow> jsstr list" where
  "code_points [] = []"
| "code_points [c] = [[c]]"
| "code_points (c # d # cs) =
     (if 55296 \<le> c \<and> c < 56320 \<and> 56320 \<le> d \<and> d < 57344 then [c, d] # code_points cs
      else [c] # code_points (d # cs))"

fun spread :: "jsval \<Rightarrow> jsval list result" where
  "spread (Arr xs) = Inr xs"
| "spread (Str s) = Inr (map Str (code_points s))"
| "spread _ = Inl (TypeError NotIterable)"

declare js_or_def [js_simps] js_gt_def [js_simps] js_le_def [js_simps] call_join_def [js_simps]

section \<open>Facts about the operations\<close>

lemma to_string_Arr_objects:
  "(\<forall>v \<in> set xs. \<exists>ps. v = Obj ps) \<Longrightarrow>
   map elem_text xs = replicate (length xs) (lit ''[object Object]'')"
  by (induction xs) auto

lemma join_with_append:
  "xs \<noteq> [] \<Longrightarrow> ys \<noteq> [] \<Longrightarrow> join_with sep (xs @ ys) = join_with sep xs @ sep @ join_with sep ys"
proof (induction sep xs rule: join_with.induct)
  case (2 sep s)
  then show ?case by (cases ys) auto
qed auto

lemma concat_code_points: "concat (code_points s) = s"
  by (induction s rule: code_points.induct) auto

lemma digits_not_Nil [simp]: "digits n \<noteq> []"
  by (subst digits.simps) simp

end
