(* ===== verification/JsString.thy ===== *)
theory JsString
  imports JsValue
begin

text \<open>
  The string methods the front end calls: \<open>trim\<close>, \<open>startsWith\<close>, \<open>includes\<close>,
  \<open>substring(0, n)\<close> and \<open>split\<close> on one code unit.
\<close>

text \<open>White space and line terminators of the language, as \<open>trim\<close> removes them.\<close>

definition is_space :: "16 word \<Rightarrow> bool" where
  "is_space c \<longleftrightarrow>
     List.member [9, 10, 11, 12, 13, 32, 160, 5760, 8232, 8233, 8239, 8287, 12288, 65279] c
     \<or> (8192 \<le> c \<and> c \<le> 8202)"

definition trim :: "jsstr \<Rightarrow> jsstr" where
  "trim s = rev (dropWhile is_space (rev (dropWhile is_space s)))"

definition starts_with :: "jsstr \<Rightarrow> jsstr \<Rightarrow> bool" where
  "starts_with s p \<longleftrightarrow> take (length p) s = p"

fun includes_str :: "jsstr \<Rightarrow> jsstr \<Rightarrow> bool" where
  "includes_str [] p = (p = [])"
| "includes_str (c # cs) p = (starts_with (c # cs) p \<or> includes_str cs p)"

fun split_on :: "16 word \<Rightarrow> jsstr \<Rightarrow> jsstr list" where
  "split_on c [] = [[]]"
| "split_on c (d # ds) =
     (if d = c then [] # split_on c ds
      else (case split_on c ds of [] \<Rightarrow> [[d]] | p # ps \<Rightarrow> (d # p) # ps))"

lemma split_on_not_Nil [simp]: "split_on c s \<noteq> []"
  by (induction s) (auto split: list.split)

lemma hd_split_on: "hd (split_on c s) = takeWhile (\<lambda>d. d \<noteq> c) s"
  by (induction s) (auto split: list.split)

lemma includes_str_iff: "includes_str s p \<longleftrightarrow> (\<exists>a b. s = a @ p @ b)"
proof (induction s)
  case Nil
  then show ?case by auto
next
  case (Cons c cs)
  have "starts_with (c # cs) p \<longleftrightarrow> (\<exists>b. c # cs = p @ b)"
    by (metis starts_with_def append_eq_conv_conj)
  with Cons show ?case
    by (auto simp: append_eq_Cons_conv Cons_eq_append_conv)
qed

lemma trim_Nil [simp]: "trim [] = []"
  by (simp add: trim_def)

lemma trim_eq_Nil_iff: "trim s = [] \<longleftrightarrow> (\<forall>c \<in> set s. is_space c)"
proof
  assume "trim s = []"
  then have 1: "\<forall>c \<in> set (dropWhile is_space s). is_space c"
    by (simp add: trim_def dropWhile_eq_Nil_conv)
  show "\<forall>c \<in> set s. is_space c"
  proof (rule ccontr)
    assume "\<not> ?thesis"
    then have "dropWhile is_space s \<noteq> []" by (simp add: dropWhile_eq_Nil_conv)
    then have "\<not> is_space (hd (dropWhile is_space s))" by (rule hd_dropWhile)
    with 1 show False using \<open>dropWhile is_space s \<noteq> []\<close> by auto
  qed
next
  assume "\<forall>c \<in> set s. is_space c"
  then have "dropWhile is_space s = []" by (subst dropWhile_eq_Nil_conv)
  then show "trim s = []" by (simp add: trim_def del: dropWhile_eq_Nil_conv)
qed

lemma trim_ends:
  assumes "trim s \<noteq> []"
  shows "\<not> is_space (hd (trim s))" and "\<not> is_space (last (trim s))"
proof -
  let ?u = "dropWhile is_space s" and ?v = "dropWhile is_space (rev (dropWhile is_space s))"
  have v: "?v \<noteq> []" using assms by (simp add: trim_def)
  from hd_dropWhile [OF v] show "\<not> is_space (last (trim s))"
    by (simp add: trim_def last_rev)
  obtain pre where "rev ?u = pre @ ?v"
    by (metis takeWhile_dropWhile_id)
  then have u: "?u = rev ?v @ rev pre"
    by (metis rev_append rev_rev_ident)
  from v have "rev ?v \<noteq> []" by (metis rev_is_Nil_conv)
  with u have "hd ?u = hd (rev ?v)" by (metis hd_append2)
  moreover have "?u \<noteq> []" using v by (metis dropWhile.simps(1) rev.simps(1))
  ultimately show "\<not> is_space (hd (trim s))"
    using hd_dropWhile [of is_space s] by (simp add: trim_def)
qed

lemma trim_id: "s = [] \<or> (\<not> is_space (hd s) \<and> \<not> is_space (last s)) \<Longrightarrow> trim s = s"
proof -
  assume a: "s = [] \<or> (\<not> is_space (hd s) \<and> \<not> is_space (last s))"
  show ?thesis
  proof (cases "s = []")
    case False
    with a have "dropWhile is_space s = s" by (cases s) auto
    moreover from False a have "dropWhile is_space (rev s) = rev s"
      by (cases s rule: rev_cases) auto
    ultimately show ?thesis by (simp add: trim_def)
  qed simp
qed

lemma trim_trim [simp]: "trim (trim s) = trim s"
  by (rule trim_id) (use trim_ends in blast)

lemma trim_infix: "\<exists>a b. s = a @ trim s @ b \<and> (\<forall>c \<in> set a \<union> set b. is_space c)"
proof -
  let ?u = "dropWhile is_space s"
  have s: "s = takeWhile is_space s @ ?u" by simp
  have "rev ?u = takeWhile is_space (rev ?u) @ dropWhile is_space (rev ?u)" by simp
  then have "?u = trim s @ rev (takeWhile is_space (rev ?u))"
    by (metis trim_def rev_append rev_rev_ident)
  with s have "s = takeWhile is_space s @ trim s @ rev (takeWhile is_space (rev ?u))" by metis
  moreover have "\<forall>c \<in> set (takeWhile is_space s) \<union> set (rev (takeWhile is_space (rev ?u))). is_space c"
    by (auto dest: set_takeWhileD)
  ultimately show ?thesis by blast
qed

end
