(* ===== verification/VDom.thy ===== *)
theory VDom
  imports JsString
begin

text \<open>
  What a component renders: a tree of elements, each with its key, its attributes (values,
  inline styles and event handlers) and its children. Handlers are named by a datatype of the
  component, so that the tree shows which events the user can raise.
\<close>

datatype 'h attr =
    AVal jsval
  | AStyle "(string \<times> string) list"
  | AOn 'h

datatype 'h node =
    Text jsstr
  | Elem string "jsstr option" "(string \<times> 'h attr) list" "'h node list"

abbreviation tx :: "string \<Rightarrow> 'h node" where
  "tx s \<equiv> Text (lit s)"

abbreviation attr_s :: "string \<Rightarrow> string \<Rightarrow> string \<times> 'h attr" where
  "attr_s n s \<equiv> (n, AVal (Str (lit s)))"

abbreviation class_s :: "string \<Rightarrow> string \<times> 'h attr" where
  "class_s s \<equiv> (''className'', AVal (Str (lit s)))"

abbreviation el :: "string \<Rightarrow> (string \<times> 'h attr) list \<Rightarrow> 'h node list \<Rightarrow> 'h node" where
  "el t as ch \<equiv> Elem t None as ch"

section \<open>Values as children and keys\<close>

lemma map_r_cong [fundef_cong]:
  "xs = ys \<Longrightarrow> (\<And>x. x \<in> set ys \<Longrightarrow> f x = g x) \<Longrightarrow> map_r f xs = map_r g ys"
  by (induction ys arbitrary: xs) (auto simp: bind_r_def split: sum.split)

text \<open>A value in child position: nothing for \<open>null\<close>, \<open>undefined\<close> and booleans, text for
  numbers and strings, the children of an array; an object makes the renderer throw.\<close>

fun child_of :: "jsval \<Rightarrow> 'h node list result" where
  "child_of Undefined = Inr []"
| "child_of Null = Inr []"
| "child_of (Bool b) = Inr []"
| "child_of (Num n) = Inr [Text (int_text n)]"
| "child_of (Str s) = Inr [Text s]"
| "child_of (Arr xs) = bind_r (map_r child_of xs) (\<lambda>ns. Inr (concat ns))"
| "child_of (Obj ps) = Inl (TypeError BadChild)"

definition key_of :: "jsval \<Rightarrow> jsstr option" where
  "key_of v = (if v = Undefined then None else Some (to_string v))"

section \<open>Events the tree offers\<close>

definition is_disabled :: "(string \<times> 'h attr) list \<Rightarrow> bool" where
  "is_disabled as \<longleftrightarrow> (case map_of as ''disabled'' of Some (AVal v) \<Rightarrow> truthy v | _ \<Rightarrow> False)"

definition is_submit :: "(string \<times> 'h attr) list \<Rightarrow> bool" where
  "is_submit as \<longleftrightarrow> (case map_of as ''type'' of Some (AVal v) \<Rightarrow> v = Str (lit ''submit'') | _ \<Rightarrow> False)"

text \<open>The submit buttons below a node, each with whether it is enabled; the first is the form's
  default button, and a form whose default button is disabled cannot be submitted.\<close>

fun submit_buttons :: "'h node \<Rightarrow> bool list" where
  "submit_buttons (Text s) = []"
| "submit_buttons (Elem t k as ch) =
     (if t = ''button'' \<and> is_submit as then [\<not> is_disabled as] else []) @ concat (map submit_buttons ch)"

definition form_enabled :: "'h node \<Rightarrow> bool" where
  "form_enabled n = (case submit_buttons n of [] \<Rightarrow> True | b # _ \<Rightarrow> b)"

definition attr_events :: "(string \<times> 'h attr) list \<Rightarrow> 'h list" where
  "attr_events as = concat (map (\<lambda>(n, a). case a of AOn h \<Rightarrow> [h] | _ \<Rightarrow> []) as)"

fun events :: "'h node \<Rightarrow> 'h list" where
  "events (Text s) = []"
| "events (Elem t k as ch) =
     (if is_disabled as \<or> (t = ''form'' \<and> \<not> form_enabled (Elem t k as ch)) then []
      else attr_events as) @ concat (map events ch)"

text \<open>Element lookup, for statements about what is on the screen.\<close>

fun elements :: "'h node \<Rightarrow> 'h node list" where
  "elements (Text s) = []"
| "elements (Elem t k as ch) = Elem t k as ch # concat (map elements ch)"

fun text_of :: "'h node \<Rightarrow> jsstr" where
  "text_of (Text s) = s"
| "text_of (Elem t k as ch) = concat (map text_of ch)"

fun tag_of :: "'h node \<Rightarrow> string" where
  "tag_of (Text s) = []"
| "tag_of (Elem t k as ch) = t"

fun node_key :: "'h node \<Rightarrow> jsstr option" where
  "node_key (Text s) = None"
| "node_key (Elem t k as ch) = k"

fun attr_of :: "string \<Rightarrow> 'h node \<Rightarrow> jsval option" where
  "attr_of n (Text s) = None"
| "attr_of n (Elem t k as ch) = (case map_of as n of Some (AVal v) \<Rightarrow> Some v | _ \<Rightarrow> None)"

declare is_disabled_def [ui_simps] is_submit_def [ui_simps] form_enabled_def [ui_simps]
  attr_events_def [ui_simps] key_of_def [ui_simps]

lemma child_of_no_events: "child_of v = Inr ns \<Longrightarrow> n \<in> set ns \<Longrightarrow> \<exists>s. n = Text s"
proof (induction v arbitrary: ns n rule: child_of.induct)
  case (6 xs)
  from 6(2) obtain nss where ms: "map_r child_of xs = Inr nss" and ns: "ns = concat nss"
    by (auto simp: bind_r_Inr_iff)
  from ns 6(3) obtain ms where "ms \<in> set nss" "n \<in> set ms" by auto
  with map_r_member [OF ms] 6(1) show ?case by blast
qed auto

text \<open>Renaming the handlers of a tree (embedding a component in its parent) renames its events.\<close>

lemma map_of_attrs:
  "map_of (map (map_prod id (map_attr f)) as) n = map_option (map_attr f) (map_of as n)"
  by (induction as) auto

lemma is_disabled_map [simp]: "is_disabled (map (map_prod id (map_attr f)) as) = is_disabled as"
  by (auto simp: is_disabled_def map_of_attrs attr.map split: option.split attr.split)

lemma is_submit_map [simp]: "is_submit (map (map_prod id (map_attr f)) as) = is_submit as"
  by (auto simp: is_submit_def map_of_attrs attr.map split: option.split attr.split)

lemma attr_events_map [simp]: "attr_events (map (map_prod id (map_attr f)) as) = map f (attr_events as)"
  unfolding attr_events_def
  by (induction as) (auto split: attr.split)

lemma submit_buttons_map [simp]: "submit_buttons (map_node f n) = submit_buttons n"
  by (induction n rule: submit_buttons.induct) (auto simp: comp_def cong: map_cong)

lemma events_map: "events (map_node f n) = map f (events n)"
proof (induction n rule: events.induct)
  case (2 t k as ch)
  have "form_enabled (map_node f (Elem t k as ch)) = form_enabled (Elem t k as ch)"
    by (simp only: form_enabled_def submit_buttons_map)
  with 2 show ?case by (auto simp: map_concat comp_def cong: map_cong)
qed simp

lemma child_of_events: "child_of v = Inr ns \<Longrightarrow> concat (map events ns) = []"
  by (force dest: child_of_no_events)

end
