(* ===== verification/Shared.thy ===== *)
theory Shared
  imports VDom
begin

text \<open>
  The shared components: \<open>components/shared/StatusBadge.jsx\<close> and
  \<open>components/shared/ErrorBanner.jsx\<close>.
\<close>

section \<open>StatusBadge\<close>

definition STATUS_CLASS :: "(jsstr \<times> string) list" where
  "STATUS_CLASS =
     [(lit ''pending'', ''bg-warning text-dark''),
      (lit ''processing'', ''bg-info text-dark''),
      (lit ''done'', ''bg-success text-white''),
      (lit ''failed'', ''bg-danger text-white'')]"

text \<open>The members that the object literal \<open>STATUS_CLASS\<close> inherits: reading one of these names finds a
  function or the prototype, which is truthy, and the class is then its text.\<close>

definition inherited_names :: "jsstr list" where
  "inherited_names = map lit
     [''constructor'', ''hasOwnProperty'', ''isPrototypeOf'', ''propertyIsEnumerable'', ''toLocaleString'',
      ''toString'', ''valueOf'', ''__proto__'', ''__defineGetter__'', ''__defineSetter__'',
      ''__lookupGetter__'', ''__lookupSetter__'']"

definition status_class :: "engine \<Rightarrow> jsval \<Rightarrow> jsstr" where
  "status_class en status =
     (let k = to_string status in
      case map_of STATUS_CLASS k of
        Some c \<Rightarrow> lit c
      | None \<Rightarrow> if k \<in> set inherited_names then inherited_text en k else lit ''bg-secondary text-white'')"

definition StatusBadge :: "engine \<Rightarrow> jsval \<Rightarrow> 'h node result" where
  "StatusBadge en status =
     bind_r (child_of status) (\<lambda>ch.
       Inr (el ''span''
              [(''className'', AVal (Str (lit ''badge '' @ status_class en status))),
               (''data-status'', AVal status)]
              ch))"

section \<open>ErrorBanner\<close>

text \<open>The children of the parent: none for an empty message. \<open>onClose\<close> is optional.\<close>

definition ErrorBanner :: "jsstr \<Rightarrow> 'h option \<Rightarrow> 'h node list" where
  "ErrorBanner message onClose =
     (if message = [] then []
      else
        [el ''div'' [class_s ''alert alert-danger alert-dismissible fade show error-banner'', attr_s ''role'' ''alert'']
           ([el ''strong'' [] [tx ''Error:''], tx '' '', Text message]
            @ (case onClose of
                 None \<Rightarrow> []
               | Some h \<Rightarrow>
                   [el ''button''
                      [attr_s ''type'' ''button'', class_s ''btn-close'', attr_s ''data-bs-dismiss'' ''alert'',
                       attr_s ''aria-label'' ''Close'', (''onClick'', AOn h)]
                      []]))])"

declare StatusBadge_def [ui_simps] ErrorBanner_def [ui_simps]

lemma status_class_simps [simp]:
  "status_class en (Str (lit ''pending'')) = lit ''bg-warning text-dark''"
  "status_class en (Str (lit ''processing'')) = lit ''bg-info text-dark''"
  "status_class en (Str (lit ''done'')) = lit ''bg-success text-white''"
  "status_class en (Str (lit ''failed'')) = lit ''bg-danger text-white''"
  by (simp_all add: status_class_def STATUS_CLASS_def)

text \<open>The four statuses of a request are told apart by their classes.\<close>

lemma status_class_inj:
  "inj_on (\<lambda>s. status_class en (Str s)) (set (map fst STATUS_CLASS))"
  by (auto simp: inj_on_def STATUS_CLASS_def)

lemma status_class_other:
  "to_string v \<notin> set (map fst STATUS_CLASS) \<Longrightarrow> to_string v \<notin> set inherited_names \<Longrightarrow>
   status_class en v = lit ''bg-secondary text-white''"
  by (simp add: status_class_def map_of_eq_None_iff [THEN iffD2] split: option.split)

lemma ErrorBanner_events:
  "concat (map events (ErrorBanner m c)) =
   (if m = [] then [] else case c of None \<Rightarrow> [] | Some h \<Rightarrow> [h])"
  by (auto simp: ui_simps split: option.split)

lemma ErrorBanner_Nil_iff [simp]: "ErrorBanner m c = [] \<longleftrightarrow> m = []"
  by (simp add: ErrorBanner_def)

end
