(* ===== verification/JsDate.thy ===== *)
theory JsDate
  imports JsString
begin

text \<open>
  \<open>Date\<close> as the feed components use it: parsing a date string, the time value (milliseconds
  since 1970-01-01 UTC), and \<open>toISOString\<close>. The calendar is the proleptic Gregorian one of
  the language standard.
\<close>

section \<open>Calendar\<close>

definition leap :: "int \<Rightarrow> bool" where
  "leap y \<longleftrightarrow> (y mod 4 = 0 \<and> y mod 100 \<noteq> 0) \<or> y mod 400 = 0"

text \<open>Days from 1970-01-01 to January 1 of year \<open>y\<close>.\<close>

definition day_from_year :: "int \<Rightarrow> int" where
  "day_from_year y =
     365 * (y - 1970) + (y - 1969) div 4 - (y - 1901) div 100 + (y - 1601) div 400"

fun month_length :: "bool \<Rightarrow> int \<Rightarrow> int" where
  "month_length l m =
     (if m = 2 then (if l then 29 else 28)
      else if m = 4 \<or> m = 6 \<or> m = 9 \<or> m = 11 then 30 else 31)"

text \<open>Days of the year before month \<open>m\<close>.\<close>

definition before_month :: "bool \<Rightarrow> int \<Rightarrow> int" where
  "before_month l m =
     (if m = 1 then 0 else if m = 2 then 31 else
      (if l then 1 else 0) +
      (if m = 3 then 59 else if m = 4 then 90 else if m = 5 then 120 else if m = 6 then 151
       else if m = 7 then 181 else if m = 8 then 212 else if m = 9 then 243
       else if m = 10 then 273 else if m = 11 then 304 else 334))"

definition valid_date :: "int \<Rightarrow> int \<Rightarrow> int \<Rightarrow> bool" where
  "valid_date y m d \<longleftrightarrow> 1 \<le> m \<and> m \<le> 12 \<and> 1 \<le> d \<and> d \<le> month_length (leap y) m"

definition day_number :: "int \<Rightarrow> int \<Rightarrow> int \<Rightarrow> int" where
  "day_number y m d = day_from_year y + before_month (leap y) m + d - 1"

text \<open>The year of a day number: from an estimate that is never too small, downwards.\<close>

lemma div_step: "0 < k \<Longrightarrow> (x + 1) div k = x div k + (if (x + 1) mod k = 0 then 1 else 0)" for k x :: int
proof -
  assume k: "0 < k"
  define q r where "q = x div k" and "r = x mod k"
  have x: "x = k * q + r" and r: "0 \<le> r" "r < k" using k by (simp_all add: q_def r_def)
  show ?thesis
  proof (cases "r + 1 = k")
    case True
    with x have "x + 1 = k * (q + 1)" by (simp add: algebra_simps)
    with k show ?thesis by (simp flip: q_def)
  next
    case False
    with r have rk: "0 < r + 1" "r + 1 < k" by linarith+
    have "(x + 1) div k = (k * q + (r + 1)) div k" by (simp add: x algebra_simps)
    also have "\<dots> = q" using rk k by simp
    finally have d: "(x + 1) div k = q" .
    have "(x + 1) mod k = (k * q + (r + 1)) mod k" by (simp add: x algebra_simps)
    also have "\<dots> = r + 1" using rk k by simp
    finally show ?thesis using d rk by (simp flip: q_def)
  qed
qed

lemma div_lower: "0 < k \<Longrightarrow> k * (x div k) \<le> x" for k x :: int
  using mult_div_mod_eq [of k x] pos_mod_sign [of k x] by linarith

lemma div_upper: "0 < k \<Longrightarrow> x < k * (x div k) + k" for k x :: int
  using mult_div_mod_eq [of k x] pos_mod_bound [of k x] by linarith

lemma mod_shift: "(y - c) mod k = 0 \<longleftrightarrow> y mod k = 0" if "k dvd c" for y c k :: int
  using that dvd_add_left_iff [of k c "y - c"] by (simp add: mod_eq_0_iff_dvd)

lemma leap_indicator:
  "(p400 \<Longrightarrow> p100) \<Longrightarrow> (p100 \<Longrightarrow> p4) \<Longrightarrow>
   (if p4 then 1 else 0) - (if p100 then 1 else 0) + (if p400 then 1 else 0) =
   (if (p4 \<and> \<not> p100) \<or> p400 then 1 else 0 :: int)"
  by auto

lemma day_from_year_Suc: "day_from_year (y + 1) = day_from_year y + (if leap y then 366 else 365)"
proof -
  have 4: "(y - 1968) div 4 = (y - 1969) div 4 + (if y mod 4 = 0 then 1 else 0)"
    using div_step [of 4 "y - 1969"] mod_shift [of 4 1968 y] by simp
  have 100: "(y - 1900) div 100 = (y - 1901) div 100 + (if y mod 100 = 0 then 1 else 0)"
    using div_step [of 100 "y - 1901"] mod_shift [of 100 1900 y] by simp
  have 400: "(y - 1600) div 400 = (y - 1601) div 400 + (if y mod 400 = 0 then 1 else 0)"
    using div_step [of 400 "y - 1601"] mod_shift [of 400 1600 y] by simp
  have "y mod 400 = 0 \<Longrightarrow> y mod 100 = 0" and "y mod 100 = 0 \<Longrightarrow> y mod 4 = 0"
    by (simp_all add: mod_eq_0_iff_dvd dvd_trans [of 100 400] dvd_trans [of 4 100])
  note lp = this
  obtain a b c where abc: "(y - 1969) div 4 = a" "(y - 1901) div 100 = b" "(y - 1601) div 400 = c"
    by blast
  have sh: "y + 1 - 1969 = y - 1968" "y + 1 - 1901 = y - 1900" "y + 1 - 1601 = y - 1600" by auto
  have year: "(if (y mod 4 = 0 \<and> y mod 100 \<noteq> 0) \<or> y mod 400 = 0 then 366 else 365) =
    365 + ((if y mod 4 = 0 then 1 else 0) - (if y mod 100 = 0 then 1 else 0)
      + (if y mod 400 = 0 then 1 else 0 :: int))"
    using leap_indicator [of "y mod 400 = 0" "y mod 100 = 0" "y mod 4 = 0", OF lp] by presburger
  show ?thesis
    unfolding day_from_year_def leap_def sh 4 100 400 abc year
    by (simp add: algebra_simps)
qed

lemma day_from_year_less: "y < z \<Longrightarrow> day_from_year y < day_from_year z"
proof (induction "nat (z - y)" arbitrary: z)
  case (Suc n)
  have step: "day_from_year (z - 1) < day_from_year z"
    using day_from_year_Suc [of "z - 1"] by (simp split: if_splits)
  show ?case
  proof (cases "y < z - 1")
    case True
    with Suc have "day_from_year y < day_from_year (z - 1)" by (intro Suc.hyps) auto
    with step show ?thesis by simp
  next
    case False
    with Suc.prems have "y = z - 1" by simp
    with step show ?thesis by simp
  qed
qed simp

lemma day_from_year_le_iff: "day_from_year y \<le> day_from_year z \<longleftrightarrow> y \<le> z"
  by (metis day_from_year_less linorder_not_less order_le_less)

function year_down :: "int \<Rightarrow> int \<Rightarrow> int" where
  "year_down day y = (if day_from_year y \<le> day then y else year_down day (y - 1))"
  by pat_completeness auto
termination
proof (relation "measure (\<lambda>(day, y). nat (day_from_year y - day))")
  fix day y
  assume "\<not> day_from_year y \<le> day"
  then show "((day, y - 1), day, y) \<in> measure (\<lambda>(day, y). nat (day_from_year y - day))"
    using day_from_year_less [of "y - 1" y] by auto
qed simp

declare year_down.simps [simp del]

definition year_of :: "int \<Rightarrow> int" where
  "year_of day = year_down day (1971 + (400 * day) div 146097)"

lemma year_down_bounds:
  "day < day_from_year (y + 1) \<Longrightarrow>
   day_from_year (year_down day y) \<le> day \<and> day < day_from_year (year_down day y + 1)"
proof (induction day y rule: year_down.induct)
  case (1 day y)
  then show ?case by (auto simp: year_down.simps [of day y])
qed

lemma year_estimate: "day < day_from_year (1971 + (400 * day) div 146097 + 1)"
proof -
  define q where "q = (400 * day) div 146097"
  have q: "400 * day < 146097 * q + 146097"
    unfolding q_def by (rule div_upper) simp
  obtain u v w where uvw: "(q + 3) div 4 = u" "(q + 71) div 100 = v" "(q + 371) div 400 = w" by blast
  have a: "q + 3 < 4 * u + 4" unfolding uvw(1) [symmetric] by (rule div_upper) simp
  have b: "100 * v \<le> q + 71" unfolding uvw(2) [symmetric] by (rule div_lower) simp
  have c: "q + 371 < 400 * w + 400" unfolding uvw(3) [symmetric] by (rule div_upper) simp
  have sh: "1971 + q + 1 - 1969 = q + 3" "1971 + q + 1 - 1901 = q + 71" "1971 + q + 1 - 1601 = q + 371"
    by auto
  have "day_from_year (1971 + q + 1) = 365 * (q + 2) + u - v + w"
    unfolding day_from_year_def sh uvw by simp
  moreover have "400 * day < 400 * (365 * (q + 2) + u - v + w)"
    using a b c q by (simp add: algebra_simps)
  ultimately show ?thesis unfolding q_def [symmetric] by simp
qed

lemma year_of_bounds: "day_from_year (year_of day) \<le> day" "day < day_from_year (year_of day + 1)"
  using year_down_bounds [OF year_estimate] by (simp_all add: year_of_def)

lemma year_of_unique:
  assumes "day_from_year y \<le> day" "day < day_from_year (y + 1)"
  shows "year_of day = y"
proof (rule ccontr)
  assume "year_of day \<noteq> y"
  then consider "year_of day + 1 \<le> y" | "y + 1 \<le> year_of day" by linarith
  then show False
    using assms year_of_bounds [of day]
      day_from_year_le_iff [of "year_of day + 1" y] day_from_year_le_iff [of "y + 1" "year_of day"]
    by cases linarith+
qed

text \<open>Month and day of the month from the day of the year, counted from 0.\<close>

definition month_of :: "bool \<Rightarrow> int \<Rightarrow> int" where
  "month_of l k =
     (if k < before_month l 2 then 1 else if k < before_month l 3 then 2
      else if k < before_month l 4 then 3 else if k < before_month l 5 then 4
      else if k < before_month l 6 then 5 else if k < before_month l 7 then 6
      else if k < before_month l 8 then 7 else if k < before_month l 9 then 8
      else if k < before_month l 10 then 9 else if k < before_month l 11 then 10
      else if k < before_month l 12 then 11 else 12)"

definition civil_of :: "int \<Rightarrow> int \<times> int \<times> int" where
  "civil_of day =
     (let y = year_of day; k = day - day_from_year y; m = month_of (leap y) k
      in (y, m, k - before_month (leap y) m + 1))"

lemma month_cases:
  fixes m :: int
  assumes "1 \<le> m" "m \<le> 12"
  obtains "m = 1" | "m = 2" | "m = 3" | "m = 4" | "m = 5" | "m = 6"
    | "m = 7" | "m = 8" | "m = 9" | "m = 10" | "m = 11" | "m = 12"
proof -
  have "m \<in> set [1..12]" using assms by simp
  then have "m \<in> {1, 2, 3, 4, 5, 6, 7, 8, 9, 10, 11, 12}" by (simp add: upto.simps)
  with that show thesis by blast
qed

lemma month_of_before_month:
  assumes "1 \<le> m" "m \<le> 12" "1 \<le> d" "d \<le> month_length l m"
  shows "month_of l (before_month l m + d - 1) = m"
  using assms(1,2)
  by (rule month_cases) (use assms(3,4) in \<open>auto simp: month_of_def before_month_def\<close>)

lemma before_month_bounds:
  assumes "1 \<le> m" "m \<le> 12" "1 \<le> d" "d \<le> month_length l m"
  shows "0 \<le> before_month l m + d - 1" and "before_month l m + d - 1 < (if l then 366 else 365)"
proof -
  have "0 \<le> before_month l m + d - 1 \<and> before_month l m + d - 1 < (if l then 366 else 365)"
    using assms(1,2)
    by (rule month_cases) (use assms(3,4) in \<open>auto simp: before_month_def\<close>)
  then show "0 \<le> before_month l m + d - 1" "before_month l m + d - 1 < (if l then 366 else 365)"
    by blast+
qed

lemma year_of_day_number: "valid_date y m d \<Longrightarrow> year_of (day_number y m d) = y"
proof (rule year_of_unique)
  assume v: "valid_date y m d"
  note b = before_month_bounds [of m d "leap y"]
  from v b show "day_from_year y \<le> day_number y m d"
    by (auto simp: valid_date_def day_number_def)
  from v b show "day_number y m d < day_from_year (y + 1)"
    unfolding day_from_year_Suc by (auto simp: valid_date_def day_number_def)
qed

theorem civil_of_day_number: "valid_date y m d \<Longrightarrow> civil_of (day_number y m d) = (y, m, d)"
proof -
  assume v: "valid_date y m d"
  have k: "day_number y m d - day_from_year y = before_month (leap y) m + d - 1"
    by (simp add: day_number_def)
  from v have "month_of (leap y) (before_month (leap y) m + d - 1) = m"
    by (intro month_of_before_month) (simp_all add: valid_date_def)
  with k show ?thesis
    by (simp add: civil_of_def Let_def year_of_day_number [OF v])
qed

text \<open>Dates are ordered as their year, month and day.\<close>

lemma before_month_step: "1 \<le> m \<Longrightarrow> m < n \<Longrightarrow> n \<le> 12 \<Longrightarrow> before_month l m + month_length l m \<le> before_month l n"
  by (rule month_cases [of m]; rule month_cases [of n]; simp add: before_month_def)

lemma day_number_less:
  assumes "valid_date y m d" "valid_date y' m' d'"
    and "y < y' \<or> (y = y' \<and> (m < m' \<or> (m = m' \<and> d < d')))"
  shows "day_number y m d < day_number y' m' d'"
proof -
  from assms(1,2) have b: "before_month (leap y) m + d - 1 < (if leap y then 366 else 365)"
    and b': "0 \<le> before_month (leap y') m' + d' - 1"
    using before_month_bounds [of m d "leap y"] before_month_bounds [of m' d' "leap y'"]
    unfolding valid_date_def by blast+
  from assms(3) consider "y < y'" | "y = y'" "m < m'" | "y = y'" "m = m'" "d < d'" by blast
  then show ?thesis
  proof cases
    case 1
    then have "day_from_year (y + 1) \<le> day_from_year y'" by (simp add: day_from_year_le_iff)
    with b b' show ?thesis unfolding day_number_def day_from_year_Suc by (simp split: if_splits)
  next
    case 2
    with assms(1,2) before_month_step [of m m' "leap y"] show ?thesis
      by (auto simp: valid_date_def day_number_def)
  next
    case 3
    then show ?thesis by (simp add: day_number_def)
  qed
qed

section \<open>Digits\<close>

definition digit_value :: "16 word \<Rightarrow> nat option" where
  "digit_value c = (if 48 \<le> c \<and> c \<le> 57 then Some (unat c - 48) else None)"

fun number_value :: "nat \<Rightarrow> jsstr \<Rightarrow> nat option" where
  "number_value a [] = Some a"
| "number_value a (c # cs) =
     (case digit_value c of None \<Rightarrow> None | Some k \<Rightarrow> number_value (10 * a + k) cs)"

text \<open>Exactly \<open>n\<close> digits, and what follows.\<close>

definition take_number :: "nat \<Rightarrow> jsstr \<Rightarrow> (int \<times> jsstr) option" where
  "take_number n s =
     (if length s < n then None
      else map_option (\<lambda>v. (int v, drop n s)) (number_value 0 (take n s)))"

definition pad_to :: "nat \<Rightarrow> nat \<Rightarrow> jsstr" where
  "pad_to k n = replicate (k - length (digits n)) (cu CHR ''0'') @ digits n"

lemma digit_value_digit: "k < 10 \<Longrightarrow> digit_value (of_nat (48 + k)) = Some k"
proof -
  assume k: "k < 10"
  then have "unat (of_nat (48 + k) :: 16 word) = 48 + k"
    by (simp only: unat_of_nat) simp
  then show ?thesis using k by (simp add: digit_value_def word_le_nat_alt del: of_nat_add)
qed

lemma number_value_append:
  "number_value a (xs @ ys) = (case number_value a xs of None \<Rightarrow> None | Some b \<Rightarrow> number_value b ys)"
  by (induction xs arbitrary: a) (auto split: option.split)

lemma number_value_digits: "number_value a (digits n) = Some (a * 10 ^ length (digits n) + n)"
proof (induction n arbitrary: a rule: digits.induct)
  case (1 n)
  show ?case
  proof (cases "n < 10")
    case True
    then show ?thesis
      using digit_value_digit [OF True] by (simp add: digits.simps [of n])
  next
    case False
    have "digit_value (of_nat (48 + n mod 10)) = Some (n mod 10)"
      by (rule digit_value_digit) simp
    with False 1 [OF False] show ?thesis
      by (simp add: digits.simps [of n] number_value_append algebra_simps)
  qed
qed

lemma number_value_zeros: "number_value 0 (replicate k (cu CHR ''0'')) = Some 0"
  by (induction k) (simp_all add: digit_value_def cu_def)

lemma length_digits: "0 < k \<Longrightarrow> n < 10 ^ k \<Longrightarrow> length (digits n) \<le> k"
proof (induction n arbitrary: k rule: digits.induct)
  case (1 n)
  show ?case
  proof (cases "n < 10")
    case True
    with 1 show ?thesis by (simp add: digits.simps [of n])
  next
    case False
    with 1 obtain j where k: "k = Suc j" and j: "0 < j"
      by (cases k; cases "k - 1") auto
    with 1 have "n div 10 < 10 ^ j" by (simp add: less_mult_imp_div_less mult.commute)
    with 1 False j have "length (digits (n div 10)) \<le> j" by blast
    with False k show ?thesis by (simp add: digits.simps [of n])
  qed
qed

lemma length_pad_to: "0 < k \<Longrightarrow> n < 10 ^ k \<Longrightarrow> length (pad_to k n) = k"
  using length_digits by (simp add: pad_to_def)

lemma take_number_pad_to:
  "0 < k \<Longrightarrow> n < 10 ^ k \<Longrightarrow> take_number k (pad_to k n @ r) = Some (int n, r)"
proof -
  assume "0 < k" "n < 10 ^ k"
  then have "length (pad_to k n) = k" by (rule length_pad_to)
  moreover have "number_value 0 (pad_to k n) = Some n"
    by (simp add: pad_to_def number_value_append number_value_zeros number_value_digits)
  ultimately show ?thesis by (simp add: take_number_def)
qed

section \<open>Time values and date strings\<close>

definition ms_per_day :: int where
  "ms_per_day = 86400000"

text \<open>A time value beyond 8.64e15 milliseconds from the epoch is \<open>NaN\<close> (\<open>None\<close>).\<close>

definition time_clip :: "int \<Rightarrow> int option" where
  "time_clip t = (if \<bar>t\<bar> \<le> 8640000000000000 then Some t else None)"

definition eat :: "char \<Rightarrow> jsstr \<Rightarrow> jsstr option" where
  "eat c s = (case s of [] \<Rightarrow> None | x # xs \<Rightarrow> if x = cu c then Some xs else None)"

text \<open>Four digits, or a sign and six (\<open>-000000\<close> is excluded).\<close>

definition parse_year :: "jsstr \<Rightarrow> (int \<times> jsstr) option" where
  "parse_year s =
     (case eat CHR ''+'' s of
        Some r \<Rightarrow> take_number 6 r
      | None \<Rightarrow>
         (case eat CHR ''-'' s of
            Some r \<Rightarrow>
              (case take_number 6 r of
                 None \<Rightarrow> None
               | Some (y, r') \<Rightarrow> if y = 0 then None else Some (- y, r'))
          | None \<Rightarrow> take_number 4 s))"

text \<open>Year, optional month, optional day.\<close>

definition parse_ymd :: "jsstr \<Rightarrow> (int \<times> int \<times> int \<times> jsstr) option" where
  "parse_ymd s =
     (case parse_year s of None \<Rightarrow> None
      | Some (y, r) \<Rightarrow>
     (case eat CHR ''-'' r of None \<Rightarrow> Some (y, 1, 1, r)
      | Some r1 \<Rightarrow>
     (case take_number 2 r1 of None \<Rightarrow> None
      | Some (m, r2) \<Rightarrow>
     (case eat CHR ''-'' r2 of
        None \<Rightarrow> if valid_date y m 1 then Some (y, m, 1, r2) else None
      | Some r3 \<Rightarrow>
     (case take_number 2 r3 of None \<Rightarrow> None
      | Some (d, r4) \<Rightarrow> if valid_date y m d then Some (y, m, d, r4) else None)))))"

text \<open>\<open>:dd\<close>, and the clock \<open>HH:mm[:ss[.sss]]\<close> in milliseconds; 24:00 is the end of the day.\<close>

definition colon_number :: "jsstr \<Rightarrow> (int \<times> jsstr) option" where
  "colon_number s = Option.bind (eat CHR '':'' s) (take_number 2)"

definition clock_value :: "int \<Rightarrow> int \<Rightarrow> int \<Rightarrow> int \<Rightarrow> int option" where
  "clock_value h mi sec ms =
     (if (h \<le> 23 \<and> mi \<le> 59 \<and> sec \<le> 59) \<or> (h = 24 \<and> mi = 0 \<and> sec = 0 \<and> ms = 0)
      then Some (((h * 60 + mi) * 60 + sec) * 1000 + ms) else None)"

definition parse_clock :: "jsstr \<Rightarrow> (int \<times> jsstr) option" where
  "parse_clock s =
     (case take_number 2 s of None \<Rightarrow> None
      | Some (h, r) \<Rightarrow>
     (case colon_number r of None \<Rightarrow> None
      | Some (mi, r1) \<Rightarrow>
     (case colon_number r1 of
        None \<Rightarrow> map_option (\<lambda>v. (v, r1)) (clock_value h mi 0 0)
      | Some (sec, r2) \<Rightarrow>
     (case eat CHR ''.'' r2 of
        None \<Rightarrow> map_option (\<lambda>v. (v, r2)) (clock_value h mi sec 0)
      | Some r3 \<Rightarrow>
     (case take_number 3 r3 of None \<Rightarrow> None
      | Some (ms, r4) \<Rightarrow> map_option (\<lambda>v. (v, r4)) (clock_value h mi sec ms))))))"

text \<open>The zone that ends a date-time: none (local time), \<open>Z\<close>, or an offset.\<close>

definition parse_zone :: "jsstr \<Rightarrow> int option option" where
  "parse_zone s =
     (if s = [] then Some None
      else if s = lit ''Z'' then Some (Some 0)
      else (case (if eat CHR ''+'' s \<noteq> None then Some 1 else if eat CHR ''-'' s \<noteq> None then Some (- 1)
                  else None) of
        None \<Rightarrow> None
      | Some sg \<Rightarrow>
     (case take_number 2 (tl s) of None \<Rightarrow> None
      | Some (h, r) \<Rightarrow>
     (case colon_number r of None \<Rightarrow> None
      | Some (mi, r1) \<Rightarrow>
          if r1 = [] \<and> h \<le> 23 \<and> mi \<le> 59 then Some (Some (sg * ((h * 60 + mi) * 60000))) else None))))"

text \<open>The ISO grammar: a date alone is UTC, a date-time without a zone is local time.\<close>

definition parse_iso :: "engine \<Rightarrow> jsstr \<Rightarrow> int option" where
  "parse_iso en s =
     (case parse_ymd s of None \<Rightarrow> None
      | Some (y, m, d, r) \<Rightarrow>
          if r = [] then Some (ms_per_day * day_number y m d)
          else
     (case Option.bind (eat CHR ''T'' r) parse_clock of None \<Rightarrow> None
      | Some (ms, r1) \<Rightarrow>
     (case parse_zone r1 of None \<Rightarrow> None
      | Some z \<Rightarrow>
          let t = ms_per_day * day_number y m d + ms
          in Some (case z of None \<Rightarrow> t - local_offset en t | Some off \<Rightarrow> t - off))))"

definition date_parse :: "engine \<Rightarrow> jsstr \<Rightarrow> int option" where
  "date_parse en s = (case parse_iso en s of Some t \<Rightarrow> time_clip t | None \<Rightarrow> legacy_date en s)"

text \<open>\<open>new Date(v)\<close> for a single argument.\<close>

fun new_date :: "engine \<Rightarrow> jsval \<Rightarrow> int option" where
  "new_date en Undefined = None"
| "new_date en Null = Some 0"
| "new_date en (Bool b) = Some (if b then 1 else 0)"
| "new_date en (Num n) = time_clip n"
| "new_date en (Str s) = date_parse en s"
| "new_date en v = date_parse en (to_string v)"

section \<open>toISOString\<close>

definition iso_year :: "int \<Rightarrow> jsstr" where
  "iso_year y =
     (if 0 \<le> y \<and> y \<le> 9999 then pad_to 4 (nat y)
      else (if y < 0 then lit ''-'' else lit ''+'') @ pad_to 6 (nat \<bar>y\<bar>))"

definition iso_date :: "int \<Rightarrow> int \<Rightarrow> int \<Rightarrow> jsstr" where
  "iso_date y m d = iso_year y @ lit ''-'' @ pad_to 2 (nat m) @ lit ''-'' @ pad_to 2 (nat d)"

definition iso_clock :: "int \<Rightarrow> jsstr" where
  "iso_clock ms =
     pad_to 2 (nat (ms div 3600000)) @ lit '':'' @ pad_to 2 (nat (ms div 60000 mod 60)) @ lit '':''
     @ pad_to 2 (nat (ms div 1000 mod 60)) @ lit ''.'' @ pad_to 3 (nat (ms mod 1000))"

definition to_iso_string :: "int \<Rightarrow> jsstr" where
  "to_iso_string t =
     (case civil_of (t div ms_per_day) of
        (y, m, d) \<Rightarrow> iso_date y m d @ lit ''T'' @ iso_clock (t mod ms_per_day) @ lit ''Z'')"

section \<open>Reading back a date that was written\<close>

lemma eat_lit [simp]: "eat c (lit [c'] @ r) = (if c = c' then Some r else None)"
  by (simp add: eat_def lit_def eq_commute)

definition is_digit :: "16 word \<Rightarrow> bool" where
  "is_digit c \<longleftrightarrow> 48 \<le> c \<and> c \<le> 57"

lemma is_digit_of_nat: "k < 10 \<Longrightarrow> is_digit (of_nat (48 + k))"
  using digit_value_digit [of k] by (auto simp: is_digit_def digit_value_def split: if_splits)

lemma digit_unit: "c \<in> set (digits n) \<Longrightarrow> is_digit c"
proof (induction n rule: digits.induct)
  case (1 n)
  then show ?case
    using is_digit_of_nat [of n] is_digit_of_nat [of "n mod 10"]
    by (cases "n < 10") (auto simp: digits.simps [of n])
qed

lemma pad_unit: "c \<in> set (pad_to k n) \<Longrightarrow> is_digit c"
  using digit_unit by (auto simp: pad_to_def cu_def is_digit_def)

lemma digit_not_sign: "is_digit c \<Longrightarrow> c \<noteq> cu CHR ''+'' \<and> c \<noteq> cu CHR ''-'' \<and> c \<noteq> cu CHR ''T''"
  by (auto simp: is_digit_def cu_def)

lemma pad_to_head: "0 < k \<Longrightarrow> n < 10 ^ k \<Longrightarrow> \<exists>c xs. pad_to k n = c # xs \<and> is_digit c"
  using pad_unit [of _ k n] length_pad_to [of k n] by (cases "pad_to k n") auto

lemma parse_year_iso: "0 \<le> y \<Longrightarrow> y \<le> 9999 \<Longrightarrow> parse_year (iso_year y @ r) = Some (y, r)"
proof -
  assume y: "0 \<le> y" "y \<le> 9999"
  then have n: "nat y < 10 ^ 4" by simp
  with pad_to_head [of 4 "nat y"] obtain c xs where "is_digit c" and p: "pad_to 4 (nat y) = c # xs"
    by auto
  with digit_not_sign [of c] have "eat CHR ''+'' (pad_to 4 (nat y) @ r) = None"
    and "eat CHR ''-'' (pad_to 4 (nat y) @ r) = None"
    by (auto simp: eat_def)
  with y n take_number_pad_to [of 4 "nat y" r] show ?thesis
    by (simp add: parse_year_def iso_year_def)
qed

lemma parse_ymd_iso:
  assumes "0 \<le> y" "y \<le> 9999" and v: "valid_date y m d"
  shows "parse_ymd (iso_date y m d @ r) = Some (y, m, d, r)"
proof -
  from v have m: "0 \<le> m" "nat m < 10 ^ 2" and d: "0 \<le> d" "nat d < 10 ^ 2"
    by (auto simp: valid_date_def split: if_splits)
  show ?thesis
    using assms m d take_number_pad_to [of 2 "nat m"] take_number_pad_to [of 2 "nat d"]
    by (simp add: parse_ymd_def iso_date_def parse_year_iso)
qed

lemma parse_iso_date:
  "0 \<le> y \<Longrightarrow> y \<le> 9999 \<Longrightarrow> valid_date y m d \<Longrightarrow>
   parse_iso en (iso_date y m d) = Some (ms_per_day * day_number y m d)"
  using parse_ymd_iso [of y m d "[]"] by (simp add: parse_iso_def)

lemma day_number_range:
  assumes "0 \<le> y" "y \<le> 9999" and v: "valid_date y m d"
  shows "-719528 \<le> day_number y m d" and "day_number y m d \<le> 2932896"
proof -
  from v have "0 \<le> before_month (leap y) m + d - 1 \<and>
      before_month (leap y) m + d - 1 < (if leap y then 366 else 365)"
    using before_month_bounds [of m d "leap y"] unfolding valid_date_def by blast
  moreover have "day_from_year 0 \<le> day_from_year y" "day_from_year (y + 1) \<le> day_from_year 10000"
    using assms by (simp_all add: day_from_year_le_iff)
  ultimately show "-719528 \<le> day_number y m d" "day_number y m d \<le> 2932896"
    by (simp_all add: day_from_year_Suc day_number_def day_from_year_def [of 0]
        day_from_year_def [of 10000])
qed

lemma date_parse_iso_date:
  "0 \<le> y \<Longrightarrow> y \<le> 9999 \<Longrightarrow> valid_date y m d \<Longrightarrow>
   date_parse en (iso_date y m d) = Some (ms_per_day * day_number y m d)"
  using day_number_range [of y m d]
  by (simp add: date_parse_def parse_iso_date time_clip_def ms_per_day_def)

lemma takeWhile_iso_date: "takeWhile (\<lambda>c. c \<noteq> cu CHR ''T'') (iso_date y m d @ lit ''T'' @ r) = iso_date y m d"
proof -
  have "c \<noteq> cu CHR ''T''" if "c \<in> set (iso_date y m d)" for c
  proof (cases "c \<in> set (lit ''+-'')")
    case True
    then show ?thesis by (auto simp: lit_def)
  next
    case False
    with that have "\<exists>k n. c \<in> set (pad_to k n)"
      by (auto simp: iso_date_def iso_year_def lit_def split: if_splits)
    then have "is_digit c" using pad_unit by blast
    then show ?thesis by (simp add: digit_not_sign)
  qed
  then show ?thesis by (subst takeWhile_append2) (auto simp: lit_def)
qed

lemma iso_string_of_day:
  "valid_date y m d \<Longrightarrow>
   hd (split_on (cu CHR ''T'') (to_iso_string (ms_per_day * day_number y m d))) = iso_date y m d"
  by (simp add: hd_split_on to_iso_string_def civil_of_day_number takeWhile_iso_date ms_per_day_def)

end
