(* ===== verification/FeedItem.thy ===== *)
theory FeedItem
  imports Shared JsDate
begin

text \<open>
  \<open>components/feeds/FeedItem.jsx\<close>: one story. Its fields are whatever the server sent,
  so reading or rendering them may throw.
\<close>

section \<open>Helpers of the component\<close>

definition truncateText :: "jsval \<Rightarrow> int \<Rightarrow> jsval result" where
  "truncateText text maxLength =
     (if \<not> truthy text then Inr (Str [])
      else bind_r (get_prop text ''length'') (\<lambda>len.
        if js_le len maxLength then Inr text
        else (case text of
                Str s \<Rightarrow> Inr (Str (take (nat maxLength) s @ lit ''...''))
              | _ \<Rightarrow> Inl (TypeError (NotFunction (lit ''substring''))))))"

text \<open>\<open>dateStr\<close> itself when it is not a date; otherwise the part of \<open>toISOString\<close> before
  \<open>T\<close>.\<close>

definition formatDate :: "engine \<Rightarrow> jsval \<Rightarrow> jsval" where
  "formatDate en dateStr =
     (if \<not> truthy dateStr then Str []
      else (case new_date en dateStr of
              None \<Rightarrow> dateStr
            | Some t \<Rightarrow> Str (hd (split_on (cu CHR ''T'') (to_iso_string t)))))"

section \<open>Rendering\<close>

text \<open>The fields the component reads from \<open>item\<close>.\<close>

record item_fields =
  it_title :: jsval
  it_source :: jsval
  it_source_url :: jsval
  it_link :: jsval
  it_publish_date :: jsval
  it_description :: jsval

definition item_fields_of :: "jsval \<Rightarrow> item_fields result" where
  "item_fields_of item =
     bind_r (get_prop item ''title'') (\<lambda>title.
     bind_r (get_prop item ''source'') (\<lambda>src.
     bind_r (get_prop item ''source_url'') (\<lambda>source_url.
     bind_r (get_prop item ''link'') (\<lambda>link.
     bind_r (get_prop item ''publish_date'') (\<lambda>publish_date.
     bind_r (get_prop item ''description'') (\<lambda>description.
       Inr \<lparr>it_title = title, it_source = src, it_source_url = source_url, it_link = link,
            it_publish_date = publish_date, it_description = description\<rparr>))))))"

text \<open>\<open>source_url && (...)\<close>: a falsy value is rendered itself, so the number 0 shows as text.\<close>

definition item_source_url :: "jsval \<Rightarrow> 'h node list result" where
  "item_source_url u =
     (if truthy u then
        bind_r (child_of u) (\<lambda>ch.
          Inr [el ''span'' [class_s ''text-secondary small text-truncate'',
                  (''style'', AStyle [(''maxWidth'', ''180px'')])] ch])
      else child_of u)"

definition item_card ::
    "item_fields \<Rightarrow> 'h node list \<Rightarrow> 'h node list \<Rightarrow> 'h node list \<Rightarrow> 'h node list \<Rightarrow> 'h node list \<Rightarrow> 'h node" where
  "item_card f source_ch date_ch title_ch description_ch url_ch =
     el ''div'' [class_s ''card shadow-sm border-0 rounded-3 mb-3 feed-item bg-white overflow-hidden'']
       [el ''div'' [class_s ''card-body p-4'']
          [el ''div'' [class_s ''d-flex justify-content-between align-items-start mb-2'']
             [el ''span'' [class_s ''badge bg-light text-secondary border border-light-subtle fw-semibold mb-2'',
                 (''style'', AStyle [(''fontSize'', ''0.75rem'')])] source_ch,
              el ''span'' [class_s ''text-muted small'', (''data-publish-date'', AVal (it_publish_date f))]
                 date_ch],
           el ''h4'' [class_s ''card-title fw-bold text-dark mb-2'',
               (''style'', AStyle [(''fontSize'', ''1.15rem'')])] title_ch,
           el ''p'' [class_s ''card-text text-secondary mb-3'',
               (''style'', AStyle [(''fontSize'', ''0.9rem''), (''lineHeight'', ''1.5'')])] description_ch,
           el ''div'' [class_s ''d-flex align-items-center justify-content-between mt-3 pt-3 border-top border-light-subtle'']
             ([el ''a''
                 [(''href'', AVal (it_link f)), attr_s ''target'' ''_blank'', attr_s ''rel'' ''noopener noreferrer'',
                  class_s ''btn btn-link text-decoration-none p-0 fw-semibold text-primary d-inline-flex align-items-center'',
                  (''style'', AStyle [(''fontSize'', ''0.9rem'')])]
                 [tx ''Read more'']]
              @ url_ch)]]"

definition FeedItem :: "engine \<Rightarrow> jsval \<Rightarrow> 'h node result" where
  "FeedItem en item =
     bind_r (item_fields_of item) (\<lambda>f.
     bind_r (child_of (it_source f)) (\<lambda>source_ch.
     bind_r (child_of (formatDate en (it_publish_date f))) (\<lambda>date_ch.
     bind_r (child_of (it_title f)) (\<lambda>title_ch.
     bind_r (bind_r (truncateText (it_description f) 250) child_of) (\<lambda>description_ch.
     bind_r (item_source_url (it_source_url f)) (\<lambda>url_ch.
       Inr (item_card f source_ch date_ch title_ch description_ch url_ch)))))))"

section \<open>Facts\<close>

lemma truncateText_Str:
  "0 \<le> n \<Longrightarrow> truncateText (Str s) n =
     Inr (Str (if length s \<le> nat n then s else take (nat n) s @ lit ''...''))"
  by (cases s) (auto simp: truncateText_def js_le_def nat_le_iff le_nat_iff)

lemma formatDate_iso:
  "0 \<le> y \<Longrightarrow> y \<le> 9999 \<Longrightarrow> valid_date y m d \<Longrightarrow>
   formatDate en (Str (iso_date y m d)) = Str (iso_date y m d)"
proof -
  assume "0 \<le> y" "y \<le> 9999" "valid_date y m d"
  moreover have "iso_date y m d \<noteq> []" by (simp add: iso_date_def lit_def)
  ultimately show ?thesis by (simp add: formatDate_def date_parse_iso_date iso_string_of_day)
qed

text \<open>The six fields of a story as the server's contract has them: text, the date possibly null.\<close>

definition text_or_null :: "jsval \<Rightarrow> bool" where
  "text_or_null v \<longleftrightarrow> v = Null \<or> (\<exists>s. v = Str s)"

definition text_field :: "jsval \<Rightarrow> string \<Rightarrow> bool" where
  "text_field item k \<longleftrightarrow> (\<exists>v. get_prop item k = Inr v \<and> (v = Undefined \<or> text_or_null v))"

definition story :: "jsval \<Rightarrow> bool" where
  "story item \<longleftrightarrow>
     (\<exists>ps. item = Obj ps) \<and>
     list_all (text_field item)
       [''title'', ''source'', ''source_url'', ''link'', ''publish_date'', ''description'']"

lemma text_child:
  "v = Undefined \<or> text_or_null v \<Longrightarrow> \<exists>ns. child_of v = Inr ns"
  by (auto simp: text_or_null_def)

lemma text_truncate:
  "v = Undefined \<or> text_or_null v \<Longrightarrow> \<exists>s. truncateText v 250 = Inr (Str s)"
  using truncateText_Str [of 250] by (auto simp: text_or_null_def truncateText_def)

lemma text_formatDate:
  "v = Undefined \<or> text_or_null v \<Longrightarrow> \<exists>s. formatDate en v = Str s"
  by (auto simp: text_or_null_def formatDate_def split: option.split)

lemma text_url: "v = Undefined \<or> text_or_null v \<Longrightarrow> \<exists>ns. item_source_url v = Inr ns"
  by (auto simp: text_or_null_def item_source_url_def)

lemma story_renders:
  assumes "story item"
  shows "\<exists>n. (FeedItem en item :: 'h node result) = Inr n"
proof -
  from assms obtain a b c d e f where
    f: "item_fields_of item = Inr \<lparr>it_title = a, it_source = b, it_source_url = c, it_link = d,
          it_publish_date = e, it_description = f\<rparr>"
    and t: "a = Undefined \<or> text_or_null a" "b = Undefined \<or> text_or_null b"
      "c = Undefined \<or> text_or_null c" "e = Undefined \<or> text_or_null e" "f = Undefined \<or> text_or_null f"
    by (auto simp: story_def text_field_def item_fields_of_def)
  obtain sb where "child_of b = (Inr sb :: 'h node list result)" using text_child [OF t(2)] by blast
  moreover obtain sa where "child_of a = (Inr sa :: 'h node list result)" using text_child [OF t(1)] by blast
  moreover obtain sc where "item_source_url c = (Inr sc :: 'h node list result)"
    using text_url [OF t(3)] by blast
  moreover obtain se where "formatDate en e = Str se" using text_formatDate [OF t(4)] by blast
  moreover obtain sf where "truncateText f 250 = Inr (Str sf)" using text_truncate [OF t(5)] by blast
  ultimately show ?thesis by (simp add: FeedItem_def f)
qed

text \<open>A story offers no event of the application (its link is the browser's).\<close>

lemma item_card_events:
  "concat (map events a) = [] \<Longrightarrow> concat (map events b) = [] \<Longrightarrow> concat (map events c) = [] \<Longrightarrow>
   concat (map events d) = [] \<Longrightarrow> concat (map events e) = [] \<Longrightarrow> events (item_card f a b c d e) = []"
  by (simp add: item_card_def attr_events_def del: concat_eq_Nil_conv)

lemma item_source_url_events: "item_source_url u = Inr ns \<Longrightarrow> concat (map events ns) = []"
  by (auto simp: item_source_url_def bind_r_Inr_iff attr_events_def simp del: concat_eq_Nil_conv
      split: if_splits dest: child_of_events)

lemma FeedItem_events: "FeedItem en item = Inr n \<Longrightarrow> events n = []"
  by (auto simp: FeedItem_def bind_r_Inr_iff
      intro!: item_card_events dest!: child_of_events item_source_url_events)

end
