(* ===== verification/JsSort.thy ===== *)
theory JsSort
  imports Prelude
begin

text \<open>
  \<open>Array.prototype.sort(compare)\<close>. The language fixes the result only for a consistent
  comparator; it is then the stable sorted permutation. The locale states what a consistent
  comparator promises and shows that the insertion sort below computes exactly that result,
  so that any engine's sort returns the same list.
\<close>

section \<open>The sort\<close>

fun insert_by :: "('a \<Rightarrow> 'a \<Rightarrow> int) \<Rightarrow> 'a \<Rightarrow> 'a list \<Rightarrow> 'a list" where
  "insert_by c x [] = [x]"
| "insert_by c x (y # ys) = (if c x y \<le> 0 then x # y # ys else y # insert_by c x ys)"

definition sort_by :: "('a \<Rightarrow> 'a \<Rightarrow> int) \<Rightarrow> 'a list \<Rightarrow> 'a list" where
  "sort_by c xs = foldr (insert_by c) xs []"

lemma sort_by_simps [simp]:
  "sort_by c [] = []"
  "sort_by c (x # xs) = insert_by c x (sort_by c xs)"
  by (simp_all add: sort_by_def)

text \<open>Whatever the comparator answers, the result is a permutation.\<close>

lemma mset_insert_by [simp]: "mset (insert_by c x xs) = add_mset x (mset xs)"
  by (induction xs) auto

lemma mset_sort_by [simp]: "mset (sort_by c xs) = mset xs"
  by (induction xs) auto

lemma set_insert_by [simp]: "set (insert_by c x xs) = insert x (set xs)"
  by (induction xs) auto

lemma set_sort_by [simp]: "set (sort_by c xs) = set xs"
  by (induction xs) auto

lemma length_sort_by [simp]: "length (sort_by c xs) = length xs"
  by (metis mset_sort_by size_mset)

section \<open>Consistent comparators\<close>

text \<open>The result of a sort: a permutation, ordered, and elements that compare equal keep their
  relative order.\<close>

definition stable_sorting :: "('a \<Rightarrow> 'a \<Rightarrow> int) \<Rightarrow> 'a list \<Rightarrow> 'a list \<Rightarrow> bool" where
  "stable_sorting c xs ys \<longleftrightarrow>
     mset ys = mset xs \<and> sorted_wrt (\<lambda>a b. c a b \<le> 0) ys
     \<and> (\<forall>a \<in> set xs. filter (\<lambda>b. c a b = 0) ys = filter (\<lambda>b. c a b = 0) xs)"

locale consistent_comparator =
  fixes c :: "'a \<Rightarrow> 'a \<Rightarrow> int" and carrier :: "'a \<Rightarrow> bool"
  assumes equal_self: "carrier a \<Longrightarrow> c a a = 0"
    and converse: "carrier a \<Longrightarrow> carrier b \<Longrightarrow> c a b < 0 \<longleftrightarrow> 0 < c b a"
    and transitive: "carrier a \<Longrightarrow> carrier b \<Longrightarrow> carrier d \<Longrightarrow> c a b \<le> 0 \<Longrightarrow> c b d \<le> 0 \<Longrightarrow> c a d \<le> 0"
begin

lemma le_total: "carrier a \<Longrightarrow> carrier b \<Longrightarrow> c a b \<le> 0 \<or> c b a \<le> 0"
  using converse [of a b] by linarith

lemma equal_sym: "carrier a \<Longrightarrow> carrier b \<Longrightarrow> c a b = 0 \<longleftrightarrow> c b a = 0"
  using converse [of a b] converse [of b a] by linarith

lemma equal_trans:
  "carrier a \<Longrightarrow> carrier b \<Longrightarrow> carrier d \<Longrightarrow> c a b = 0 \<Longrightarrow> c b d = 0 \<Longrightarrow> c a d = 0"
  using transitive [of a b d] transitive [of d b a] equal_sym [of a b] equal_sym [of b d]
    converse [of d a] converse [of a d] by linarith

lemma sorted_insert_by:
  "carrier x \<Longrightarrow> \<forall>y \<in> set ys. carrier y \<Longrightarrow> sorted_wrt (\<lambda>a b. c a b \<le> 0) ys \<Longrightarrow>
   sorted_wrt (\<lambda>a b. c a b \<le> 0) (insert_by c x ys)"
proof (induction ys)
  case (Cons y ys)
  show ?case
  proof (cases "c x y \<le> 0")
    case True
    with Cons.prems have "\<forall>z \<in> set ys. c x z \<le> 0"
      using transitive [of x y] by auto
    with True Cons.prems show ?thesis by simp
  next
    case False
    with Cons.prems le_total [of x y] have "c y x \<le> 0" by auto
    with False Cons show ?thesis by simp
  qed
qed simp

lemma sorted_sort_by:
  "\<forall>y \<in> set xs. carrier y \<Longrightarrow> sorted_wrt (\<lambda>a b. c a b \<le> 0) (sort_by c xs)"
  by (induction xs) (auto intro: sorted_insert_by)

lemma filter_insert_by:
  assumes "carrier a" "carrier x" "\<forall>y \<in> set ys. carrier y"
  shows "filter (\<lambda>b. c a b = 0) (insert_by c x ys) = filter (\<lambda>b. c a b = 0) (x # ys)"
  using assms(3)
proof (induction ys)
  case (Cons y ys)
  have "c a x \<noteq> 0 \<or> c a y \<noteq> 0" if "\<not> c x y \<le> 0"
    using that equal_trans [of x a y] equal_sym [of a x] assms Cons.prems by auto
  with Cons show ?case by auto
qed simp

lemma filter_sort_by:
  "carrier a \<Longrightarrow> \<forall>y \<in> set xs. carrier y \<Longrightarrow>
   filter (\<lambda>b. c a b = 0) (sort_by c xs) = filter (\<lambda>b. c a b = 0) xs"
  by (induction xs) (auto simp: filter_insert_by)

theorem sort_by_stable_sorting: "\<forall>y \<in> set xs. carrier y \<Longrightarrow> stable_sorting c xs (sort_by c xs)"
  by (simp add: stable_sorting_def sorted_sort_by filter_sort_by)

lemma sorted_heads_equal:
  assumes "\<forall>a \<in> set (y # ys) \<union> set (z # zs). carrier a"
    and "set (y # ys) = set (z # zs)"
    and "sorted_wrt (\<lambda>a b. c a b \<le> 0) (y # ys)" "sorted_wrt (\<lambda>a b. c a b \<le> 0) (z # zs)"
    and "filter (\<lambda>b. c y b = 0) (y # ys) = filter (\<lambda>b. c y b = 0) (z # zs)"
  shows "y = z"
proof -
  have cr: "carrier y" "carrier z" using assms(1) by auto
  have "z = y \<or> z \<in> set ys" and "y = z \<or> y \<in> set zs" using assms(2) by auto
  with assms(3,4) cr equal_self have "c y z \<le> 0" and "c z y \<le> 0" by auto
  with cr have "c y z = 0" using converse [of y z] converse [of z y] by linarith
  with assms(5) cr equal_self show ?thesis by simp
qed

lemma sorted_filters_unique:
  assumes "\<forall>a \<in> set ys. carrier a" and "mset ys = mset zs"
    and "sorted_wrt (\<lambda>a b. c a b \<le> 0) ys" and "sorted_wrt (\<lambda>a b. c a b \<le> 0) zs"
    and "\<forall>a \<in> set ys. filter (\<lambda>b. c a b = 0) ys = filter (\<lambda>b. c a b = 0) zs"
  shows "ys = zs"
  using assms
proof (induction ys arbitrary: zs)
  case (Cons y ys)
  then obtain z zs' where zs: "zs = z # zs'" by (cases zs) auto
  have sets: "set (y # ys) = set (z # zs')"
    using Cons.prems(2) zs by (metis mset_eq_setD)
  with Cons.prems(1) have cr: "\<forall>a \<in> set (y # ys) \<union> set (z # zs'). carrier a"
    by (metis Un_absorb)
  from Cons.prems(3-5) zs have "y = z"
    by (intro sorted_heads_equal [OF cr sets]) auto
  moreover have "filter (\<lambda>b. c a b = 0) ys = filter (\<lambda>b. c a b = 0) zs'" if "a \<in> set ys" for a
    using bspec [OF Cons.prems(5), of a] that zs \<open>y = z\<close> by (auto split: if_splits)
  ultimately show ?case
    using Cons.IH [of zs'] Cons.prems zs by auto
qed simp

theorem stable_sorting_unique:
  assumes "\<forall>y \<in> set xs. carrier y" and "stable_sorting c xs ys"
  shows "ys = sort_by c xs"
proof (rule sorted_filters_unique)
  from assms(2) have ms: "mset ys = mset xs" by (simp add: stable_sorting_def)
  then have st: "set ys = set xs" by (metis mset_eq_setD)
  with assms(1) show "\<forall>a \<in> set ys. carrier a" by simp
  from ms show "mset ys = mset (sort_by c xs)" by simp
  from assms(2) show "sorted_wrt (\<lambda>a b. c a b \<le> 0) ys" by (simp add: stable_sorting_def)
  from assms(1) show "sorted_wrt (\<lambda>a b. c a b \<le> 0) (sort_by c xs)" by (rule sorted_sort_by)
  from assms st show "\<forall>a \<in> set ys. filter (\<lambda>b. c a b = 0) ys = filter (\<lambda>b. c a b = 0) (sort_by c xs)"
    by (simp add: stable_sorting_def filter_sort_by)
qed

end

end
