(* ===== verification/FeedList.thy ===== *)
theory FeedList
  imports FeedItem JsSort
begin

text \<open>
  \<open>components/feeds/FeedList.jsx\<close>: the stories sorted by date, newest first, and the
  table of active requests.
\<close>

text \<open>One row of \<open>pendingRequests\<close>, as the dashboard creates it.\<close>

record pending_request =
  feed_request_id :: jsval
  job_id :: jsval
  urls :: "jsstr list"
  status :: jsval

section \<open>Sorting\<close>

definition publish_time :: "engine \<Rightarrow> jsval \<Rightarrow> int option" where
  "publish_time en item =
     (case get_prop item ''publish_date'' of Inr v \<Rightarrow> new_date en v | Inl _ \<Rightarrow> None)"

text \<open>The comparator \<open>db - da\<close>; \<open>NaN\<close> counts as 0.\<close>

definition by_date_desc :: "engine \<Rightarrow> jsval \<Rightarrow> jsval \<Rightarrow> int" where
  "by_date_desc en a b =
     (case (publish_time en a, publish_time en b) of
        (Some da, Some db) \<Rightarrow> db - da
      | _ \<Rightarrow> 0)"

text \<open>\<open>[...items].sort(...)\<close>: the comparator runs on every element once there are two, and
  throws on an element with no properties.\<close>

definition sortedItems :: "engine \<Rightarrow> jsval \<Rightarrow> jsval list result" where
  "sortedItems en items =
     bind_r (spread items) (\<lambda>xs.
       if length xs \<ge> 2
       then bind_r (map_r (\<lambda>a. get_prop a ''publish_date'') xs) (\<lambda>_. Inr (sort_by (by_date_desc en) xs))
       else Inr xs)"

section \<open>Rendering\<close>

definition pending_row :: "engine \<Rightarrow> pending_request \<Rightarrow> 'h node result" where
  "pending_row en req =
     bind_r (StatusBadge en (status req)) (\<lambda>badge.
       Inr (Elem ''div'' (key_of (js_or (feed_request_id req) (job_id req)))
              [class_s ''d-flex justify-content-between align-items-center mb-2'']
              [el ''span'' [class_s ''text-secondary small text-truncate me-3'',
                   (''style'', AStyle [(''maxWidth'', ''70%'')])]
                 [tx ''Parsing: '', Text (join_with (lit '', '') (urls req))],
               badge]))"

definition pending_table :: "engine \<Rightarrow> pending_request list \<Rightarrow> 'h node list result" where
  "pending_table en reqs =
     (if length reqs > 0 then
        bind_r (map_r (pending_row en) reqs) (\<lambda>rows.
          Inr [el ''div'' [class_s ''mb-4'']
                 [el ''h6'' [class_s ''fw-bold text-uppercase text-secondary mb-2 small'',
                      (''style'', AStyle [(''letterSpacing'', ''0.05em'')])] [tx ''Active Tasks''],
                  el ''div'' [class_s ''card shadow-sm border-0 rounded-3 p-3 bg-light''] rows]])
      else Inr [])"

definition item_row :: "engine \<Rightarrow> jsval \<Rightarrow> 'h node result" where
  "item_row en item =
     bind_r (get_prop item ''link'') (\<lambda>link.
     bind_r (FeedItem en item) (\<lambda>n. Inr (Elem ''div'' (key_of link) [class_s ''col-12''] [n])))"

definition story_section :: "engine \<Rightarrow> jsval list \<Rightarrow> 'h node result" where
  "story_section en stories =
     (if length stories = 0 then
        Inr (el ''div'' [class_s ''card shadow-sm border-0 rounded-3 p-5 text-center bg-white text-muted'']
               [el ''p'' [class_s ''mb-0''] [tx ''No feeds yet'']])
      else bind_r (map_r (item_row en) stories) (\<lambda>rows. Inr (el ''div'' [class_s ''row''] rows)))"

definition FeedList :: "engine \<Rightarrow> jsval \<Rightarrow> pending_request list \<Rightarrow> 'h node result" where
  "FeedList en items pendingRequests =
     bind_r (sortedItems en items) (\<lambda>stories.
     bind_r (pending_table en pendingRequests) (\<lambda>table.
     bind_r (story_section en stories) (\<lambda>body.
       Inr (el ''div'' [class_s ''feed-list-container'']
              (table @ [el ''h5'' [class_s ''fw-bold mb-3 text-dark''] [tx ''Feed Stories''], body])))))"

section \<open>The comparator is consistent on dated stories\<close>

definition dated :: "engine \<Rightarrow> jsval \<Rightarrow> bool" where
  "dated en item \<longleftrightarrow> (\<exists>t. publish_time en item = Some t)"

interpretation fl: consistent_comparator "by_date_desc en" "dated en"
  by unfold_locales (auto simp: by_date_desc_def dated_def split: option.splits)

lemma dated_get_prop: "dated en item \<Longrightarrow> \<exists>v. get_prop item ''publish_date'' = Inr v"
  by (auto simp: dated_def publish_time_def split: sum.splits)

lemma map_r_all_Inr: "(\<And>x. x \<in> set xs \<Longrightarrow> \<exists>y. f x = Inr y) \<Longrightarrow> \<exists>ys. map_r f xs = Inr ys"
  by (induction xs) fastforce+

lemma sortedItems_Arr:
  assumes "\<And>x. x \<in> set xs \<Longrightarrow> \<exists>v. get_prop x ''publish_date'' = Inr v"
  shows "sortedItems en (Arr xs) = Inr (sort_by (by_date_desc en) xs)"
proof (cases "length xs \<ge> 2")
  case True
  obtain vs where "map_r (\<lambda>a. get_prop a ''publish_date'') xs = Inr vs"
    using map_r_all_Inr [of xs "\<lambda>a. get_prop a ''publish_date''"] assms by blast
  with True show ?thesis by (simp add: sortedItems_def)
next
  case False
  then have "sort_by (by_date_desc en) xs = xs"
    by (cases xs; cases "tl xs") auto
  with False show ?thesis by (simp add: sortedItems_def)
qed

lemma by_date_desc_le_iff:
  "publish_time en a = Some s \<Longrightarrow> publish_time en b = Some t \<Longrightarrow> by_date_desc en a b \<le> 0 \<longleftrightarrow> t \<le> s"
  by (simp add: by_date_desc_def)

text \<open>The list offers no event of the application.\<close>

lemma pending_row_events: "pending_row en r = Inr n \<Longrightarrow> events n = []"
  by (auto simp: pending_row_def bind_r_Inr_iff attr_events_def StatusBadge_def
      dest!: child_of_events simp del: concat_eq_Nil_conv)

lemma item_row_events: "item_row en item = Inr n \<Longrightarrow> events n = []"
  by (auto simp: item_row_def bind_r_Inr_iff attr_events_def dest!: FeedItem_events)

lemma map_r_events:
  assumes "map_r f xs = Inr ns" "\<And>x n. f x = Inr n \<Longrightarrow> events n = []"
  shows "concat (map events ns) = []"
  using map_r_member [OF assms(1)] assms(2) by fastforce

lemma pending_table_events: "pending_table en reqs = Inr ns \<Longrightarrow> concat (map events ns) = []"
  by (auto simp: pending_table_def bind_r_Inr_iff attr_events_def simp del: concat_eq_Nil_conv
      split: if_splits dest!: map_r_events [OF _ pending_row_events])

lemma story_section_events: "story_section en stories = Inr n \<Longrightarrow> events n = []"
  by (auto simp: story_section_def bind_r_Inr_iff attr_events_def simp del: concat_eq_Nil_conv
      split: if_splits dest!: map_r_events [OF _ item_row_events])

lemma FeedList_events: "FeedList en items reqs = Inr n \<Longrightarrow> events n = []"
  by (auto simp: FeedList_def bind_r_Inr_iff attr_events_def simp del: concat_eq_Nil_conv
      dest!: pending_table_events story_section_events)

section \<open>Stories of the contract render\<close>

definition row_ok :: "pending_request \<Rightarrow> bool" where
  "row_ok r \<longleftrightarrow> status r = Undefined \<or> text_or_null (status r)"

lemma item_row_renders: "story item \<Longrightarrow> \<exists>n. (item_row en item :: 'h node result) = Inr n"
proof -
  assume s: "story item"
  then obtain l where "get_prop item ''link'' = Inr l" by (auto simp: story_def text_field_def)
  moreover obtain n where "(FeedItem en item :: 'h node result) = Inr n" using story_renders [OF s] by blast
  ultimately show ?thesis by (simp add: item_row_def)
qed

lemma pending_row_renders: "row_ok r \<Longrightarrow> \<exists>n. (pending_row en r :: 'h node result) = Inr n"
proof -
  assume "row_ok r"
  then obtain ns where "(child_of (status r) :: 'h node list result) = Inr ns"
    using text_child [of "status r"] by (auto simp: row_ok_def)
  then show ?thesis by (simp add: pending_row_def StatusBadge_def)
qed

lemma story_publish_date: "story item \<Longrightarrow> \<exists>v. get_prop item ''publish_date'' = Inr v"
  by (auto simp: story_def)

lemma story_section_renders:
  assumes "\<forall>x \<in> set xs. story x"
  shows "\<exists>n. (story_section en xs :: 'h node result) = Inr n"
proof -
  obtain rows where "map_r (item_row en :: jsval \<Rightarrow> 'h node result) xs = Inr rows"
    using map_r_all_Inr [of xs "item_row en :: jsval \<Rightarrow> 'h node result"] item_row_renders assms by blast
  then show ?thesis by (simp add: story_section_def)
qed

lemma pending_table_renders:
  assumes "\<forall>r \<in> set reqs. row_ok r"
  shows "\<exists>n. (pending_table en reqs :: 'h node list result) = Inr n"
proof -
  obtain rows where "map_r (pending_row en :: pending_request \<Rightarrow> 'h node result) reqs = Inr rows"
    using map_r_all_Inr [of reqs "pending_row en :: pending_request \<Rightarrow> 'h node result"]
      pending_row_renders assms by blast
  then show ?thesis by (simp add: pending_table_def)
qed

lemma FeedList_renders:
  assumes "\<forall>x \<in> set xs. story x" "\<forall>r \<in> set reqs. row_ok r"
  shows "\<exists>n. (FeedList en (Arr xs) reqs :: 'h node result) = Inr n"
proof -
  have s: "sortedItems en (Arr xs) = Inr (sort_by (by_date_desc en) xs)"
    using assms(1) story_publish_date by (intro sortedItems_Arr) blast
  obtain n where "(story_section en (sort_by (by_date_desc en) xs) :: 'h node result) = Inr n"
    using story_section_renders [of "sort_by (by_date_desc en) xs" en] assms(1) by auto
  moreover obtain t where "(pending_table en reqs :: 'h node list result) = Inr t"
    using pending_table_renders [OF assms(2), of en] by blast
  ultimately show ?thesis by (simp add: FeedList_def s)
qed

end
