(* ===== verification/LoginForm.thy ===== *)
theory LoginForm
  imports Shared
begin

text \<open>
  \<open>components/auth/LoginForm.jsx\<close>: the state of the form, its event handlers and what
  it renders. \<open>handleSubmit\<close> is asynchronous: it runs up to the \<open>await\<close> of
  \<open>onLoginSuccess\<close>, and the rest runs when that promise settles.
\<close>

record login_form =
  lf_email :: jsstr
  lf_password :: jsstr
  lf_error :: jsstr
  lf_loading :: bool

definition lf_init :: login_form where
  "lf_init = \<lparr>lf_email = [], lf_password = [], lf_error = [], lf_loading = False\<rparr>"

datatype lf_handler = LfCloseError | LfSubmit | LfEmail | LfPassword

section \<open>Handlers\<close>

definition lf_set_email :: "jsstr \<Rightarrow> login_form \<Rightarrow> login_form" where
  "lf_set_email v s = s\<lparr>lf_email := v\<rparr>"

definition lf_set_password :: "jsstr \<Rightarrow> login_form \<Rightarrow> login_form" where
  "lf_set_password v s = s\<lparr>lf_password := v\<rparr>"

definition lf_close_error :: "login_form \<Rightarrow> login_form" where
  "lf_close_error s = s\<lparr>lf_error := []\<rparr>"

text \<open>\<open>handleSubmit\<close> up to the \<open>await\<close>: the new state and the arguments of
  \<open>onLoginSuccess\<close>.\<close>

definition lf_submit :: "login_form \<Rightarrow> login_form \<times> (jsstr \<times> jsstr)" where
  "lf_submit s = (s\<lparr>lf_error := [], lf_loading := True\<rparr>, (lf_email s, lf_password s))"

definition or_text :: "jsstr \<Rightarrow> string \<Rightarrow> jsstr" where
  "or_text s d = (if s \<noteq> [] then s else lit d)"

text \<open>\<open>handleSubmit\<close> from the settled promise on: \<open>catch\<close> and \<open>finally\<close>.\<close>

definition lf_settle :: "engine \<Rightarrow> unit result \<Rightarrow> (js_error, login_form, unit) act" where
  "lf_settle en outcome =
     try_finally
       (try_catch (lift_r outcome)
          (\<lambda>err. modify (\<lambda>s. s\<lparr>lf_error := or_text (err_message en err) ''Invalid email or password''\<rparr>)))
       (modify (\<lambda>s. s\<lparr>lf_loading := False\<rparr>))"

section \<open>Rendering\<close>

abbreviation gradient :: string where
  "gradient \<equiv> ''linear-gradient(135deg, #4F46E5 0%, #7C3AED 100%)''"

abbreviation spinner_sm :: "'h node" where
  "spinner_sm \<equiv>
     el ''span'' [class_s ''spinner-border spinner-border-sm me-2'', attr_s ''role'' ''status'',
        attr_s ''aria-hidden'' ''true''] []"

definition lf_form :: "login_form \<Rightarrow> lf_handler node" where
  "lf_form s =
     el ''form'' [(''onSubmit'', AOn LfSubmit)]
       [el ''div'' [class_s ''mb-3'']
          [el ''label'' [attr_s ''htmlFor'' ''email'', class_s ''form-label text-secondary fw-semibold small'']
             [tx ''Email Address''],
           el ''input''
             [attr_s ''type'' ''email'', attr_s ''id'' ''email'',
              class_s ''form-control form-control-lg rounded-3 border-light-subtle shadow-sm fs-6'',
              attr_s ''placeholder'' ''name@example.com'', (''value'', AVal (Str (lf_email s))),
              (''onChange'', AOn LfEmail), (''required'', AVal (Bool True)),
              attr_s ''autoComplete'' ''email''] []],
        el ''div'' [class_s ''mb-4'']
          [el ''label'' [attr_s ''htmlFor'' ''password'', class_s ''form-label text-secondary fw-semibold small'']
             [tx ''Password''],
           el ''input''
             [attr_s ''type'' ''password'', attr_s ''id'' ''password'',
              class_s ''form-control form-control-lg rounded-3 border-light-subtle shadow-sm fs-6'',
              (''placeholder'', AVal (Str (replicate 8 8226))), (''value'', AVal (Str (lf_password s))),
              (''onChange'', AOn LfPassword), (''required'', AVal (Bool True)),
              attr_s ''autoComplete'' ''current-password''] []],
        el ''button''
          [attr_s ''type'' ''submit'',
           class_s ''btn btn-primary btn-lg w-100 rounded-3 shadowfw-semibold py-2 transition-all'',
           (''style'', AStyle [(''background'', gradient), (''border'', ''none'')]),
           (''disabled'', AVal (Bool (lf_loading s)))]
          ((if lf_loading s then [spinner_sm] else []) @ [tx ''Sign in''])]"

definition LoginForm :: "login_form \<Rightarrow> lf_handler node" where
  "LoginForm s =
     el ''div'' [class_s ''d-flex align-items-center justify-content-center min-vh-100 bg-light'']
       [el ''div''
          [class_s ''card shadow-lg border-0 rounded-4'',
           (''style'', AStyle [(''maxWidth'', ''400px''), (''width'', ''100%''), (''overflow'', ''hidden'')])]
          [el ''div'' [class_s ''bg-primary text-white text-center py-4 px-3'',
               (''style'', AStyle [(''background'', gradient)])]
             [el ''h2'' [class_s ''fw-bold mb-0''] [tx ''Welcome Back''],
              el ''p'' [class_s ''text-white-50 small mb-0 mt-1''] [tx ''Sign in to your RSS Reader account'']],
           el ''div'' [class_s ''card-body p-4'']
             (ErrorBanner (lf_error s) (Some LfCloseError) @ [lf_form s])]]"

section \<open>Facts\<close>

lemma or_text_not_Nil [simp]: "d \<noteq> [] \<Longrightarrow> or_text s d \<noteq> []"
  by (simp add: or_text_def)

lemma lf_settle_Inr [simp]: "lf_settle en (Inr ()) s = (Inr (), s\<lparr>lf_loading := False\<rparr>)"
  by (simp add: lf_settle_def act_simps)

lemma lf_settle_Inl [simp]:
  "lf_settle en (Inl e) s =
     (Inr (), s\<lparr>lf_error := or_text (err_message en e) ''Invalid email or password'', lf_loading := False\<rparr>)"
  by (simp add: lf_settle_def act_simps)

lemma lf_form_events:
  "events (lf_form s) = (if lf_loading s then [] else [LfSubmit]) @ [LfEmail, LfPassword]"
  by (simp add: lf_form_def ui_simps)

lemma LoginForm_events:
  "events (LoginForm s) =
     (if lf_error s = [] then [] else [LfCloseError])
     @ (if lf_loading s then [] else [LfSubmit]) @ [LfEmail, LfPassword]"
  using ErrorBanner_events [of "lf_error s" "Some LfCloseError"]
  by (simp add: LoginForm_def lf_form_events ui_simps(1-5))

end
