(* ===== verification/Machine.thy ===== *)
theory Machine
  imports Main
begin

text \<open>
  Reachable states of a step relation, and the contract of an inductive invariant: it holds
  initially and every step keeps it, so it holds in every reachable state. A second invariant
  may be proved relative to the first (\<open>strengthened_invariant\<close>).
\<close>

inductive reach :: "('s \<Rightarrow> bool) \<Rightarrow> ('s \<Rightarrow> 's \<Rightarrow> bool) \<Rightarrow> 's \<Rightarrow> bool"
  for start :: "'s \<Rightarrow> bool" and step :: "'s \<Rightarrow> 's \<Rightarrow> bool" where
  reach_start: "start s \<Longrightarrow> reach start step s"
| reach_step: "reach start step s \<Longrightarrow> step s t \<Longrightarrow> reach start step t"

text \<open>Runs as lists of the states passed through.\<close>

fun run_of :: "('s \<Rightarrow> 's \<Rightarrow> bool) \<Rightarrow> 's \<Rightarrow> 's list \<Rightarrow> bool" where
  "run_of step s [] = True"
| "run_of step s (t # ts) = (step s t \<and> run_of step t ts)"

lemma reach_run: "reach start step s \<Longrightarrow> run_of step s ts \<Longrightarrow> reach start step (last (s # ts))"
proof (induction ts arbitrary: s)
  case (Cons t ts)
  then have "reach start step t" "run_of step t ts" by (auto intro: reach_step)
  then have "reach start step (last (t # ts))" by (rule Cons.IH)
  then show ?case by (simp only: last_ConsR list.distinct simp_thms)
qed simp

lemma reach_star: "step\<^sup>*\<^sup>* s t \<Longrightarrow> reach start step s \<Longrightarrow> reach start step t"
  by (induction rule: rtranclp_induct) (auto intro: reach_step)

lemma two_steps: "step s t \<Longrightarrow> step t u \<Longrightarrow> u = v \<Longrightarrow> step\<^sup>*\<^sup>* s v"
  by (blast intro: rtranclp.rtrancl_refl rtranclp.rtrancl_into_rtrancl)

lemma reach_mono: "reach a r s \<Longrightarrow> (\<And>s t. r s t \<Longrightarrow> q s t) \<Longrightarrow> reach a q s"
  by (induction rule: reach.induct) (blast intro: reach_start reach_step)+

locale inductive_invariant =
  fixes start :: "'s \<Rightarrow> bool" and step :: "'s \<Rightarrow> 's \<Rightarrow> bool" and inv :: "'s \<Rightarrow> bool"
  assumes start_inv: "start s \<Longrightarrow> inv s"
    and step_inv: "inv s \<Longrightarrow> step s t \<Longrightarrow> inv t"
begin

lemma reachable_inv: "reach start step s \<Longrightarrow> inv s"
  by (induction rule: reach.induct) (auto intro: start_inv step_inv)

lemma run_inv: "inv s \<Longrightarrow> run_of step s ts \<Longrightarrow> t \<in> set ts \<Longrightarrow> inv t"
  by (induction ts arbitrary: s) (auto intro: step_inv)

end

locale strengthened_invariant = base: inductive_invariant start step inv
  for start :: "'s \<Rightarrow> bool" and step :: "'s \<Rightarrow> 's \<Rightarrow> bool" and inv :: "'s \<Rightarrow> bool" +
  fixes extra :: "'s \<Rightarrow> bool"
  assumes start_extra: "start s \<Longrightarrow> extra s"
    and step_extra: "inv s \<Longrightarrow> extra s \<Longrightarrow> step s t \<Longrightarrow> extra t"

sublocale strengthened_invariant \<subseteq> both: inductive_invariant start step "\<lambda>s. inv s \<and> extra s"
  by unfold_locales (auto intro: base.start_inv base.step_inv start_extra step_extra)

context strengthened_invariant begin

lemma reachable_extra: "reach start step s \<Longrightarrow> extra s"
  using both.reachable_inv by blast

end

end
