(* ===== verification/FeedForm.thy ===== *)
theory FeedForm
  imports LoginForm JsDate Machine
begin

text \<open>
  \<open>components/feeds/FeedForm.jsx\<close>: the list of URL fields, its handlers, the submit
  guard and what it renders. A handler reads the list of the render that created it and sets
  a new list; the list of a render is the argument \<open>urls\<close>.
\<close>

datatype ff_handler = FfSubmit | FfChange nat | FfRemove nat | FfAdd

definition ff_init :: "jsstr list" where
  "ff_init = [[]]"

section \<open>Handlers\<close>

text \<open>\<open>newUrls[index] = value\<close>: the handlers are created by mapping over the same list, so
  \<open>index\<close> is in range (\<open>FeedForm_events_range\<close>).\<close>

definition handleUrlChange :: "jsstr list \<Rightarrow> nat \<Rightarrow> jsstr \<Rightarrow> jsstr list" where
  "handleUrlChange urls index value = urls[index := value]"

definition addField :: "jsstr list \<Rightarrow> jsstr list" where
  "addField urls = urls @ [[]]"

definition filter_index :: "(nat \<Rightarrow> bool) \<Rightarrow> 'a list \<Rightarrow> 'a list" where
  "filter_index p xs = map snd (filter (\<lambda>(i, _). p i) (enumerate 0 xs))"

definition removeField :: "jsstr list \<Rightarrow> nat \<Rightarrow> jsstr list" where
  "removeField urls index = (if length urls > 1 then filter_index (\<lambda>i. i \<noteq> index) urls else urls)"

definition active_urls :: "jsstr list \<Rightarrow> jsstr list" where
  "active_urls urls = filter (\<lambda>u. u \<noteq> []) (map trim urls)"

text \<open>\<open>handleSubmit\<close>: the argument of \<open>onSubmit\<close>, if it is called.\<close>

definition ff_submit :: "jsstr list \<Rightarrow> jsstr list option" where
  "ff_submit urls = (if length (active_urls urls) > 0 then Some (active_urls urls) else None)"

definition isSubmitDisabled :: "jsstr list \<Rightarrow> bool \<Rightarrow> bool" where
  "isSubmitDisabled urls loading \<longleftrightarrow> loading \<or> length (active_urls urls) = 0"

section \<open>Rendering\<close>

definition input_id :: "nat \<Rightarrow> jsstr" where
  "input_id index = lit ''feed-url-input-'' @ int_text (int index + 1)"

definition ff_field :: "nat \<Rightarrow> nat \<Rightarrow> jsstr \<Rightarrow> ff_handler node" where
  "ff_field n index url =
     Elem ''div'' (Some (int_text (int index))) [class_s ''input-group mb-3'']
       ([el ''label'' [(''htmlFor'', AVal (Str (input_id index))),
              class_s ''input-group-text bg-light border-0 text-secondary small'']
           [tx ''Feed URL '', Text (int_text (int index + 1))],
         el ''input''
           [attr_s ''type'' ''url'', (''id'', AVal (Str (input_id index))),
            class_s ''form-control border-light-subtle shadow-none'',
            attr_s ''placeholder'' ''https://example.com/rss.xml'', (''value'', AVal (Str url)),
            (''onChange'', AOn (FfChange index)), (''required'', AVal (Bool True))] []]
        @ (if n > 1 then
             [el ''button'' [attr_s ''type'' ''button'', class_s ''btn btn-outline-danger border-light-subtle'',
                  (''onClick'', AOn (FfRemove index))] [tx ''Remove'']]
           else []))"

definition FeedForm :: "jsstr list \<Rightarrow> bool \<Rightarrow> ff_handler node" where
  "FeedForm urls loading =
     el ''form'' [(''onSubmit'', AOn FfSubmit), class_s ''mb-4'']
       [el ''div'' [class_s ''card shadow-sm border-0 rounded-3 p-4 bg-white'']
          ([el ''h5'' [class_s ''fw-bold mb-3 text-dark''] [tx ''Submit RSS Feeds'']]
           @ map (\<lambda>(index, url). ff_field (length urls) index url) (enumerate 0 urls)
           @ [el ''div'' [class_s ''d-flex justify-content-between align-items-center mt-2'']
                [el ''button''
                   [attr_s ''type'' ''button'',
                    class_s ''btn btn-outline-secondary btn-sm rounded-2 fw-semibold px-3'',
                    (''onClick'', AOn FfAdd), (''disabled'', AVal (Bool loading))]
                   [tx ''Add another URL''],
                 el ''button''
                   [attr_s ''type'' ''submit'', class_s ''btn btn-primary btn-md rounded-2 fw-semibold px-4'',
                    (''disabled'', AVal (Bool (isSubmitDisabled urls loading)))]
                   ((if loading then [spinner_sm] else []) @ [tx ''Parse Feeds''])]])]"

section \<open>The form as a machine\<close>

text \<open>One user event on a form rendered with \<open>loading\<close>; only events the rendered tree offers can
  happen. Submitting does not change the fields.\<close>

fun ff_apply :: "ff_handler \<Rightarrow> jsstr \<Rightarrow> jsstr list \<Rightarrow> jsstr list" where
  "ff_apply FfSubmit v urls = urls"
| "ff_apply (FfChange i) v urls = handleUrlChange urls i v"
| "ff_apply (FfRemove i) v urls = removeField urls i"
| "ff_apply FfAdd v urls = addField urls"

inductive ff_step :: "bool \<Rightarrow> jsstr list \<Rightarrow> jsstr list \<Rightarrow> bool" for loading where
  "h \<in> set (events (FeedForm urls loading)) \<Longrightarrow> ff_step loading urls (ff_apply h v urls)"

section \<open>Facts\<close>

lemma filter_index_neq: "filter_index (\<lambda>i. i \<noteq> k) xs = take k xs @ drop (Suc k) xs"
proof -
  have "map snd (filter (\<lambda>(i, _). i \<noteq> n + k) (enumerate n xs)) = take k xs @ drop (Suc k) xs" for n
  proof (induction xs arbitrary: n k)
    case (Cons x xs)
    have all: "map snd (filter (\<lambda>(i, _). i \<noteq> n) (enumerate (Suc n) ys)) = ys" for ys :: "'a list"
    proof -
      have "filter (\<lambda>(i, _). i \<noteq> n) (enumerate (Suc n) ys) = enumerate (Suc n) ys"
        by (rule filter_True) (auto simp: in_set_enumerate_eq)
      then show ?thesis by simp
    qed
    show ?case
    proof (cases k)
      case 0
      then show ?thesis using all by simp
    next
      case (Suc j)
      then show ?thesis using Cons.IH [of "Suc n" j] by simp
    qed
  qed simp
  from this [of 0] show ?thesis by (simp add: filter_index_def)
qed

lemma removeField_eq:
  "removeField urls i = (if length urls > 1 then take i urls @ drop (Suc i) urls else urls)"
  by (simp add: removeField_def filter_index_neq)

lemma active_urls_eq: "active_urls urls = map trim (filter (\<lambda>u. trim u \<noteq> []) urls)"
  by (induction urls) (auto simp: active_urls_def)

lemma active_urls_trimmed: "u \<in> set (active_urls urls) \<Longrightarrow> u \<noteq> [] \<and> trim u = u"
  by (auto simp: active_urls_def)

lemma ff_submit_Some_iff:
  "ff_submit urls = Some us \<longleftrightarrow> us = active_urls urls \<and> us \<noteq> []"
  by (auto simp: ff_submit_def)

lemma digits_inj: "digits m = digits n \<Longrightarrow> m = n"
  by (metis add_0 mult_0 number_value_digits option.inject)

lemma input_id_inj: "input_id i = input_id j \<longleftrightarrow> i = j"
proof
  assume "input_id i = input_id j"
  then have "digits (Suc i) = digits (Suc j)"
    by (simp add: input_id_def int_text_def nat_add_distrib)
  then show "i = j" using digits_inj by blast
qed simp

lemma ff_field_events:
  "events (ff_field n i url) = FfChange i # (if n > 1 then [FfRemove i] else [])"
  by (simp add: ff_field_def ui_simps)

lemma ff_field_submit_buttons: "submit_buttons (ff_field n i url) = []"
  by (simp add: ff_field_def ui_simps)

lemma FeedForm_enabled: "form_enabled (FeedForm urls loading) \<longleftrightarrow> \<not> isSubmitDisabled urls loading"
proof -
  have fields: "concat (map (submit_buttons \<circ> (\<lambda>(i, url). ff_field n i url)) xs) = []" for n xs
    by (induction xs) (auto simp: ff_field_submit_buttons)
  show ?thesis
    by (simp add: FeedForm_def form_enabled_def is_disabled_def is_submit_def fields del: concat_eq_Nil_conv)
qed

lemma FeedForm_events:
  "events (FeedForm urls loading) =
     (if isSubmitDisabled urls loading then [] else [FfSubmit])
     @ concat (map (\<lambda>i. FfChange i # (if length urls > 1 then [FfRemove i] else [])) [0..<length urls])
     @ (if loading then [] else [FfAdd])"
proof -
  define ev where "ev = (\<lambda>(n :: nat) (i :: nat). FfChange i # (if n > 1 then [FfRemove i] else []))"
  have fields: "concat (map (events \<circ> (\<lambda>(i, url). ff_field n i url)) (enumerate k xs)) =
      concat (map (ev n) [k..<k + length xs])" for n k xs
  proof (induction xs arbitrary: k)
    case (Cons x xs)
    have "[k..<k + length (x # xs)] = k # [Suc k..<Suc k + length xs]"
      by (simp add: upt_conv_Cons del: upt_Suc)
    with Cons [of "Suc k"] show ?case by (simp add: ff_field_events ev_def del: upt_Suc)
  qed simp
  show ?thesis
    unfolding FeedForm_def events.simps FeedForm_enabled [unfolded FeedForm_def]
    by (simp add: is_disabled_def attr_events_def fields ev_def)
qed

lemma FeedForm_events_range:
  "FfChange i \<in> set (events (FeedForm urls loading)) \<Longrightarrow> i < length urls"
  "FfRemove i \<in> set (events (FeedForm urls loading)) \<Longrightarrow> i < length urls \<and> length urls > 1"
  by (auto simp: FeedForm_events split: if_splits)

lemma ff_apply_not_Nil:
  "urls \<noteq> [] \<Longrightarrow> h \<in> set (events (FeedForm urls loading)) \<Longrightarrow> ff_apply h v urls \<noteq> []"
proof (cases h)
  case (FfRemove i)
  assume "urls \<noteq> []" "h \<in> set (events (FeedForm urls loading))"
  with FfRemove FeedForm_events_range(2) have "i < length urls" "1 < length urls" by blast+
  then have "length (removeField urls i) = length urls - 1" by (simp add: removeField_eq)
  with FfRemove \<open>1 < length urls\<close> show ?thesis by auto
qed (simp_all add: handleUrlChange_def addField_def)

interpretation ff: inductive_invariant "\<lambda>urls. urls = ff_init" "\<lambda>s t. \<exists>loading. ff_step loading s t" "\<lambda>urls. urls \<noteq> []"
  by unfold_locales (auto simp: ff_init_def elim!: ff_step.cases dest: ff_apply_not_Nil)

end
