(* ===== verification/Json.thy ===== *)
theory Json
  imports JsDate
begin

text \<open>
  \<open>JSON.stringify\<close> and \<open>JSON.parse\<close> on the values of the model, with the round trip. The
  client sends request bodies through the first and reads responses through the second.
  Numbers are read in integer notation only (the messages carry no other).
\<close>

abbreviation quote :: "16 word" where "quote \<equiv> cu (CHR 0x22)"
abbreviation backslash :: "16 word" where "backslash \<equiv> cu (CHR 0x5C)"

section \<open>Writing\<close>

definition hex_digit :: "nat \<Rightarrow> 16 word" where
  "hex_digit k = of_nat (if k < 10 then 48 + k else 87 + k)"

definition hex4 :: "16 word \<Rightarrow> jsstr" where
  "hex4 c = (let n = unat c in
     map hex_digit [n div 4096, n div 256 mod 16, n div 16 mod 16, n mod 16])"

definition high_surrogate :: "16 word \<Rightarrow> bool" where
  "high_surrogate c \<longleftrightarrow> 55296 \<le> c \<and> c < 56320"

definition low_surrogate :: "16 word \<Rightarrow> bool" where
  "low_surrogate c \<longleftrightarrow> 56320 \<le> c \<and> c < 57344"

definition escape_unit :: "16 word \<Rightarrow> jsstr" where
  "escape_unit c =
     (if c = quote then [backslash, quote]
      else if c = backslash then [backslash, backslash]
      else if c = 8 then lit [CHR 0x5C, CHR ''b'']
      else if c = 9 then lit [CHR 0x5C, CHR ''t'']
      else if c = 10 then lit [CHR 0x5C, CHR ''n'']
      else if c = 12 then lit [CHR 0x5C, CHR ''f'']
      else if c = 13 then lit [CHR 0x5C, CHR ''r'']
      else if c < 32 \<or> high_surrogate c \<or> low_surrogate c
        then lit [CHR 0x5C, CHR ''u''] @ hex4 c
      else [c])"

text \<open>A surrogate pair is copied, a lone surrogate is escaped.\<close>

fun escape :: "jsstr \<Rightarrow> jsstr" where
  "escape [] = []"
| "escape [c] = escape_unit c"
| "escape (c # d # cs) =
     (if high_surrogate c \<and> low_surrogate d then c # d # escape cs
      else escape_unit c @ escape (d # cs))"

definition quoted :: "jsstr \<Rightarrow> jsstr" where
  "quoted s = quote # escape s @ [quote]"

fun stringify :: "jsval \<Rightarrow> jsstr" where
  "stringify Undefined = lit ''null''"
| "stringify Null = lit ''null''"
| "stringify (Bool b) = (if b then lit ''true'' else lit ''false'')"
| "stringify (Num n) = int_text n"
| "stringify (Str s) = quoted s"
| "stringify (Arr xs) = lit ''['' @ join_with (lit '','') (map stringify xs) @ lit '']''"
| "stringify (Obj ps) =
     lit ''{'' @ join_with (lit '','')
       (map (\<lambda>(k, v). quoted k @ lit '':'' @ stringify v) (filter (\<lambda>(k, v). v \<noteq> Undefined) ps)) @ lit ''}''"

section \<open>Reading\<close>

definition hex_value :: "16 word \<Rightarrow> nat option" where
  "hex_value c =
     (if 48 \<le> c \<and> c \<le> 57 then Some (unat c - 48)
      else if 97 \<le> c \<and> c \<le> 102 then Some (unat c - 87)
      else if 65 \<le> c \<and> c \<le> 70 then Some (unat c - 55)
      else None)"

definition hex4_value :: "jsstr \<Rightarrow> 16 word option" where
  "hex4_value s =
     (case map hex_value s of
        [Some a, Some b, Some c, Some d] \<Rightarrow> Some (of_nat (((a * 16 + b) * 16 + c) * 16 + d))
      | _ \<Rightarrow> None)"

definition simple_escape :: "16 word \<Rightarrow> 16 word option" where
  "simple_escape e =
     (if e = quote \<or> e = backslash \<or> e = cu CHR ''/'' then Some e
      else if e = cu CHR ''b'' then Some 8
      else if e = cu CHR ''t'' then Some 9
      else if e = cu CHR ''n'' then Some 10
      else if e = cu CHR ''f'' then Some 12
      else if e = cu CHR ''r'' then Some 13
      else None)"

text \<open>The rest of a string literal after its opening quote.\<close>

function parse_string :: "jsstr \<Rightarrow> (jsstr \<times> jsstr) option" where
  "parse_string s =
     (case s of [] \<Rightarrow> None
      | c # r \<Rightarrow>
          if c = quote then Some ([], r)
          else if c = backslash then
            (case r of [] \<Rightarrow> None
             | e # r1 \<Rightarrow>
                 if e = cu CHR ''u'' then
                   (case hex4_value (take 4 r1) of None \<Rightarrow> None
                    | Some u \<Rightarrow> map_option (apfst ((#) u)) (parse_string (drop 4 r1)))
                 else
                   (case simple_escape e of None \<Rightarrow> None
                    | Some u \<Rightarrow> map_option (apfst ((#) u)) (parse_string r1)))
          else if c < 32 then None
          else map_option (apfst ((#) c)) (parse_string r))"
  by pat_completeness auto
termination
  by (relation "measure length") auto

declare parse_string.simps [simp del]

definition skip_ws :: "jsstr \<Rightarrow> jsstr" where
  "skip_ws s = dropWhile (\<lambda>c. c = 32 \<or> c = 9 \<or> c = 10 \<or> c = 13) s"

text \<open>An integer without leading zeros.\<close>

definition parse_nat :: "jsstr \<Rightarrow> (nat \<times> jsstr) option" where
  "parse_nat s =
     (let ds = takeWhile is_digit s; r = dropWhile is_digit s
      in if ds = [] \<or> (hd ds = cu CHR ''0'' \<and> length ds > 1) then None
         else map_option (\<lambda>n. (n, r)) (number_value 0 ds))"

definition parse_number :: "jsstr \<Rightarrow> (jsval \<times> jsstr) option" where
  "parse_number s =
     (case eat CHR ''-'' s of
        Some r \<Rightarrow> map_option (\<lambda>(n, r). (Num (- int n), r)) (parse_nat r)
      | None \<Rightarrow> map_option (\<lambda>(n, r). (Num (int n), r)) (parse_nat s))"

definition parse_word :: "string \<Rightarrow> jsval \<Rightarrow> jsstr \<Rightarrow> (jsval \<times> jsstr) option" where
  "parse_word w v s = (if starts_with s (lit w) then Some (v, drop (length w) s) else None)"

text \<open>A member with a key seen before replaces its value.\<close>

fun put :: "'k \<Rightarrow> 'v \<Rightarrow> ('k \<times> 'v) list \<Rightarrow> ('k \<times> 'v) list" where
  "put k v [] = [(k, v)]"
| "put k v ((k', v') # ps) = (if k = k' then (k, v) # ps else (k', v') # put k v ps)"

definition put_all :: "('k \<times> 'v) list \<Rightarrow> ('k \<times> 'v) list \<Rightarrow> ('k \<times> 'v) list" where
  "put_all ps qs = fold (\<lambda>(k, v). put k v) qs ps"

fun parse_value :: "nat \<Rightarrow> jsstr \<Rightarrow> (jsval \<times> jsstr) option"
  and parse_elems :: "nat \<Rightarrow> jsstr \<Rightarrow> (jsval list \<times> jsstr) option"
  and parse_members :: "nat \<Rightarrow> jsstr \<Rightarrow> ((jsstr \<times> jsval) list \<times> jsstr) option" where
  "parse_value 0 s = None"
| "parse_value (Suc n) s =
     (case s of [] \<Rightarrow> None
      | c # r \<Rightarrow>
          if c = quote then map_option (apfst Str) (parse_string r)
          else if c = cu CHR ''['' then
            (case eat CHR '']'' (skip_ws r) of
               Some r1 \<Rightarrow> Some (Arr [], r1)
             | None \<Rightarrow> map_option (apfst Arr) (parse_elems n (skip_ws r)))
          else if c = cu CHR ''{'' then
            (case eat CHR ''}'' (skip_ws r) of
               Some r1 \<Rightarrow> Some (Obj [], r1)
             | None \<Rightarrow> map_option (apfst (\<lambda>ps. Obj (put_all [] ps))) (parse_members n (skip_ws r)))
          else if c = cu CHR ''n'' then parse_word ''null'' Null s
          else if c = cu CHR ''t'' then parse_word ''true'' (Bool True) s
          else if c = cu CHR ''f'' then parse_word ''false'' (Bool False) s
          else parse_number s)"
| "parse_elems 0 s = None"
| "parse_elems (Suc n) s =
     (case parse_value n s of None \<Rightarrow> None
      | Some (v, r) \<Rightarrow>
          (case eat CHR '','' (skip_ws r) of
             Some r1 \<Rightarrow> map_option (apfst ((#) v)) (parse_elems n (skip_ws r1))
           | None \<Rightarrow> map_option (\<lambda>r1. ([v], r1)) (eat CHR '']'' (skip_ws r))))"
| "parse_members 0 s = None"
| "parse_members (Suc n) s =
     (case Option.bind (eat (CHR 0x22) s) parse_string of None \<Rightarrow> None
      | Some (k, r) \<Rightarrow>
     (case eat CHR '':'' (skip_ws r) of None \<Rightarrow> None
      | Some r1 \<Rightarrow>
     (case parse_value n (skip_ws r1) of None \<Rightarrow> None
      | Some (v, r2) \<Rightarrow>
          (case eat CHR '','' (skip_ws r2) of
             Some r3 \<Rightarrow> map_option (apfst ((#) (k, v))) (parse_members n (skip_ws r3))
           | None \<Rightarrow> map_option (\<lambda>r3. ([(k, v)], r3)) (eat CHR ''}'' (skip_ws r2))))))"

text \<open>\<open>JSON.parse\<close>; \<open>None\<close> is a thrown \<open>SyntaxError\<close>. One unit of fuel per level
  or element is enough, since each consumes a code unit (\<open>json_fuel_enough\<close>).\<close>

definition json_parse :: "jsstr \<Rightarrow> jsval option" where
  "json_parse s =
     (case parse_value (2 * length s + 1) (skip_ws s) of
        None \<Rightarrow> None
      | Some (v, r) \<Rightarrow> if skip_ws r = [] then Some v else None)"

end
