(* ===== verification/JsonRound.thy ===== *)
theory JsonRound
  imports Json
begin

text \<open>
  What is written by \<open>stringify\<close> is read back by \<open>json_parse\<close>, and the parser's fuel
  never decides its answer.
\<close>

section \<open>String literals\<close>

lemma hex_value_digit: "k < 16 \<Longrightarrow> hex_value (hex_digit k) = Some k"
proof -
  assume "k < 16"
  moreover have "list_all (\<lambda>k. hex_value (hex_digit k) = Some k) [0..<16]" by code_simp
  ultimately show ?thesis by (simp add: list_all_iff)
qed

lemma hex4_digits:
  fixes n :: nat
  assumes "n < 65536"
  shows "((n div 4096 * 16 + n div 256 mod 16) * 16 + n div 16 mod 16) * 16 + n mod 16 = n"
proof -
  have "n div 256 = n div 4096 * 16 + n div 256 mod 16"
    by (simp add: div_mult2_eq [of n 256 16, simplified] mult.commute)
  moreover have "n div 16 = n div 256 * 16 + n div 16 mod 16"
    by (simp add: div_mult2_eq [of n 16 16, simplified] mult.commute)
  ultimately show ?thesis by (metis div_mult_mod_eq)
qed

lemma hex4_value_hex4: "hex4_value (hex4 c) = Some c"
proof -
  define n where "n = unat c"
  have "unat c < 2 ^ LENGTH(16)" by (rule unsigned_less)
  then have n: "n < 65536" by (simp add: n_def)
  then have "n div 4096 < 16" by (simp add: less_mult_imp_div_less)
  then have "map hex_value (hex4 c) =
      [Some (n div 4096), Some (n div 256 mod 16), Some (n div 16 mod 16), Some (n mod 16)]"
    by (simp add: hex4_def Let_def hex_value_digit flip: n_def)
  then have "hex4_value (hex4 c) =
      Some (of_nat (((n div 4096 * 16 + n div 256 mod 16) * 16 + n div 16 mod 16) * 16 + n mod 16))"
    by (simp only: hex4_value_def list.case option.case)
  also have "\<dots> = Some c" unfolding hex4_digits [OF n] by (simp add: n_def)
  finally show ?thesis .
qed

lemma length_hex4 [simp]: "length (hex4 c) = 4"
  by (simp add: hex4_def Let_def)

lemma parse_string_plain:
  "c \<noteq> quote \<Longrightarrow> c \<noteq> backslash \<Longrightarrow> \<not> c < 32 \<Longrightarrow>
   parse_string (c # t) = map_option (apfst ((#) c)) (parse_string t)"
  by (simp add: parse_string.simps [of "c # t"])

lemma parse_string_unit:
  "parse_string (escape_unit c @ t) = map_option (apfst ((#) c)) (parse_string t)"
proof -
  have u: "parse_string (backslash # cu CHR ''u'' # hex4 c @ t) =
      map_option (apfst ((#) c)) (parse_string t)"
    by (simp add: parse_string.simps [of "backslash # cu CHR ''u'' # hex4 c @ t"] hex4_value_hex4)
  have e: "simple_escape e = Some w \<Longrightarrow> e \<noteq> cu CHR ''u'' \<Longrightarrow>
      parse_string (backslash # e # t) = map_option (apfst ((#) w)) (parse_string t)" for e w
    by (simp add: parse_string.simps [of "backslash # e # t"])
  consider "c = quote" | "c = backslash" | "c = 8" | "c = 9" | "c = 10" | "c = 12" | "c = 13"
    | "c \<noteq> quote" "c \<noteq> backslash" "c \<noteq> 8" "c \<noteq> 9" "c \<noteq> 10" "c \<noteq> 12" "c \<noteq> 13"
    by blast
  then show ?thesis
  proof cases
    case 8
    then show ?thesis
      using u parse_string_plain [of c t] by (simp add: escape_unit_def lit_def)
  next
    case 1
    then show ?thesis using e [of quote quote]
      by (simp add: escape_unit_def simple_escape_def)
  next
    case 2
    then show ?thesis using e [of backslash backslash]
      by (simp add: escape_unit_def simple_escape_def)
  next
    case 3
    then show ?thesis using e [of "cu CHR ''b''" 8]
      by (simp add: escape_unit_def lit_def simple_escape_def cu_def)
  next
    case 4
    then show ?thesis using e [of "cu CHR ''t''" 9]
      by (simp add: escape_unit_def lit_def simple_escape_def cu_def)
  next
    case 5
    then show ?thesis using e [of "cu CHR ''n''" 10]
      by (simp add: escape_unit_def lit_def simple_escape_def cu_def)
  next
    case 6
    then show ?thesis using e [of "cu CHR ''f''" 12]
      by (simp add: escape_unit_def lit_def simple_escape_def cu_def)
  next
    case 7
    then show ?thesis using e [of "cu CHR ''r''" 13]
      by (simp add: escape_unit_def lit_def simple_escape_def cu_def)
  qed
qed

lemma parse_string_escape: "parse_string (escape s @ quote # r) = Some (s, r)"
proof (induction s rule: escape.induct)
  case 1
  then show ?case by (simp add: parse_string.simps [of "quote # r"])
next
  case (2 c)
  then show ?case
    by (simp add: parse_string_unit parse_string.simps [of "quote # r"])
next
  case (3 c d cs)
  have plain: "c \<noteq> quote \<and> c \<noteq> backslash \<and> \<not> c < 32" if "high_surrogate c \<or> low_surrogate c" for c
    using that
    by (auto simp: high_surrogate_def low_surrogate_def cu_def word_le_nat_alt word_less_nat_alt)
  show ?case
  proof (cases "high_surrogate c \<and> low_surrogate d")
    case True
    with plain [of c] plain [of d] 3(1) show ?thesis by (simp add: parse_string_plain)
  next
    case False
    then have "escape (c # d # cs) = escape_unit c @ escape (d # cs)" by auto
    with 3(2) False show ?thesis by (simp add: parse_string_unit del: escape.simps)
  qed
qed

section \<open>The parser consumes what it reads\<close>

lemma eat_length: "eat c s = Some r \<Longrightarrow> length s = Suc (length r)"
  by (auto simp: eat_def split: list.splits if_splits)

lemma skip_ws_length: "length (skip_ws s) \<le> length s"
  by (simp add: skip_ws_def length_dropWhile_le)

lemma parse_string_step:
  assumes "parse_string s = Some (t, r)"
  shows "length s = Suc (length r) \<or> (\<exists>s' t'. length s' < length s \<and> parse_string s' = Some (t', r))"
proof (cases s)
  case Nil
  with assms show ?thesis by (simp add: parse_string.simps [of "[]"])
next
  case (Cons c s1)
  have drop: "length (drop 4 x) < Suc (Suc (length x))" for x :: jsstr by simp
  show ?thesis
  proof (cases "c = backslash")
    case True
    with Cons assms show ?thesis
      using drop by (auto simp: parse_string.simps [of "backslash # s1"] split: list.splits if_splits option.splits)
  next
    case False
    with Cons assms show ?thesis
      by (auto simp: parse_string.simps [of "c # s1"] split: if_splits)
  qed
qed

lemma parse_string_length: "parse_string s = Some (t, r) \<Longrightarrow> length r < length s"
proof (induction s arbitrary: t rule: measure_induct_rule [of length])
  case (less s)
  then show ?case using parse_string_step [of s t r] by fastforce
qed

lemma parse_nat_length: "parse_nat s = Some (n, r) \<Longrightarrow> length r < length s"
proof -
  assume a: "parse_nat s = Some (n, r)"
  then have "takeWhile is_digit s \<noteq> []" and r: "r = dropWhile is_digit s"
    by (auto simp: parse_nat_def Let_def split: if_splits)
  moreover have "length s = length (takeWhile is_digit s) + length (dropWhile is_digit s)"
    by (metis length_append takeWhile_dropWhile_id)
  ultimately show ?thesis by simp
qed

lemma parse_number_length: "parse_number s = Some (v, r) \<Longrightarrow> length r < length s"
  by (auto simp: parse_number_def split: option.splits dest!: parse_nat_length eat_length)

lemma parse_word_length: "w \<noteq> [] \<Longrightarrow> s \<noteq> [] \<Longrightarrow> parse_word w u s = Some (v, r) \<Longrightarrow> length r < length s"
  by (auto simp: parse_word_def split: if_splits)

definition shrinks :: "(jsstr \<Rightarrow> ('a \<times> jsstr) option) \<Rightarrow> bool" where
  "shrinks p \<longleftrightarrow> (\<forall>s v r. p s = Some (v, r) \<longrightarrow> length r < length s)"

lemma shrinksD: "shrinks p \<Longrightarrow> p s = Some (v, r) \<Longrightarrow> length r < length s"
  by (simp add: shrinks_def)

text \<open>The two shapes in which a bracketed list is read: an empty list or its first element, and
  then a comma or the closing bracket.\<close>

lemma open_length:
  assumes "(case eat c (skip_ws r) of Some r1 \<Rightarrow> Some (z, r1)
      | None \<Rightarrow> map_option (apfst f) (p (skip_ws r))) = Some (v, r')"
    and "shrinks p"
  shows "length r' \<le> length r"
proof (cases "eat c (skip_ws r)")
  case None
  with assms(1) obtain y where "p (skip_ws r) = Some (y, r')" by auto
  from shrinksD [OF assms(2) this] skip_ws_length [of r] show ?thesis by linarith
next
  case (Some r1)
  with assms(1) eat_length [OF Some] skip_ws_length [of r] show ?thesis by simp
qed

lemma next_length:
  assumes "(case eat c (skip_ws r) of Some r1 \<Rightarrow> map_option (apfst f) (p (skip_ws r1))
      | None \<Rightarrow> map_option (\<lambda>r1. (z, r1)) (eat c' (skip_ws r))) = Some (v, r')"
    and "shrinks p"
  shows "length r' \<le> length r"
proof (cases "eat c (skip_ws r)")
  case None
  with assms(1) have "eat c' (skip_ws r) = Some r'" by auto
  from eat_length [OF this] skip_ws_length [of r] show ?thesis by linarith
next
  case (Some r1)
  with assms(1) obtain y where "p (skip_ws r1) = Some (y, r')" by auto
  from shrinksD [OF assms(2) this] eat_length [OF Some] skip_ws_length [of r] skip_ws_length [of r1]
  show ?thesis by linarith
qed

definition consuming :: "nat \<Rightarrow> bool" where
  "consuming n \<longleftrightarrow> shrinks (parse_value n) \<and> shrinks (parse_elems n) \<and> shrinks (parse_members n)"

lemma consumingD:
  "consuming n \<Longrightarrow> shrinks (parse_value n)"
  "consuming n \<Longrightarrow> shrinks (parse_elems n)"
  "consuming n \<Longrightarrow> shrinks (parse_members n)"
  by (simp_all add: consuming_def)

lemma consuming_value:
  assumes "consuming n" "parse_value (Suc n) s = Some (v, r)"
  shows "length r < length s"
proof (cases s)
  case (Cons c s1)
  consider "c = quote" | "c = cu CHR ''[''" | "c = cu CHR ''{''"
    | "c \<noteq> quote" "c \<noteq> cu CHR ''[''" "c \<noteq> cu CHR ''{''" by blast
  then show ?thesis
  proof cases
    case 1
    with assms(2) Cons obtain t where "parse_string s1 = Some (t, r)" by auto
    with Cons show ?thesis by (auto dest: parse_string_length)
  next
    case 2
    then have "(case eat CHR '']'' (skip_ws s1) of Some r1 \<Rightarrow> Some (Arr [], r1)
        | None \<Rightarrow> map_option (apfst Arr) (parse_elems n (skip_ws s1))) = Some (v, r)"
      using assms(2) Cons by simp
    from open_length [OF this consumingD(2) [OF assms(1)]] Cons show ?thesis by simp
  next
    case 3
    then have "(case eat CHR ''}'' (skip_ws s1) of Some r1 \<Rightarrow> Some (Obj [], r1)
        | None \<Rightarrow> map_option (apfst (\<lambda>ps. Obj (put_all [] ps))) (parse_members n (skip_ws s1))) = Some (v, r)"
      using assms(2) Cons by simp
    from open_length [OF this consumingD(3) [OF assms(1)]] Cons show ?thesis by simp
  next
    case 4
    with assms(2) Cons show ?thesis
      by (auto split: if_splits dest: parse_word_length [rotated 2] parse_number_length)
  qed
qed (use assms in simp)

lemma consuming_elems:
  assumes "consuming n" "parse_elems (Suc n) s = Some (vs, r)"
  shows "length r < length s"
proof -
  from assms(2) obtain v r1 where v: "parse_value n s = Some (v, r1)"
    by (auto split: option.splits)
  with assms(2) have "(case eat CHR '','' (skip_ws r1) of
        Some r2 \<Rightarrow> map_option (apfst ((#) v)) (parse_elems n (skip_ws r2))
      | None \<Rightarrow> map_option (\<lambda>r2. ([v], r2)) (eat CHR '']'' (skip_ws r1))) = Some (vs, r)"
    by simp
  from next_length [OF this consumingD(2) [OF assms(1)]] shrinksD [OF consumingD(1) [OF assms(1)] v]
  show ?thesis by simp
qed

lemma member_head:
  assumes "parse_members (Suc n) s = Some (ms, r)"
  obtains k r0 r1 v r2 where "Option.bind (eat (CHR 0x22) s) parse_string = Some (k, r0)"
    "eat CHR '':'' (skip_ws r0) = Some r1" "parse_value n (skip_ws r1) = Some (v, r2)"
    "(case eat CHR '','' (skip_ws r2) of
        Some r3 \<Rightarrow> map_option (apfst ((#) (k, v))) (parse_members n (skip_ws r3))
      | None \<Rightarrow> map_option (\<lambda>r3. ([(k, v)], r3)) (eat CHR ''}'' (skip_ws r2))) = Some (ms, r)"
  using assms by (simp only: parse_members.simps) (auto split: option.splits prod.splits)

lemma key_length:
  assumes "Option.bind (eat (CHR 0x22) s) parse_string = Some (k, r0)"
    and "eat CHR '':'' (skip_ws r0) = Some r1"
  shows "length (skip_ws r1) + 2 < length s"
proof -
  from assms(1) obtain s1 where s1: "eat (CHR 0x22) s = Some s1" "parse_string s1 = Some (k, r0)"
    by (auto simp: Option.bind_eq_Some_conv)
  from eat_length [OF s1(1)] parse_string_length [OF s1(2)] eat_length [OF assms(2)]
    skip_ws_length [of r0] skip_ws_length [of r1]
  show ?thesis by linarith
qed

lemma consuming_members:
  assumes "consuming n" "parse_members (Suc n) s = Some (ms, r)"
  shows "length r < length s"
  using assms(2)
proof (rule member_head)
  fix k r0 r1 v r2
  assume k: "Option.bind (eat (CHR 0x22) s) parse_string = Some (k, r0)" "eat CHR '':'' (skip_ws r0) = Some r1"
    and v: "parse_value n (skip_ws r1) = Some (v, r2)"
    and n: "(case eat CHR '','' (skip_ws r2) of
        Some r3 \<Rightarrow> map_option (apfst ((#) (k, v))) (parse_members n (skip_ws r3))
      | None \<Rightarrow> map_option (\<lambda>r3. ([(k, v)], r3)) (eat CHR ''}'' (skip_ws r2))) = Some (ms, r)"
  from next_length [OF n consumingD(3) [OF assms(1)]] shrinksD [OF consumingD(1) [OF assms(1)] v] key_length [OF k]
  show ?thesis by simp
qed

lemma consuming_all: "consuming n"
proof (induction n)
  case (Suc n)
  then show ?case
    unfolding consuming_def [of "Suc n"] shrinks_def
    using consuming_value consuming_elems consuming_members by blast
qed (simp add: consuming_def shrinks_def)

lemmas parse_length = consumingD [OF consuming_all, THEN shrinksD]

section \<open>The fuel\<close>

definition fuel_ok :: "nat \<Rightarrow> bool" where
  "fuel_ok n \<longleftrightarrow>
     (\<forall>s m. 2 * length s < n \<and> 2 * length s < m \<longrightarrow> parse_value n s = parse_value m s) \<and>
     (\<forall>s m. 2 * length s + 1 < n \<and> 2 * length s + 1 < m \<longrightarrow> parse_elems n s = parse_elems m s) \<and>
     (\<forall>s m. 2 * length s + 1 < n \<and> 2 * length s + 1 < m \<longrightarrow> parse_members n s = parse_members m s)"

lemma fuel_okD:
  assumes "fuel_ok n"
  shows "2 * length s < n \<Longrightarrow> 2 * length s < m \<Longrightarrow> parse_value n s = parse_value m s"
    and "2 * length s + 1 < n \<Longrightarrow> 2 * length s + 1 < m \<Longrightarrow> parse_elems n s = parse_elems m s"
    and "2 * length s + 1 < n \<Longrightarrow> 2 * length s + 1 < m \<Longrightarrow> parse_members n s = parse_members m s"
  using assms unfolding fuel_ok_def by blast+

lemma fuel_value:
  assumes "fuel_ok n" "2 * length s < Suc n" "2 * length s < Suc m"
  shows "parse_value (Suc n) s = parse_value (Suc m) s"
proof (cases s)
  case (Cons c r)
  with skip_ws_length [of r] assms(2,3)
  have "2 * length (skip_ws r) + 1 < n" "2 * length (skip_ws r) + 1 < m" by simp_all
  from fuel_okD(2) [OF assms(1) this] fuel_okD(3) [OF assms(1) this] Cons show ?thesis
    by (simp only: parse_value.simps list.case)
qed simp

lemma fuel_elems:
  assumes "fuel_ok n" "2 * length s + 1 < Suc n" "2 * length s + 1 < Suc m"
  shows "parse_elems (Suc n) s = parse_elems (Suc m) s"
proof -
  have v: "parse_value n s = parse_value m s" using assms(2,3) by (intro fuel_okD(1) [OF assms(1)]) simp_all
  have nxt: "parse_elems n (skip_ws r1) = parse_elems m (skip_ws r1)"
    if "parse_value m s = Some (x, r)" "eat CHR '','' (skip_ws r) = Some r1" for x r r1
    using parse_length(1) [OF that(1)] eat_length [OF that(2)] skip_ws_length [of r] skip_ws_length [of r1]
      assms(2,3) by (intro fuel_okD(2) [OF assms(1)]) simp_all
  show ?thesis
  proof (cases "parse_value m s")
    case None
    then show ?thesis by (simp only: parse_elems.simps v option.case)
  next
    case (Some xr)
    obtain x r where xr: "xr = (x, r)" by (cases xr)
    with Some v show ?thesis
      by (cases "eat CHR '','' (skip_ws r)")
        (simp_all only: parse_elems.simps option.case prod.case nxt [OF Some [unfolded xr]])
  qed
qed

lemma fuel_members:
  assumes "fuel_ok n" "2 * length s + 1 < Suc n" "2 * length s + 1 < Suc m"
  shows "parse_members (Suc n) s = parse_members (Suc m) s"
proof -
  have v: "parse_value n (skip_ws r1) = parse_value m (skip_ws r1)"
    if "Option.bind (eat (CHR 0x22) s) parse_string = Some (k, r)" "eat CHR '':'' (skip_ws r) = Some r1" for k r r1
    using key_length [OF that] assms(2,3) by (intro fuel_okD(1) [OF assms(1)]) simp_all
  have nxt: "parse_members n (skip_ws r3) = parse_members m (skip_ws r3)"
    if "Option.bind (eat (CHR 0x22) s) parse_string = Some (k, r)" "eat CHR '':'' (skip_ws r) = Some r1"
      "parse_value m (skip_ws r1) = Some (x, r2)" "eat CHR '','' (skip_ws r2) = Some r3" for k r r1 x r2 r3
    using key_length [OF that(1,2)] parse_length(1) [OF that(3)] eat_length [OF that(4)]
      skip_ws_length [of r2] skip_ws_length [of r3] assms(2,3)
    by (intro fuel_okD(3) [OF assms(1)]) simp_all
  show ?thesis
  proof (cases "Option.bind (eat (CHR 0x22) s) parse_string")
    case None
    then show ?thesis by (simp only: parse_members.simps option.case)
  next
    case (Some kr)
    obtain k r where kr: "kr = (k, r)" by (cases kr)
    note k = Some [unfolded kr]
    show ?thesis
    proof (cases "eat CHR '':'' (skip_ws r)")
      case None
      with k show ?thesis by (simp only: parse_members.simps option.case prod.case)
    next
      case (Some r1)
      note r1 = Some
      show ?thesis
      proof (cases "parse_value m (skip_ws r1)")
        case None
        with k r1 show ?thesis by (simp only: parse_members.simps option.case prod.case v [OF k r1])
      next
        case (Some xr)
        obtain x r2 where xr: "xr = (x, r2)" by (cases xr)
        with Some k r1 v [OF k r1] show ?thesis
          by (cases "eat CHR '','' (skip_ws r2)")
            (simp_all only: parse_members.simps option.case prod.case nxt [OF k r1 Some [unfolded xr]])
      qed
    qed
  qed
qed

lemma fuel_ok_all: "fuel_ok n"
proof (induction n)
  case (Suc n)
  have "\<exists>m'. m = Suc m'" if "k < m" for k m :: nat using that by (cases m) auto
  then show ?case
    unfolding fuel_ok_def [of "Suc n"]
    using fuel_value [OF Suc] fuel_elems [OF Suc] fuel_members [OF Suc] by metis
qed (simp add: fuel_ok_def)

text \<open>Every amount of fuel from the one \<open>json_parse\<close> uses gives its answer.\<close>

lemma json_fuel_enough:
  assumes "2 * length s < n"
  shows "json_parse s =
    (case parse_value n (skip_ws s) of None \<Rightarrow> None
      | Some (v, r) \<Rightarrow> if skip_ws r = [] then Some v else None)"
proof -
  have "parse_value (2 * length s + 1) (skip_ws s) = parse_value n (skip_ws s)"
    using skip_ws_length [of s] assms by (intro fuel_okD(1) [OF fuel_ok_all]) simp_all
  then show ?thesis by (simp only: json_parse_def)
qed

section \<open>Reading back what was written\<close>

text \<open>The values JSON can carry: no \<open>undefined\<close>, and objects whose keys are distinct.\<close>

fun jsonable :: "jsval \<Rightarrow> bool" where
  "jsonable Undefined = False"
| "jsonable (Arr xs) = list_all jsonable xs"
| "jsonable (Obj ps) = (distinct (map fst ps) \<and> list_all (\<lambda>(k, v). jsonable v) ps)"
| "jsonable Null = True"
| "jsonable (Bool b) = True"
| "jsonable (Num n) = True"
| "jsonable (Str s) = True"

text \<open>A number ends where the text that follows does not start with a digit.\<close>

definition ends_number :: "jsstr \<Rightarrow> bool" where
  "ends_number r \<longleftrightarrow> (case r of [] \<Rightarrow> True | c # _ \<Rightarrow> \<not> is_digit c)"

lemma ends_number_lit: "\<not> is_digit c \<Longrightarrow> ends_number (c # r)"
  by (simp add: ends_number_def)

lemma digits_zero_head: "hd (digits n) = cu CHR ''0'' \<Longrightarrow> length (digits n) = 1"
proof (induction n rule: digits.induct)
  case (1 n)
  show ?case
  proof (cases "n < 10")
    case False
    then have d: "digits n = digits (n div 10) @ [of_nat (48 + n mod 10)]"
      by (simp add: digits.simps [of n])
    with 1 have "hd (digits (n div 10)) = cu CHR ''0''" by simp
    with 1(1) False have "length (digits (n div 10)) = 1" by simp
    then obtain c where c: "digits (n div 10) = [c]" by (cases "digits (n div 10)") auto
    with \<open>hd (digits (n div 10)) = _\<close> have "number_value 0 (digits (n div 10)) = Some 0"
      by (simp add: digit_value_def cu_def)
    with False show ?thesis by (simp add: number_value_digits)
  qed (simp add: digits.simps [of n])
qed

lemma take_digits:
  assumes "ends_number r"
  shows "takeWhile is_digit (digits n @ r) = digits n" "dropWhile is_digit (digits n @ r) = r"
proof -
  have r: "takeWhile is_digit r = []" "dropWhile is_digit r = r"
    using assms by (simp_all add: ends_number_def split: list.splits)
  show "takeWhile is_digit (digits n @ r) = digits n" "dropWhile is_digit (digits n @ r) = r"
    using r digit_unit by (simp_all add: takeWhile_append2 dropWhile_append2)
qed

lemma parse_nat_digits: "ends_number r \<Longrightarrow> parse_nat (digits n @ r) = Some (n, r)"
  using digits_zero_head [of n]
  by (auto simp: parse_nat_def Let_def take_digits number_value_digits)

lemma parse_number_int:
  assumes "ends_number r"
  shows "parse_number (int_text k @ r) = Some (Num k, r)"
proof (cases "k < 0")
  case True
  then show ?thesis
    using parse_nat_digits [OF assms, of "nat (- k)"]
    by (simp add: parse_number_def int_text_def eat_def lit_def)
next
  case False
  obtain c cs where c: "digits (nat k) = c # cs" by (cases "digits (nat k)") auto
  with digit_unit [of c "nat k"] digit_not_sign [of c] have "eat CHR ''-'' (digits (nat k) @ r) = None"
    by (simp add: eat_def)
  with False show ?thesis
    using parse_nat_digits [OF assms, of "nat k"] by (simp add: parse_number_def int_text_def)
qed

lemma int_text_head:
  obtains c cs where "int_text k = c # cs" "is_digit c \<or> c = cu CHR ''-''"
proof (cases "k < 0")
  case True
  then show ?thesis using that by (simp add: int_text_def lit_def)
next
  case False
  obtain c cs where "digits (nat k) = c # cs" by (cases "digits (nat k)") auto
  with False digit_unit [of c "nat k"] that show ?thesis by (simp add: int_text_def)
qed

definition value_start :: "16 word \<Rightarrow> bool" where
  "value_start c \<longleftrightarrow> is_digit c \<or> c \<in> set (lit [CHR ''-'', CHR 0x22, CHR ''['', CHR ''{'', CHR ''n'', CHR ''t'', CHR ''f''])"

lemma stringify_head: obtains c cs where "stringify v = c # cs" "value_start c"
proof (cases v)
  case (Num k)
  with int_text_head [of k] that show ?thesis by (auto simp: value_start_def lit_def)
next
  case (Bool b)
  then show ?thesis using that by (cases b) (auto simp: value_start_def lit_def)
qed (use that in \<open>auto simp: value_start_def lit_def quoted_def split: if_splits\<close>)

lemma value_start_not:
  "value_start c \<Longrightarrow> c \<noteq> 32 \<and> c \<noteq> 9 \<and> c \<noteq> 10 \<and> c \<noteq> 13 \<and> c \<noteq> cu CHR '']'' \<and> c \<noteq> cu CHR ''}''"
  by (auto simp: value_start_def is_digit_def lit_def cu_def)

lemma skip_ws_stringify: "skip_ws (stringify v @ r) = stringify v @ r"
proof -
  obtain c cs where "stringify v = c # cs" "value_start c" by (rule stringify_head)
  with value_start_not [of c] show ?thesis by (simp add: skip_ws_def)
qed

lemma skip_ws_plain: "c \<noteq> 32 \<and> c \<noteq> 9 \<and> c \<noteq> 10 \<and> c \<noteq> 13 \<Longrightarrow> skip_ws (c # r) = c # r"
  by (simp add: skip_ws_def)

lemma skip_ws_cu: "c \<in> set '',:]}'' \<Longrightarrow> skip_ws (cu c # r) = cu c # r"
  by (rule skip_ws_plain) (auto simp: cu_def)

lemma skip_ws_quote: "skip_ws (quote # r) = quote # r"
  by (rule skip_ws_plain) (simp add: cu_def)

lemma eat_cu [simp]: "eat c (cu c # r) = Some r"
  by (simp add: eat_def)

lemma eat_other [simp]: "c \<noteq> d \<Longrightarrow> eat c (cu d # r) = None"
  by (simp add: eat_def)

lemma join_with_head: "xs \<noteq> [] \<Longrightarrow> \<exists>z. join_with sep xs = hd xs @ z"
  by (cases "(sep, xs)" rule: join_with.cases) auto

definition reads_back :: "jsval \<Rightarrow> bool" where
  "reads_back v \<longleftrightarrow>
     (\<forall>n r. 2 * length (stringify v) < n \<longrightarrow> ends_number r \<longrightarrow>
        parse_value n (stringify v @ r) = Some (v, r))"

lemma reads_backD:
  "reads_back v \<Longrightarrow> 2 * length (stringify v) < n \<Longrightarrow> ends_number r \<Longrightarrow>
   parse_value n (stringify v @ r) = Some (v, r)"
  by (simp add: reads_back_def)

lemma reads_backI:
  assumes "\<And>m r. ends_number r \<Longrightarrow> parse_value (Suc m) (stringify v @ r) = Some (v, r)"
  shows "reads_back v"
  unfolding reads_back_def
proof (intro allI impI)
  fix n r assume "2 * length (stringify v) < n" "ends_number r"
  with assms show "parse_value n (stringify v @ r) = Some (v, r)" by (cases n) blast+
qed

lemma ends_number_cu: "c \<in> set '',:]}'' \<Longrightarrow> ends_number (cu c # r)"
  by (rule ends_number_lit) (auto simp: is_digit_def cu_def)

lemma elems_read_back:
  assumes "xs \<noteq> []" "\<forall>x \<in> set xs. reads_back x"
    and "2 * length (join_with (lit '','') (map stringify xs)) + 1 < n"
  shows "parse_elems n (join_with (lit '','') (map stringify xs) @ cu CHR '']'' # r) = Some (xs, r)"
  using assms
proof (induction "lit '',''" "map stringify xs" arbitrary: xs n rule: join_with.induct)
  case (2 s)
  then obtain x where xs: "xs = [x]" by auto
  with 2 obtain m where n: "n = Suc m" "2 * length (stringify x) < m" by (cases n) auto
  from 2 xs have "reads_back x" by simp
  from reads_backD [OF this n(2) ends_number_cu [of "CHR '']''" r]] show ?case
    by (simp add: xs n(1) skip_ws_cu)
next
  case (3 s t ss)
  then obtain x y ys where xs: "xs = x # y # ys" by auto
  define rest where "rest = join_with (lit '','') (map stringify (y # ys)) @ cu CHR '']'' # r"
  have whole: "join_with (lit '','') (map stringify xs) @ cu CHR '']'' # r = stringify x @ cu CHR '','' # rest"
    by (simp add: xs rest_def lit_def)
  from 3(5) xs obtain m where n: "n = Suc m" "2 * length (stringify x) < m"
      "2 * length (join_with (lit '','') (map stringify (y # ys))) + 1 < m"
    by (cases n) auto
  from 3 xs have "reads_back x" by simp
  from reads_backD [OF this n(2) ends_number_cu [of "CHR '',''" rest]]
  have x: "parse_value m (stringify x @ cu CHR '','' # rest) = Some (x, cu CHR '','' # rest)" by simp
  obtain z where "join_with (lit '','') (map stringify (y # ys)) = stringify y @ z"
    by (cases ys) auto
  then have ws: "skip_ws rest = rest" using skip_ws_stringify by (simp add: rest_def)
  have "parse_elems m rest = Some (y # ys, r)"
    unfolding rest_def using 3 xs n(3) by (intro 3(1)) auto
  with x ws show ?case unfolding whole n(1) by (simp add: xs skip_ws_cu)
qed auto

definition member_text :: "jsstr \<times> jsval \<Rightarrow> jsstr" where
  "member_text = (\<lambda>(k, v). quoted k @ lit '':'' @ stringify v)"

lemma member_read:
  assumes "reads_back v" "2 * length (member_text (k, v)) < n" "ends_number r"
  obtains r0 r1 where "Option.bind (eat (CHR 0x22) (member_text (k, v) @ r)) parse_string = Some (k, r0)"
    "eat CHR '':'' (skip_ws r0) = Some r1" "parse_value n (skip_ws r1) = Some (v, r)"
proof
  show "Option.bind (eat (CHR 0x22) (member_text (k, v) @ r)) parse_string =
      Some (k, cu CHR '':'' # stringify v @ r)"
    by (simp add: member_text_def quoted_def lit_def parse_string_escape)
  show "eat CHR '':'' (skip_ws (cu CHR '':'' # stringify v @ r)) = Some (stringify v @ r)"
    by (simp add: skip_ws_cu)
  from assms(2) have "2 * length (stringify v) < n" by (simp add: member_text_def)
  with assms(1,3) show "parse_value n (skip_ws (stringify v @ r)) = Some (v, r)"
    by (simp add: skip_ws_stringify reads_backD)
qed

lemma members_read_back:
  assumes "ps \<noteq> []" "\<forall>p \<in> set ps. reads_back (snd p)"
    and "2 * length (join_with (lit '','') (map member_text ps)) + 1 < n"
  shows "parse_members n (join_with (lit '','') (map member_text ps) @ cu CHR ''}'' # r) = Some (ps, r)"
  using assms
proof (induction "lit '',''" "map member_text ps" arbitrary: ps n rule: join_with.induct)
  case (2 s)
  then obtain k v where ps: "ps = [(k, v)]" by auto
  with 2 obtain m where n: "n = Suc m" "2 * length (member_text (k, v)) < m" by (cases n) auto
  from 2 ps have "reads_back v" by simp
  from this n(2) ends_number_cu [of "CHR ''}''" r] show ?case
    by (rule member_read) (simp_all add: ps n(1) skip_ws_cu)
next
  case (3 s t ss)
  then obtain k v q qs where ps: "ps = (k, v) # q # qs" by auto
  define rest where "rest = join_with (lit '','') (map member_text (q # qs)) @ cu CHR ''}'' # r"
  have whole: "join_with (lit '','') (map member_text ps) @ cu CHR ''}'' # r =
      member_text (k, v) @ cu CHR '','' # rest"
    by (simp add: ps rest_def lit_def)
  from 3(5) ps obtain m where n: "n = Suc m" "2 * length (member_text (k, v)) < m"
      "2 * length (join_with (lit '','') (map member_text (q # qs))) + 1 < m"
    by (cases n) auto
  have "\<exists>z. rest = quote # z"
    using join_with_head [of "map member_text (q # qs)" "lit '',''"]
    by (auto simp: rest_def member_text_def quoted_def split: prod.splits)
  then have ws: "skip_ws rest = rest" using skip_ws_quote by auto
  have rec: "parse_members m rest = Some (q # qs, r)"
    unfolding rest_def using 3 ps n(3) by (intro 3(1)) auto
  from 3 ps have "reads_back v" by simp
  from this n(2) ends_number_cu [of "CHR '',''" rest] show ?case
    unfolding whole n(1)
    by (rule member_read) (simp_all add: ws rec ps skip_ws_cu)
qed auto

lemma put_new: "k \<notin> fst ` set ps \<Longrightarrow> put k v ps = ps @ [(k, v)]"
  by (induction ps) auto

lemma put_all_distinct: "distinct (map fst (ps @ qs)) \<Longrightarrow> put_all ps qs = ps @ qs"
proof (induction qs arbitrary: ps)
  case (Cons q qs)
  obtain k v where q: "q = (k, v)" by (cases q)
  with Cons.prems have "put k v ps = ps @ [(k, v)]" by (intro put_new) auto
  moreover from Cons.prems q have "put_all (ps @ [(k, v)]) qs = (ps @ [(k, v)]) @ qs"
    by (intro Cons.IH) auto
  ultimately show ?case by (simp add: put_all_def q)
qed (simp add: put_all_def)

lemma jsonable_reads_back: "jsonable v \<Longrightarrow> reads_back v"
proof (induction v rule: jsonable.induct)
  case (2 xs)
  then have el: "\<forall>x \<in> set xs. reads_back x" by (simp add: list_all_iff)
  show ?case unfolding reads_back_def
  proof (intro allI impI)
    fix n r assume l: "2 * length (stringify (Arr xs)) < n" and "ends_number r"
    then obtain m where n: "n = Suc m" by (cases n) auto
    show "parse_value n (stringify (Arr xs) @ r) = Some (Arr xs, r)"
    proof (cases "xs = []")
      case True
      then show ?thesis by (simp add: n lit_def skip_ws_cu)
    next
      case False
      define body where "body = join_with (lit '','') (map stringify xs) @ cu CHR '']'' # r"
      have "parse_elems m body = Some (xs, r)"
        unfolding body_def using False el l n by (intro elems_read_back) auto
      moreover obtain c cs where c: "body = c # cs" "value_start c"
      proof -
        obtain c cs where h: "stringify (hd xs) = c # cs" "value_start c" by (rule stringify_head)
        with False join_with_head [of "map stringify xs" "lit '',''"] show ?thesis
          by (auto simp: body_def hd_map intro: that)
      qed
      moreover have "skip_ws body = body" "eat CHR '']'' body = None"
        using value_start_not [OF c(2)] by (simp_all add: c(1) skip_ws_plain eat_def)
      moreover have "stringify (Arr xs) @ r = cu CHR ''['' # body"
        by (simp add: body_def lit_def)
      ultimately show ?thesis by (simp add: n)
    qed
  qed
next
  case (3 ps)
  then have el: "\<forall>p \<in> set ps. reads_back (snd p)" and d: "distinct (map fst ps)"
    by (auto simp: list_all_iff)
  have "filter (\<lambda>(k, v). v \<noteq> Undefined) ps = ps"
    using 3(2) by (intro filter_True) (auto simp: list_all_iff)
  then have written: "stringify (Obj ps) = cu CHR ''{'' # join_with (lit '','') (map member_text ps) @ [cu CHR ''}'']"
    by (simp add: member_text_def lit_def)
  show ?case unfolding reads_back_def
  proof (intro allI impI)
    fix n r assume l: "2 * length (stringify (Obj ps)) < n" and "ends_number r"
    then obtain m where n: "n = Suc m" by (cases n) auto
    show "parse_value n (stringify (Obj ps) @ r) = Some (Obj ps, r)"
    proof (cases "ps = []")
      case True
      then show ?thesis by (simp add: n lit_def skip_ws_cu)
    next
      case False
      define body where "body = join_with (lit '','') (map member_text ps) @ cu CHR ''}'' # r"
      have "parse_members m body = Some (ps, r)"
        unfolding body_def using False el l n by (intro members_read_back) (simp_all only: written, auto)
      moreover obtain cs where c: "body = quote # cs"
        using False join_with_head [of "map member_text ps" "lit '',''"]
        by (auto simp: body_def hd_map member_text_def quoted_def split: prod.splits)
      moreover have "skip_ws body = body" by (simp only: c skip_ws_quote)
      moreover have "eat CHR ''}'' body = None" by (simp add: c)
      moreover have "stringify (Obj ps) @ r = cu CHR ''{'' # body"
        by (simp add: body_def written del: stringify.simps)
      ultimately show ?thesis using put_all_distinct [of "[]" ps] d
        by (simp add: n del: stringify.simps)
    qed
  qed
next
  case 4
  show ?case by (rule reads_backI) (simp add: parse_word_def lit_def starts_with_def)
next
  case (5 b)
  show ?case
    by (rule reads_backI) (cases b; simp add: parse_word_def lit_def starts_with_def)
next
  case (6 k)
  show ?case unfolding reads_back_def
  proof (intro allI impI)
    fix n r assume l: "2 * length (stringify (Num k)) < n" and r: "ends_number r"
    obtain c cs where c: "int_text k = c # cs" "is_digit c \<or> c = cu CHR ''-''" by (rule int_text_head)
    then have "c \<notin> {quote, cu CHR ''['', cu CHR ''{'', cu CHR ''n'', cu CHR ''t'', cu CHR ''f''}"
      by (auto simp: is_digit_def cu_def)
    with c l parse_number_int [OF r, of k] show "parse_value n (stringify (Num k) @ r) = Some (Num k, r)"
      by (cases n) auto
  qed
next
  case (7 s)
  show ?case by (rule reads_backI) (simp add: quoted_def parse_string_escape)
qed simp

theorem json_round_trip: "jsonable v \<Longrightarrow> json_parse (stringify v) = Some v"
proof -
  assume "jsonable v"
  then have "parse_value (2 * length (stringify v) + 1) (stringify v @ []) = Some (v, [])"
    by (intro reads_backD jsonable_reads_back) (simp_all add: ends_number_def)
  then show ?thesis
    using skip_ws_stringify [of v "[]"] by (simp add: json_parse_def skip_ws_def)
qed

end
