(* ===== verification/ApiClient.thy ===== *)
theory ApiClient
  imports JsonRound
begin

text \<open>
  \<open>api/client.js\<close>: the request that is sent, how an answer is read, which error is thrown
  for an unsuccessful one, and the five calls of \<open>api\<close>. The network is a parameter: an
  answer is a rejected \<open>fetch\<close> or a response with any status, content type and body.
\<close>

section \<open>Requests\<close>

text \<open>The two arguments of \<open>fetch\<close>.\<close>

record http_request =
  rq_url :: jsstr
  rq_init :: "(jsstr \<times> jsval) list"

definition default_headers :: "(jsstr \<times> jsval) list" where
  "default_headers =
     [(lit ''Content-Type'', Str (lit ''application/json'')), (lit ''Accept'', Str (lit ''application/json''))]"

text \<open>\<open>...v\<close> in an object literal: the own properties of \<open>v\<close>, none for a value that has none.\<close>

fun own_props :: "jsval \<Rightarrow> (jsstr \<times> jsval) list" where
  "own_props (Obj ps) = ps"
| "own_props (Arr xs) = map (\<lambda>(i, v). (int_text (int i), v)) (enumerate 0 xs)"
| "own_props (Str s) = map (\<lambda>(i, c). (int_text (int i), Str [c])) (enumerate 0 s)"
| "own_props _ = []"

definition option_headers :: "(jsstr \<times> jsval) list \<Rightarrow> jsval" where
  "option_headers options = (case map_of options (lit ''headers'') of None \<Rightarrow> Undefined | Some h \<Rightarrow> h)"

definition request_url :: "jsstr \<Rightarrow> jsstr" where
  "request_url path = (if starts_with path (lit ''/api'') then path else lit ''/api/v1'' @ path)"

definition build_request :: "jsstr \<Rightarrow> (jsstr \<times> jsval) list \<Rightarrow> http_request" where
  "build_request path options =
     \<lparr>rq_url = request_url path,
      rq_init = put (lit ''credentials'') (Str (lit ''include''))
        (put (lit ''headers'') (Obj (put_all default_headers (own_props (option_headers options))))
          (put_all [] options))\<rparr>"

section \<open>Answers\<close>

text \<open>A response; \<open>None\<close> as content type is a missing header, \<open>None\<close> as body a connection
  that broke while the body was read.\<close>

record http_response =
  rs_status :: int
  rs_content_type :: "jsstr option"
  rs_body :: "jsstr option"

definition rs_ok :: "http_response \<Rightarrow> bool" where
  "rs_ok r \<longleftrightarrow> 200 \<le> rs_status r \<and> rs_status r \<le> 299"

definition is_json :: "http_response \<Rightarrow> bool" where
  "is_json r \<longleftrightarrow>
     (case rs_content_type r of None \<Rightarrow> False
      | Some t \<Rightarrow> t \<noteq> [] \<and> includes_str t (lit ''application/json''))"

definition read_body :: "http_response \<Rightarrow> jsval result" where
  "read_body r =
     (case rs_body r of None \<Rightarrow> Inl (FetchFailed (lit ''body''))
      | Some s \<Rightarrow>
          if is_json r then (case json_parse s of None \<Rightarrow> Inl SyntaxError | Some v \<Rightarrow> Inr v)
          else Inr (Str s))"

definition is_object :: "jsval \<Rightarrow> bool" where
  "is_object v \<longleftrightarrow> v = Null \<or> \<not> primitive v"

text \<open>\<open>body.errors && body.errors.join(', ')\<close>\<close>

definition joined_errors :: "jsval \<Rightarrow> jsval result" where
  "joined_errors errors =
     (if truthy errors then bind_r (call_join errors (lit '', '')) (\<lambda>s. Inr (Str s)) else Inr errors)"

definition error_message :: "jsval \<Rightarrow> jsval result" where
  "error_message body =
     (if truthy body \<and> is_object body then
        bind_r (get_prop body ''error'') (\<lambda>e. if truthy e then Inr e else
        bind_r (get_prop body ''message'') (\<lambda>m. if truthy m then Inr m else
        bind_r (get_prop body ''errors'') joined_errors))
      else Inr body)"

definition handle_response :: "http_response \<Rightarrow> jsval result" where
  "handle_response r =
     bind_r (read_body r) (\<lambda>body.
       if rs_ok r then Inr body
       else bind_r (error_message body) (\<lambda>errorMsg.
         Inl (JsError (to_string (js_or errorMsg (Str (lit ''Request failed'')))))))"

text \<open>What \<open>await fetch(...)\<close> gives: the text of a rejection, or a response.\<close>

type_synonym outcome = "jsstr + http_response"

definition finish_request :: "outcome \<Rightarrow> jsval result" where
  "finish_request a = (case a of Inl m \<Rightarrow> Inl (FetchFailed m) | Inr r \<Rightarrow> handle_response r)"

definition request :: "(http_request \<Rightarrow> outcome) \<Rightarrow> jsstr \<Rightarrow> (jsstr \<times> jsval) list \<Rightarrow> jsval result" where
  "request fetch path options = finish_request (fetch (build_request path options))"

section \<open>The calls\<close>

definition method_option :: "string \<Rightarrow> jsstr \<times> jsval" where
  "method_option m = (lit ''method'', Str (lit m))"

definition body_option :: "jsval \<Rightarrow> jsstr \<times> jsval" where
  "body_option v = (lit ''body'', Str (stringify v))"

definition login_body :: "jsstr \<Rightarrow> jsstr \<Rightarrow> jsval" where
  "login_body email password =
     Obj [(lit ''user'', Obj [(lit ''email'', Str email), (lit ''password'', Str password)])]"

definition feeds_body :: "jsstr list \<Rightarrow> jsval" where
  "feeds_body urls = Obj [(lit ''urls'', Arr (map Str urls))]"

definition api_login :: "jsstr \<Rightarrow> jsstr \<Rightarrow> http_request" where
  "api_login email password =
     build_request (lit ''/users/sign_in'') [method_option ''POST'', body_option (login_body email password)]"

definition api_logout :: http_request where
  "api_logout = build_request (lit ''/users/sign_out'') [method_option ''DELETE'']"

definition api_submitFeeds :: "jsstr list \<Rightarrow> http_request" where
  "api_submitFeeds urls =
     build_request (lit ''/feeds'') [method_option ''POST'', body_option (feeds_body urls)]"

definition api_getFeedItems :: http_request where
  "api_getFeedItems = build_request (lit ''/feed_items'') [method_option ''GET'']"

definition api_getHealth :: http_request where
  "api_getHealth = build_request (lit ''/health'') [method_option ''GET'']"

section \<open>Facts\<close>

definition init_prop :: "http_request \<Rightarrow> string \<Rightarrow> jsval option" where
  "init_prop q k = map_of (rq_init q) (lit k)"

text \<open>The value the server decodes from the body of a request.\<close>

definition sent_value :: "http_request \<Rightarrow> jsval option" where
  "sent_value q = (case init_prop q ''body'' of Some (Str s) \<Rightarrow> json_parse s | _ \<Rightarrow> None)"

lemma map_of_put: "map_of (put k v ps) = (map_of ps)(k \<mapsto> v)"
  by (induction ps) auto

lemma map_of_put_all: "distinct (map fst qs) \<Longrightarrow> map_of (put_all ps qs) = map_of ps ++ map_of qs"
proof (induction qs arbitrary: ps)
  case (Cons q qs)
  obtain k v where q: "q = (k, v)" by (cases q)
  from Cons have "map_of (put_all (put k v ps) qs) = map_of (put k v ps) ++ map_of qs" by simp
  moreover from Cons.prems q have "k \<notin> dom (map_of qs)" by (simp add: dom_map_of_conv_image_fst)
  moreover have "put_all ps (q # qs) = put_all (put k v ps) qs" by (simp add: put_all_def q)
  ultimately show ?case
    by (simp add: q map_of_put) (auto simp: map_add_def fun_eq_iff split: option.split)
qed (simp add: put_all_def)

lemma init_prop_build:
  assumes "distinct (map fst options)"
  shows "init_prop (build_request path options) k =
    (if k = ''credentials'' then Some (Str (lit ''include''))
     else if k = ''headers'' then Some (Obj (put_all default_headers (own_props (option_headers options))))
     else map_of options (lit k))"
  using map_of_put_all [OF assms, of "[]"]
  by (simp add: init_prop_def build_request_def map_of_put)

lemma jsonable_bodies [simp]:
  "jsonable (login_body email password)"
  "jsonable (feeds_body urls)"
  by (simp_all add: login_body_def feeds_body_def list_all_iff)

lemma api_paths:
  "rq_url (api_login e p) = lit ''/api/v1/users/sign_in''"
  "rq_url api_logout = lit ''/api/v1/users/sign_out''"
  "rq_url (api_submitFeeds us) = lit ''/api/v1/feeds''"
  "rq_url api_getFeedItems = lit ''/api/v1/feed_items''"
  "rq_url api_getHealth = lit ''/api/v1/health''"
  by (simp_all add: api_login_def api_logout_def api_submitFeeds_def api_getFeedItems_def
      api_getHealth_def build_request_def request_url_def starts_with_def lit_def)

lemma finish_request_Inr_iff:
  "finish_request a = Inr v \<longleftrightarrow> (\<exists>r. a = Inr r \<and> rs_ok r \<and> read_body r = Inr v)"
  by (auto simp: finish_request_def handle_response_def bind_r_Inr_iff split: sum.splits if_splits)

lemma header_map:
  assumes "distinct (map fst (own_props h))"
  shows "map_of (put_all default_headers (own_props h)) = map_of default_headers ++ map_of (own_props h)"
  using map_of_put_all [OF assms] .

lemma api_init_props:
  assumes "k \<noteq> ''credentials''" "k \<noteq> ''headers''"
  shows "init_prop (api_login e p) k = map_of [method_option ''POST'', body_option (login_body e p)] (lit k)"
    "init_prop (api_submitFeeds us) k = map_of [method_option ''POST'', body_option (feeds_body us)] (lit k)"
    "init_prop api_logout k = map_of [method_option ''DELETE''] (lit k)"
    "init_prop api_getFeedItems k = map_of [method_option ''GET''] (lit k)"
    "init_prop api_getHealth k = map_of [method_option ''GET''] (lit k)"
  using assms
  by (simp_all add: api_login_def api_submitFeeds_def api_logout_def api_getFeedItems_def api_getHealth_def
      init_prop_build method_option_def body_option_def)

lemma sent_values:
  "sent_value (api_login e p) = Some (login_body e p)"
  "sent_value (api_submitFeeds us) = Some (feeds_body us)"
  by (simp_all add: sent_value_def api_init_props method_option_def body_option_def json_round_trip)

lemma api_defaults:
  "q \<in> {api_login e p, api_submitFeeds us, api_logout, api_getFeedItems, api_getHealth} \<Longrightarrow>
   init_prop q ''credentials'' = Some (Str (lit ''include'')) \<and>
   init_prop q ''headers'' = Some (Obj default_headers)"
  by (auto simp: api_login_def api_submitFeeds_def api_logout_def api_getFeedItems_def api_getHealth_def
      init_prop_build method_option_def body_option_def option_headers_def put_all_def)

end
