(* ===== verification/Examples.thy ===== *)
theory Examples
  imports FeedList FeedForm ApiClient
begin

text \<open>
  Concrete values for the examples: an engine that reads only ISO dates, in UTC, and stories as the
  server sends them.
\<close>

definition plain_engine :: engine where
  "plain_engine = \<lparr>fault_text = (\<lambda>_. lit ''error''), legacy_date = (\<lambda>_. None), local_offset = (\<lambda>_. 0),
     inherited_text = (\<lambda>k. k)\<rparr>"

text \<open>A story with a title, a link and a date.\<close>

definition sample_story :: "string \<Rightarrow> string \<Rightarrow> string \<Rightarrow> jsval" where
  "sample_story title link date =
     Obj [(lit ''title'', Str (lit title)), (lit ''source'', Str (lit ''News'')), (lit ''source_url'', Null),
          (lit ''link'', Str (lit link)), (lit ''publish_date'', Str (lit date)),
          (lit ''description'', Str (lit ''Text''))]"

end
