(* ===== verification/PropsData.thy ===== *)
theory PropsData
  imports Examples
begin

text \<open>
  Properties of the data the front end exchanges and shows: the requests and answers of the
  client, JSON, dates and the order of the stories.
\<close>

section \<open>The client\<close>

text \<open>A submit of feeds is a \<open>POST\<close> to \<open>/api/v1/feeds\<close> with the session cookie and the JSON
  headers, and the value the server decodes from its body holds exactly the submitted URLs, in
  order, whatever characters they contain.\<close>

theorem submitFeeds_request:
  "rq_url (api_submitFeeds us) = lit ''/api/v1/feeds'' \<and>
   init_prop (api_submitFeeds us) ''method'' = Some (Str (lit ''POST'')) \<and>
   init_prop (api_submitFeeds us) ''credentials'' = Some (Str (lit ''include'')) \<and>
   init_prop (api_submitFeeds us) ''headers'' = Some (Obj default_headers) \<and>
   sent_value (api_submitFeeds us) = Some (Obj [(lit ''urls'', Arr (map Str us))])"
  using api_defaults [of "api_submitFeeds us" _ _ us]
  by (simp add: api_paths api_init_props sent_values method_option_def feeds_body_def)

text \<open>A login is a \<open>POST\<close> to \<open>/api/v1/users/sign_in\<close> that carries the credentials nested under
  \<open>user\<close>, unchanged by the encoding.\<close>

theorem login_request:
  "rq_url (api_login email password) = lit ''/api/v1/users/sign_in'' \<and>
   init_prop (api_login email password) ''method'' = Some (Str (lit ''POST'')) \<and>
   init_prop (api_login email password) ''credentials'' = Some (Str (lit ''include'')) \<and>
   sent_value (api_login email password) =
     Some (Obj [(lit ''user'', Obj [(lit ''email'', Str email), (lit ''password'', Str password)])])"
  using api_defaults [of "api_login email password" email password]
  by (simp add: api_paths api_init_props sent_values method_option_def login_body_def)

text \<open>Headers of the caller override the defaults and the others are kept; every other option
  reaches \<open>fetch\<close> unchanged, and \<open>credentials\<close> cannot be overridden.\<close>

theorem request_options_merged:
  assumes "distinct (map fst options)" and "map_of options (lit ''headers'') = Some (Obj hs)"
    and "distinct (map fst hs)"
  shows "(\<exists>ps. init_prop (build_request path options) ''headers'' = Some (Obj ps) \<and>
        map_of ps = map_of default_headers ++ map_of hs) \<and>
      init_prop (build_request path options) ''credentials'' = Some (Str (lit ''include'')) \<and>
      (\<forall>k. k \<noteq> ''headers'' \<and> k \<noteq> ''credentials'' \<longrightarrow>
        init_prop (build_request path options) k = map_of options (lit k))"
  using assms header_map [of "Obj hs"]
  by (simp add: init_prop_build option_headers_def)

lemma request_options_merged_witness:
  "(\<exists>ps. init_prop (build_request (lit ''/x'') [(lit ''headers'', Obj [(lit ''Accept'', Null)])]) ''headers''
      = Some (Obj ps) \<and> map_of ps = map_of default_headers ++ map_of [(lit ''Accept'', Null)]) \<and>
   init_prop (build_request (lit ''/x'') [(lit ''headers'', Obj [(lit ''Accept'', Null)])]) ''method'' = None"
  using request_options_merged [of "[(lit ''headers'', Obj [(lit ''Accept'', Null)])]" "[(lit ''Accept'', Null)]"
      "lit ''/x''"]
  by simp

text \<open>A request fulfils exactly when a response arrives whose status is 2xx and whose body can be
  read, and then with that body: a \<open>Content-Type\<close> naming \<open>application/json\<close> is parsed, anything
  else is returned as text. Every other outcome is an error.\<close>

theorem request_fulfilled_iff:
  "finish_request a = Inr v \<longleftrightarrow>
     (\<exists>r s. a = Inr r \<and> 200 \<le> rs_status r \<and> rs_status r \<le> 299 \<and> rs_body r = Some s \<and>
        (if is_json r then json_parse s = Some v else v = Str s))"
  by (auto simp: finish_request_Inr_iff rs_ok_def read_body_def split: option.splits)

text \<open>The error of an unsuccessful answer with a JSON object as body: its \<open>error\<close> if that is not
  empty, else its \<open>message\<close>, else its \<open>errors\<close> joined by commas, else the fixed text.\<close>

theorem error_message_precedence:
  assumes "\<not> rs_ok r" "read_body r = Inr (Obj ps)"
    and "map_of ps (lit ''error'') = Some (Str e)" "map_of ps (lit ''message'') = Some (Str m)"
    and "map_of ps (lit ''errors'') = Some (Arr (map Str es))"
  shows "handle_response r = Inl (JsError
    (if e \<noteq> [] then e else if m \<noteq> [] then m
     else if join_with (lit '', '') es \<noteq> [] then join_with (lit '', '') es
     else lit ''Request failed''))"
proof -
  have "map elem_text (map Str es) = es" by (induction es) auto
  with assms show ?thesis
    by (simp add: handle_response_def error_message_def is_object_def joined_errors_def call_join_def js_or_def)
qed

definition refused :: http_response where
  "refused = \<lparr>rs_status = 422, rs_content_type = Some (lit ''application/json''),
     rs_body = Some (stringify (Obj [(lit ''error'', Str []), (lit ''message'', Str []),
       (lit ''errors'', Arr [Str (lit ''a''), Str (lit ''b'')])]))\<rparr>"

lemma refused_body:
  "read_body refused = Inr (Obj [(lit ''error'', Str []), (lit ''message'', Str []),
     (lit ''errors'', Arr [Str (lit ''a''), Str (lit ''b'')])])"
proof -
  have "is_json refused" by (simp add: is_json_def refused_def lit_def starts_with_def)
  then show ?thesis
    unfolding read_body_def refused_def
    by (simp add: json_round_trip del: stringify.simps)
qed

lemma error_message_precedence_witness: "handle_response refused = Inl (JsError (lit ''a, b''))"
  using error_message_precedence [of refused, OF _ refused_body, of "[]" "[]" "[lit ''a'', lit ''b'']"]
  by (simp add: refused_def rs_ok_def lit_def)

section \<open>JSON\<close>

text \<open>What is encoded is decoded to the same value: every value JSON can carry (no
  \<open>undefined\<close>, distinct keys) survives \<open>JSON.parse(JSON.stringify(v))\<close>, with any code units in
  its strings and any nesting.\<close>

theorem json_parse_stringify: "jsonable v \<Longrightarrow> json_parse (stringify v) = Some v"
  by (rule json_round_trip)

lemma json_parse_stringify_witness:
  "json_parse (stringify (Arr [Num (- 12), Str [34, 55296, 10], Obj [([], Null)]])) =
     Some (Arr [Num (- 12), Str [34, 55296, 10], Obj [([], Null)]])"
  by (rule json_parse_stringify) simp

text \<open>The fuel of the JSON parser never decides its answer: any larger amount gives the same
  result, so a failure is a syntax error of the text.\<close>

theorem json_parse_fuel:
  "2 * length s < n \<Longrightarrow>
   json_parse s =
     (case parse_value n (skip_ws s) of None \<Rightarrow> None
      | Some (v, r) \<Rightarrow> if skip_ws r = [] then Some v else None)"
  by (rule json_fuel_enough)

lemma json_parse_fuel_witness:
  "json_parse [cu CHR ''7''] =
     (case parse_value 100 (skip_ws [cu CHR ''7'']) of None \<Rightarrow> None
      | Some (v, r) \<Rightarrow> if skip_ws r = [] then Some v else None)"
  by (rule json_parse_fuel) simp

section \<open>Dates\<close>

text \<open>A publish date as the server writes it (\<open>YYYY-MM-DD\<close>, any day of the years 0 to 9999) is
  shown unchanged: reading it as a time value and writing the date of that time value in UTC
  gives back the same text, in every time zone.\<close>

theorem formatDate_shows_date:
  assumes "0 \<le> y" "y \<le> 9999" "valid_date y m d"
  shows "formatDate en (Str (iso_date y m d)) = Str (iso_date y m d)"
  using assms by (rule formatDate_iso)

lemma formatDate_shows_date_witness:
  "formatDate plain_engine (Str (lit ''2024-02-29'')) = Str (lit ''2024-02-29'')"
proof -
  have "iso_date 2024 2 29 = lit ''2024-02-29''"
    by (simp add: iso_date_def iso_year_def pad_to_def digits.simps lit_def cu_def)
  with formatDate_shows_date [of 2024 2 29 plain_engine] show ?thesis
    by (simp add: valid_date_def leap_def)
qed

text \<open>The day count behind the dates is exact: the year, month and day recovered from the day
  number of a date of the Gregorian calendar are the ones it was computed from, for every year,
  negative ones and leap years included.\<close>

theorem calendar_round_trip: "valid_date y m d \<Longrightarrow> civil_of (day_number y m d) = (y, m, d)"
  by (rule civil_of_day_number)

lemma calendar_round_trip_witness: "civil_of (day_number (-4) 2 29) = (-4, 2, 29)"
  by (rule calendar_round_trip) (simp add: valid_date_def leap_def)

section \<open>The order of the stories\<close>

definition story_date :: "jsval \<Rightarrow> int \<Rightarrow> int \<Rightarrow> int \<Rightarrow> bool" where
  "story_date item y m d \<longleftrightarrow>
     0 \<le> y \<and> y \<le> 9999 \<and> valid_date y m d \<and> get_prop item ''publish_date'' = Inr (Str (iso_date y m d))"

lemma story_date_time:
  "story_date item y m d \<Longrightarrow> publish_time en item = Some (ms_per_day * day_number y m d)"
  by (simp add: story_date_def publish_time_def date_parse_iso_date)

text \<open>The comparator puts the later calendar date first: a story may stand before another exactly
  when its date, compared by year, then month, then day, is not earlier.\<close>

theorem by_date_desc_calendar:
  assumes "story_date a y m d" "story_date b y' m' d'"
  shows "by_date_desc en a b \<le> 0 \<longleftrightarrow> y' < y \<or> (y' = y \<and> (m' < m \<or> (m' = m \<and> d' \<le> d)))"
proof -
  have v: "valid_date y m d" "valid_date y' m' d'" using assms by (simp_all add: story_date_def)
  have "by_date_desc en a b \<le> 0 \<longleftrightarrow> day_number y' m' d' \<le> day_number y m d"
    using by_date_desc_le_iff [OF story_date_time [OF assms(1)] story_date_time [OF assms(2)], of en]
    by (simp add: ms_per_day_def)
  with day_number_less [OF v] day_number_less [OF v(2,1)] show ?thesis
    by (metis linorder_not_le linorder_neqE order_le_less)
qed

lemma sample_story_date:
  "iso_date y m d = lit date \<Longrightarrow> 0 \<le> y \<Longrightarrow> y \<le> 9999 \<Longrightarrow> valid_date y m d \<Longrightarrow>
   story_date (sample_story t l date) y m d"
  by (simp add: story_date_def sample_story_def)

lemma sample_dates:
  "iso_date 2024 2 29 = lit ''2024-02-29''" "iso_date 2024 3 1 = lit ''2024-03-01''"
  "valid_date 2024 2 29" "valid_date 2024 3 1"
  by (simp_all add: iso_date_def iso_year_def pad_to_def digits.simps lit_def cu_def valid_date_def leap_def)

lemma by_date_desc_calendar_witness:
  "by_date_desc plain_engine (sample_story ''b'' ''l'' ''2024-03-01'') (sample_story ''a'' ''k'' ''2024-02-29'') \<le> 0"
  using by_date_desc_calendar
    [OF sample_story_date [OF sample_dates(2), of "''b''" "''l''"]
        sample_story_date [OF sample_dates(1), of "''a''" "''k''"]] sample_dates(3,4)
  by simp

text \<open>Dates as year, month and day. A list is \<open>newest_first\<close> when it has the items of another, no date is later than
  one before it, and the items of one date are in their old order.\<close>

fun not_later :: "int \<times> int \<times> int \<Rightarrow> int \<times> int \<times> int \<Rightarrow> bool" where
  "not_later (y', m', d') (y, m, d) \<longleftrightarrow> y' < y \<or> (y' = y \<and> (m' < m \<or> (m' = m \<and> d' \<le> d)))"

definition newest_first :: "('a \<Rightarrow> int \<times> int \<times> int) \<Rightarrow> 'a list \<Rightarrow> 'a list \<Rightarrow> bool" where
  "newest_first date xs ys \<longleftrightarrow> mset ys = mset xs \<and> sorted_wrt (\<lambda>a b. not_later (date b) (date a)) ys \<and>
     (\<forall>k. filter (\<lambda>x. date x = k) ys = filter (\<lambda>x. date x = k) xs)"

definition dated_by :: "(jsval \<Rightarrow> int \<times> int \<times> int) \<Rightarrow> jsval \<Rightarrow> bool" where
  "dated_by date x \<longleftrightarrow> (case date x of (y, m, d) \<Rightarrow> story_date x y m d)"

lemma dated_by_dated: "dated_by date x \<Longrightarrow> dated en x"
  using story_date_time by (auto simp: dated_by_def dated_def story_date_def split: prod.splits)

lemma dated_by_order:
  assumes "dated_by date a" "dated_by date b"
  shows "by_date_desc en a b \<le> 0 \<longleftrightarrow> not_later (date b) (date a)" "by_date_desc en a b = 0 \<longleftrightarrow> date b = date a"
proof -
  have le: "by_date_desc en a b \<le> 0 \<longleftrightarrow> not_later (date b) (date a)"
    if "dated_by date a" "dated_by date b" for a b
    using that by_date_desc_calendar by (auto simp: dated_by_def split: prod.splits)
  show "by_date_desc en a b \<le> 0 \<longleftrightarrow> not_later (date b) (date a)" using assms by (rule le)
  have "by_date_desc en b a = - by_date_desc en a b"
    using assms [THEN dated_by_dated, of en] by (auto simp: by_date_desc_def dated_def)
  then have "by_date_desc en a b = 0 \<longleftrightarrow> not_later (date b) (date a) \<and> not_later (date a) (date b)"
    using le [OF assms] le [OF assms(2,1)] by auto
  then show "by_date_desc en a b = 0 \<longleftrightarrow> date b = date a" by (cases "date a"; cases "date b") auto
qed

lemma newest_first_stable:
  assumes "\<forall>x \<in> set xs. dated_by date x"
  shows "stable_sorting (by_date_desc en) xs zs \<longleftrightarrow> newest_first date xs zs"
proof (cases "mset zs = mset xs")
  case True
  then have zs: "set zs = set xs" by (rule mset_eq_setD)
  have sorted: "sorted_wrt (\<lambda>a b. by_date_desc en a b \<le> 0) zs \<longleftrightarrow> sorted_wrt (\<lambda>a b. not_later (date b) (date a)) zs"
    unfolding sorted_wrt_iff_nth_less
  proof (intro all_cong1 imp_cong refl)
    fix i j assume "i < j" "j < length zs"
    then have "zs ! i \<in> set zs" "zs ! j \<in> set zs" by simp_all
    with assms zs show "by_date_desc en (zs ! i) (zs ! j) \<le> 0 \<longleftrightarrow> not_later (date (zs ! j)) (date (zs ! i))"
      by (intro dated_by_order(1)) auto
  qed
  have eq: "filter (\<lambda>b. by_date_desc en a b = 0) ys = filter (\<lambda>x. date x = date a) ys"
    if "a \<in> set xs" "set ys = set xs" for a ys
    using that assms dated_by_order(2) by (intro filter_cong) auto
  have absent: "filter (\<lambda>x. date x = k) zs = filter (\<lambda>x. date x = k) xs" if "k \<notin> date ` set xs" for k
  proof -
    have "filter (\<lambda>x. date x = k) ys = []" if "set ys = set xs" for ys
      using that \<open>k \<notin> date ` set xs\<close> by (auto simp: filter_empty_conv)
    with zs show ?thesis by simp
  qed
  have "(\<forall>a \<in> set xs. filter (\<lambda>b. by_date_desc en a b = 0) zs = filter (\<lambda>b. by_date_desc en a b = 0) xs) \<longleftrightarrow>
      (\<forall>a \<in> set xs. filter (\<lambda>x. date x = date a) zs = filter (\<lambda>x. date x = date a) xs)"
    using eq zs by simp
  also have "\<dots> \<longleftrightarrow> (\<forall>k. filter (\<lambda>x. date x = k) zs = filter (\<lambda>x. date x = k) xs)"
  proof
    assume present: "\<forall>a \<in> set xs. filter (\<lambda>x. date x = date a) zs = filter (\<lambda>x. date x = date a) xs"
    show "\<forall>k. filter (\<lambda>x. date x = k) zs = filter (\<lambda>x. date x = k) xs"
    proof
      show "filter (\<lambda>x. date x = k) zs = filter (\<lambda>x. date x = k) xs" for k
        using present absent [of k] by (cases "k \<in> date ` set xs") auto
    qed
  qed blast
  finally show ?thesis unfolding stable_sorting_def newest_first_def using True sorted by simp
qed (simp add: stable_sorting_def newest_first_def)

text \<open>C36. The list of stories shown is the only one an engine can produce: for stories with the dates the server
  writes it is the list with the newest day first, by year, month and day, in which the stories of
  one day keep their order, and no other list is, in every time zone.\<close>

theorem sortedItems_unique:
  assumes "\<forall>x \<in> set xs. dated_by date x"
  shows "\<exists>ys. sortedItems en (Arr xs) = Inr ys \<and> newest_first date xs ys \<and> (\<forall>zs. newest_first date xs zs \<longrightarrow> zs = ys)"
proof -
  have d: "\<forall>x \<in> set xs. dated en x" using assms dated_by_dated by blast
  then have "sortedItems en (Arr xs) = Inr (sort_by (by_date_desc en) xs)"
    using dated_get_prop by (intro sortedItems_Arr) blast
  then show ?thesis
    using fl.sort_by_stable_sorting [OF d] fl.stable_sorting_unique [OF d]
    unfolding newest_first_stable [OF assms] by blast
qed

lemma sortedItems_unique_witness:
  "\<exists>ys. sortedItems plain_engine (Arr [sample_story ''a'' ''k'' ''2024-02-29'', sample_story ''b'' ''l'' ''2024-03-01'']) = Inr ys \<and>
     ys = [sample_story ''b'' ''l'' ''2024-03-01'', sample_story ''a'' ''k'' ''2024-02-29'']"
proof -
  define a b where "a = sample_story ''a'' ''k'' ''2024-02-29''" and "b = sample_story ''b'' ''l'' ''2024-03-01''"
  define date where "date x = (if x = a then (2024, 2, 29) else (2024, 3, 1) :: int \<times> int \<times> int)" for x :: jsval
  have ab: "a \<noteq> b" by (simp add: a_def b_def sample_story_def lit_eq_iff)
  have "dated_by date a" "dated_by date b"
    using sample_story_date [OF sample_dates(1), of "''a''" "''k''"] sample_story_date [OF sample_dates(2), of "''b''" "''l''"]
      sample_dates ab by (simp_all add: dated_by_def date_def flip: a_def b_def)
  then have "\<forall>x \<in> set [a, b]. dated_by date x" by simp
  from sortedItems_unique [OF this, of plain_engine] obtain ys where
    ys: "sortedItems plain_engine (Arr [a, b]) = Inr ys" "\<forall>zs. newest_first date [a, b] zs \<longrightarrow> zs = ys" by blast
  have "newest_first date [a, b] [b, a]" using ab by (simp add: newest_first_def date_def)
  with ys have "sortedItems plain_engine (Arr [a, b]) = Inr [b, a]" by blast
  then show ?thesis by (simp add: a_def b_def)
qed

text \<open>Showing the list neither loses nor duplicates a story, whatever the dates are: the sorted
  list is a permutation of the items, also when the comparator yields \<open>NaN\<close>.\<close>

theorem sortedItems_permutation:
  assumes "sortedItems en (Arr xs) = Inr ys"
  shows "mset ys = mset xs"
  using assms by (auto simp: sortedItems_def bind_r_Inr_iff split: if_splits)

lemma sortedItems_permutation_witness:
  "mset (sort_by (by_date_desc plain_engine) [Obj [], Obj []]) = mset [Obj [], Obj []]"
  by (rule sortedItems_permutation [of plain_engine]) (simp add: sortedItems_def)

end
