(* ===== verification/FeedChannel.thy ===== *)
theory FeedChannel
  imports Machine
begin

text \<open>
  \<open>hooks/useFeedChannel.js\<close> and the consumer of \<open>cable.js\<close>. The effect of the
  hook subscribes to \<open>FeedChannel\<close> and its cleanup unsubscribes; React runs the effect after a
  mount and after a render whose dependency \<open>onMessage\<close> changed, the cleanup before the next
  effect and at an unmount. Under \<open>StrictMode\<close> (\<open>application.jsx\<close>) a mount runs the effect, its
  cleanup and the effect again. A callback is represented by an identity \<open>'cb\<close>, and
  a falsy \<open>onMessage\<close> by \<open>None\<close>.
\<close>

section \<open>The consumer\<close>

text \<open>The live subscriptions of the consumer, each with the callback its \<open>received\<close> closes over.\<close>

record 'cb consumer =
  next_sub :: nat
  live :: "(nat \<times> 'cb option) list"

definition createConsumer :: "'cb consumer" where
  "createConsumer = \<lparr>next_sub = 0, live = []\<rparr>"

definition create_sub :: "'cb option \<Rightarrow> 'cb consumer \<Rightarrow> nat \<times> 'cb consumer" where
  "create_sub cb c =
     (next_sub c, c\<lparr>next_sub := Suc (next_sub c), live := live c @ [(next_sub c, cb)]\<rparr>)"

definition unsubscribe :: "nat \<Rightarrow> 'cb consumer \<Rightarrow> 'cb consumer" where
  "unsubscribe i c = c\<lparr>live := filter (\<lambda>(j, _). j \<noteq> i) (live c)\<rparr>"

text \<open>\<open>received(data)\<close> of every live subscription: the callbacks called for one broadcast, in order.\<close>

definition received :: "'cb option \<Rightarrow> 'cb list" where
  "received onMessage = (case onMessage of None \<Rightarrow> [] | Some f \<Rightarrow> [f])"

definition deliver :: "'cb consumer \<Rightarrow> 'cb list" where
  "deliver c = concat (map (received \<circ> snd) (live c))"

section \<open>The hook\<close>

text \<open>The mounted effect of one component: the dependency it ran with and the subscription
  (\<open>sub\<close>) its cleanup closes over.\<close>

record 'cb hook =
  mounted :: "('cb option \<times> nat) option"
  cable :: "'cb consumer"

definition hook_init :: "'cb hook" where
  "hook_init = \<lparr>mounted = None, cable = createConsumer\<rparr>"

definition run_effect :: "'cb option \<Rightarrow> 'cb hook \<Rightarrow> 'cb hook" where
  "run_effect onMessage h =
     (case create_sub onMessage (cable h) of (sub, c) \<Rightarrow> h\<lparr>mounted := Some (onMessage, sub), cable := c\<rparr>)"

definition run_cleanup :: "'cb hook \<Rightarrow> 'cb hook" where
  "run_cleanup h =
     (case mounted h of None \<Rightarrow> h
      | Some (_, sub) \<Rightarrow> h\<lparr>mounted := None, cable := unsubscribe sub (cable h)\<rparr>)"

text \<open>What React does with the hook: mount (twice under \<open>StrictMode\<close>), re-render, unmount.\<close>

definition hook_mount :: "bool \<Rightarrow> 'cb option \<Rightarrow> 'cb hook \<Rightarrow> 'cb hook" where
  "hook_mount strict cb h = (if strict then run_effect cb (run_cleanup (run_effect cb h)) else run_effect cb h)"

definition hook_render :: "'cb option \<Rightarrow> 'cb hook \<Rightarrow> 'cb hook" where
  "hook_render cb h =
     (case mounted h of None \<Rightarrow> h
      | Some (dep, _) \<Rightarrow> if dep = cb then h else run_effect cb (run_cleanup h))"

definition hook_unmount :: "'cb hook \<Rightarrow> 'cb hook" where
  "hook_unmount h = run_cleanup h"

inductive hook_step :: "bool \<Rightarrow> 'cb hook \<Rightarrow> 'cb hook \<Rightarrow> bool" for strict where
  hs_mount: "mounted h = None \<Longrightarrow> hook_step strict h (hook_mount strict cb h)"
| hs_render: "mounted h \<noteq> None \<Longrightarrow> hook_step strict h (hook_render cb h)"
| hs_unmount: "mounted h \<noteq> None \<Longrightarrow> hook_step strict h (hook_unmount h)"

inductive_cases hook_stepE: "hook_step strict h h'"

section \<open>At most one subscription, with the current callback\<close>

definition hook_inv :: "'cb hook \<Rightarrow> bool" where
  "hook_inv h \<longleftrightarrow>
     live (cable h) = (case mounted h of None \<Rightarrow> [] | Some (dep, sub) \<Rightarrow> [(sub, dep)])"

lemma run_effect_inv: "hook_inv h \<Longrightarrow> mounted h = None \<Longrightarrow> hook_inv (run_effect cb h)"
  by (simp add: hook_inv_def run_effect_def create_sub_def)

lemma run_cleanup_inv: "hook_inv h \<Longrightarrow> hook_inv (run_cleanup h)"
  by (auto simp: hook_inv_def run_cleanup_def unsubscribe_def split: option.splits)

lemma run_cleanup_mounted [simp]: "mounted (run_cleanup h) = None"
  by (auto simp: run_cleanup_def split: option.splits)

lemma hook_step_inv: "hook_inv h \<Longrightarrow> hook_step strict h h' \<Longrightarrow> hook_inv h'"
  by (erule hook_stepE)
    (auto simp: hook_mount_def hook_render_def hook_unmount_def split: option.split
      intro!: run_effect_inv run_cleanup_inv)

interpretation hk: inductive_invariant "\<lambda>h. h = hook_init" "hook_step strict" hook_inv
  by unfold_locales (simp add: hook_inv_def hook_init_def createConsumer_def, rule hook_step_inv)

lemma hook_inv_deliver:
  "hook_inv h \<Longrightarrow> deliver (cable h) = (case mounted h of None \<Rightarrow> [] | Some (cb, _) \<Rightarrow> received cb)"
  by (auto simp: hook_inv_def deliver_def split: option.splits)

lemma mounted_run_effect: "\<exists>sub. mounted (run_effect cb h) = Some (cb, sub)"
  by (simp add: run_effect_def create_sub_def)

end
