(* ===== verification/PropsUi.thy ===== *)
theory PropsUi
  imports Examples FeedChannel
begin

text \<open>
  Properties of the components below \<open>App\<close>: the forms, the cards, the list and the channel hook.
\<close>

section \<open>The feed form\<close>

text \<open>Whatever the user does, the feed form keeps at least one URL field, and every event it offers
  names an existing field, so no handler writes or removes out of range; a remove button is
  offered only while there are two fields or more.\<close>

theorem feed_form_fields:
  assumes "reach (\<lambda>us. us = ff_init) (\<lambda>s t. \<exists>loading. ff_step loading s t) us"
  shows "us \<noteq> [] \<and>
    (\<forall>i loading. FfChange i \<in> set (events (FeedForm us loading)) \<longrightarrow> i < length us) \<and>
    (\<forall>i loading. FfRemove i \<in> set (events (FeedForm us loading)) \<longrightarrow> i < length us \<and> 1 < length us)"
  using ff.reachable_inv [OF assms] FeedForm_events_range by blast

lemma feed_form_fields_witness: "[[], []] \<noteq> ([] :: jsstr list)"
proof -
  have "FfAdd \<in> set (events (FeedForm ff_init False))" by (simp add: FeedForm_events)
  then have "ff_step False ff_init [[], []]"
    using ff_step.intros [of FfAdd ff_init False "[]"] by (simp add: addField_def ff_init_def)
  then have "reach (\<lambda>us. us = ff_init) (\<lambda>s t. \<exists>loading. ff_step loading s t) [[], []]"
    by (blast intro: reach_start reach_step)
  from feed_form_fields [OF this] show ?thesis by blast
qed

text \<open>The feed form offers its submit event (before the browser's own validation of the fields) exactly
  when no submit is running and some field is not blank; then \<open>onSubmit\<close> is called with the trimmed non-blank fields in order, so never
  with an empty list, an empty URL or surrounding white space.\<close>

theorem feed_form_submit:
  "(FfSubmit \<in> set (events (FeedForm us loading)) \<longleftrightarrow> \<not> loading \<and> (\<exists>vs. ff_submit us = Some vs)) \<and>
   (\<forall>vs. ff_submit us = Some vs \<longrightarrow>
      vs = map trim (filter (\<lambda>u. trim u \<noteq> []) us) \<and> vs \<noteq> [] \<and> (\<forall>u \<in> set vs. u \<noteq> [] \<and> trim u = u))"
proof -
  have "FfSubmit \<in> set (events (FeedForm us loading)) \<longleftrightarrow> \<not> isSubmitDisabled us loading"
    by (auto simp: FeedForm_events)
  also have "\<dots> \<longleftrightarrow> \<not> loading \<and> (\<exists>vs. ff_submit us = Some vs)"
    by (simp add: isSubmitDisabled_def ff_submit_def)
  finally have "FfSubmit \<in> set (events (FeedForm us loading)) \<longleftrightarrow> \<not> loading \<and> (\<exists>vs. ff_submit us = Some vs)" .
  moreover have "vs = map trim (filter (\<lambda>u. trim u \<noteq> []) us) \<and> vs \<noteq> [] \<and> (\<forall>u \<in> set vs. u \<noteq> [] \<and> trim u = u)"
    if "ff_submit us = Some vs" for vs
  proof -
    from that have vs: "vs = active_urls us" "vs \<noteq> []" by (auto simp: ff_submit_Some_iff)
    with active_urls_trimmed [of _ us] active_urls_eq [of us] show ?thesis by metis
  qed
  ultimately show ?thesis by blast
qed

lemma feed_form_submit_witness:
  "ff_submit [lit '' a '', lit '' ''] = Some [lit ''a''] \<and>
   FfSubmit \<in> set (events (FeedForm [lit '' a '', lit '' ''] False))"
proof -
  have "ff_submit [lit '' a '', lit '' ''] = Some [lit ''a'']"
    by (simp add: ff_submit_def active_urls_def trim_def lit_def cu_def is_space_def)
  with feed_form_submit [of "[lit '' a '', lit '' '']" False] show ?thesis by blast
qed

text \<open>Editing acts on the one field it names: a change replaces field \<open>i\<close> and no other, adding
  appends an empty field, removing drops exactly field \<open>i\<close> unless it is the last one left.\<close>

theorem feed_form_editing:
  assumes "i < length us"
  shows "handleUrlChange us i v ! i = v \<and> length (handleUrlChange us i v) = length us \<and>
    (\<forall>j. j \<noteq> i \<longrightarrow> handleUrlChange us i v ! j = us ! j) \<and>
    addField us = us @ [[]] \<and>
    removeField us i = (if length us > 1 then take i us @ drop (Suc i) us else us)"
  using assms by (simp add: handleUrlChange_def addField_def removeField_eq)

lemma feed_form_editing_witness:
  "removeField [lit ''a'', lit ''b'', lit ''a''] 1 = [lit ''a'', lit ''a'']"
  using feed_form_editing [of 1 "[lit ''a'', lit ''b'', lit ''a'']" "[]"] by simp

text \<open>The values of an attribute on the elements of a tag, in document order.\<close>

definition attrs_of_tag :: "string \<Rightarrow> string \<Rightarrow> 'h node \<Rightarrow> jsval option list" where
  "attrs_of_tag t n tree = map (attr_of n) (filter (\<lambda>e. tag_of e = t) (elements tree))"

lemma field_attrs:
  "attrs_of_tag ''input'' ''id'' (ff_field n i url) = [Some (Str (input_id i))]"
  "attrs_of_tag ''label'' ''htmlFor'' (ff_field n i url) = [Some (Str (input_id i))]"
  by (simp_all add: attrs_of_tag_def ff_field_def)

lemma fields_attrs:
  assumes "\<And>n i url. attrs_of_tag t a (ff_field n i url) = [Some (Str (input_id i))]"
  shows "map (attr_of a) (filter (\<lambda>e. tag_of e = t)
      (concat (map (elements \<circ> (\<lambda>(i, url). ff_field n i url)) (enumerate k us)))) =
    map (\<lambda>i. Some (Str (input_id i))) [k..<k + length us]"
proof (induction us arbitrary: k)
  case (Cons u us)
  have "[k..<k + length (u # us)] = k # [Suc k..<Suc k + length us]"
    by (simp add: upt_conv_Cons del: upt_Suc)
  with Cons [of "Suc k"] assms [of n k u] show ?case
    by (simp add: attrs_of_tag_def del: upt_Suc)
qed simp

text \<open>Every URL input has an id of its own, and its label is bound to it: the ids of the rendered
  inputs are pairwise different and are, in order, the targets of the labels.\<close>

theorem feed_form_ids:
  "attrs_of_tag ''input'' ''id'' (FeedForm us loading) = map (\<lambda>i. Some (Str (input_id i))) [0..<length us] \<and>
   attrs_of_tag ''label'' ''htmlFor'' (FeedForm us loading) = attrs_of_tag ''input'' ''id'' (FeedForm us loading) \<and>
   distinct (attrs_of_tag ''input'' ''id'' (FeedForm us loading))"
proof -
  have "attrs_of_tag ''input'' ''id'' (FeedForm us loading) = map (\<lambda>i. Some (Str (input_id i))) [0..<length us]"
    "attrs_of_tag ''label'' ''htmlFor'' (FeedForm us loading) = map (\<lambda>i. Some (Str (input_id i))) [0..<length us]"
    using fields_attrs [OF field_attrs(1), of "length us" 0 us] fields_attrs [OF field_attrs(2), of "length us" 0 us]
    by (simp_all add: attrs_of_tag_def FeedForm_def)
  then show ?thesis by (simp add: distinct_map inj_on_def input_id_inj)
qed

section \<open>The login form\<close>

text \<open>However a login ends, the login form never stays stuck: nothing is thrown, the spinner stops, the
  submit event is offered again, what was typed is kept, and the form shows an error with a text
  exactly when the login failed.\<close>

theorem login_form_settles:
  assumes "fst (lf_submit f) = g"
  shows "\<exists>h. lf_settle en outcome g = (Inr (), h) \<and> \<not> lf_loading h \<and>
    LfSubmit \<notin> set (events (LoginForm g)) \<and> LfSubmit \<in> set (events (LoginForm h)) \<and>
    lf_email h = lf_email f \<and> lf_password h = lf_password f \<and>
    (lf_error h \<noteq> [] \<longleftrightarrow> (\<exists>e. outcome = Inl e)) \<and>
    (\<forall>m. outcome = Inl (JsError m) \<longrightarrow> m \<noteq> [] \<longrightarrow> lf_error h = m)"
  using assms
  by (cases outcome) (auto simp: lf_submit_def LoginForm_events or_text_def)

lemma login_form_settles_witness:
  "\<exists>h. lf_settle plain_engine (Inl (JsError (lit ''no''))) (lf_init\<lparr>lf_loading := True\<rparr>) = (Inr (), h) \<and>
     lf_error h = lit ''no''"
  using login_form_settles [of lf_init "lf_init\<lparr>lf_loading := True\<rparr>" plain_engine "Inl (JsError (lit ''no''))"]
  by (auto simp: lf_submit_def lf_init_def)

section \<open>Cards and badges\<close>

text \<open>A description is shown whole up to 250 code units; a longer one is cut to its first 250 and marked
  with dots, so no card shows more than 253.\<close>

theorem description_bound:
  "\<exists>t. truncateText (Str s) 250 = Inr (Str t) \<and> length t \<le> 253 \<and> take 250 t = take 250 s \<and>
    (length s \<le> 250 \<longrightarrow> t = s) \<and> (length s > 250 \<longrightarrow> t = take 250 s @ lit ''...'')"
  by (simp add: truncateText_Str)

lemma description_bound_witness:
  "truncateText (Str (replicate 300 97)) 250 = Inr (Str (replicate 250 97 @ lit ''...''))"
  using description_bound [of "replicate 300 97"] by simp

text \<open>The cut may fall inside a surrogate pair: a description with an emoji at code units 250 and 251
  is shown with the lone first half of the pair before the dots.\<close>

theorem description_splits_pair:
  "\<exists>s t. high_surrogate (s ! 249) \<and> low_surrogate (s ! 250) \<and>
     truncateText (Str s) 250 = Inr (Str t) \<and> high_surrogate (t ! 249) \<and> \<not> low_surrogate (t ! 250)"
proof -
  define s :: jsstr where "s = replicate 249 97 @ [55357, 56832]"
  have "truncateText (Str s) 250 = Inr (Str (replicate 249 97 @ [55357] @ lit ''...''))"
    by (simp add: s_def truncateText_Str)
  moreover have "high_surrogate (s ! 249)" "low_surrogate (s ! 250)"
    by (simp_all add: s_def nth_append high_surrogate_def low_surrogate_def)
  moreover have "high_surrogate ((replicate 249 97 @ [55357] @ lit ''...'') ! 249)"
    "\<not> low_surrogate ((replicate 249 97 @ [55357] @ lit ''...'') ! 250)"
    by (simp_all add: nth_append high_surrogate_def low_surrogate_def lit_def cu_def)
  ultimately show ?thesis by blast
qed

text \<open>The badge of a request tells its four statuses apart by colour, shows the status as its text, and
  gives any other status the neutral colour, unless it is the name of a member that every object
  inherits, whose text is then used as the class.\<close>

theorem status_badge:
  "inj_on (\<lambda>s. status_class en (Str s)) (set (map fst STATUS_CLASS)) \<and>
   set (map fst STATUS_CLASS) = {lit ''pending'', lit ''processing'', lit ''done'', lit ''failed''} \<and>
   (\<forall>s. s \<notin> set (map fst STATUS_CLASS) \<longrightarrow> status_class en (Str s) =
      (if s \<in> set inherited_names then inherited_text en s else lit ''bg-secondary text-white'')) \<and>
   (\<forall>s. \<exists>n. StatusBadge en (Str s) = Inr (n :: unit node) \<and> text_of n = s \<and>
      attr_of ''className'' n = Some (Str (lit ''badge '' @ status_class en (Str s))))"
proof (intro conjI)
  show "inj_on (\<lambda>s. status_class en (Str s)) (set (map fst STATUS_CLASS))" by (rule status_class_inj)
  show "\<forall>s. s \<notin> set (map fst STATUS_CLASS) \<longrightarrow> status_class en (Str s) =
      (if s \<in> set inherited_names then inherited_text en s else lit ''bg-secondary text-white'')"
    by (simp add: status_class_def Let_def map_of_eq_None_iff [THEN iffD2] split: option.split)
qed (auto simp: StatusBadge_def STATUS_CLASS_def)

lemma status_badge_witness: "status_class plain_engine (Str (lit ''queued'')) = lit ''bg-secondary text-white''"
  using status_badge [of plain_engine] by (simp add: STATUS_CLASS_def inherited_names_def)

text \<open>The story list is total on the data of the contract and complete: it renders one row per story, in
  the sorted order, each keyed by the link of its story.\<close>

theorem story_rows:
  assumes "\<forall>x \<in> set xs. story x" "xs \<noteq> []"
  shows "\<exists>rows. story_section en xs = Inr (el ''div'' [class_s ''row''] rows) \<and> length rows = length xs \<and>
    (\<forall>i < length xs. \<exists>l. get_prop (xs ! i) ''link'' = Inr l \<and> node_key (rows ! i :: unit node) = key_of l)"
proof -
  obtain rows where rows: "map_r (item_row en :: jsval \<Rightarrow> unit node result) xs = Inr rows"
    using map_r_all_Inr [of xs "item_row en :: jsval \<Rightarrow> unit node result"] item_row_renders assms(1) by blast
  have "\<exists>l. get_prop (xs ! i) ''link'' = Inr l \<and> node_key (rows ! i) = key_of l" if "i < length xs" for i
    using map_r_nth [OF rows that] by (auto simp: item_row_def bind_r_Inr_iff dest!: sym [of _ "rows ! i"])
  with rows assms(2) map_r_Inr_length [OF rows] show ?thesis by (simp add: story_section_def)
qed

lemma sample_is_story: "story (sample_story t l d)"
  by (simp add: story_def sample_story_def text_field_def text_or_null_def)

lemma story_rows_witness:
  "\<exists>rows. story_section plain_engine [sample_story ''a'' ''k'' ''2024-02-29''] =
     Inr (el ''div'' [class_s ''row''] (rows :: unit node list)) \<and> length rows = 1"
  using story_rows [of "[sample_story ''a'' ''k'' ''2024-02-29'']" plain_engine] sample_is_story by auto

section \<open>The channel hook\<close>

text \<open>Through any sequence of mounts, re-renders with changed callbacks and unmounts, also when
  \<open>StrictMode\<close> runs every mount twice, the hook holds exactly one subscription while it is mounted
  and none otherwise, and a broadcast reaches exactly the callback of the last render.\<close>

theorem hook_subscription:
  assumes "reach (\<lambda>h. h = hook_init) (hook_step strict) h"
  shows "length (live (cable h)) = (if mounted h = None then 0 else 1) \<and>
    deliver (cable h) = (case mounted h of None \<Rightarrow> [] | Some (cb, _) \<Rightarrow> received cb)"
  using hk.reachable_inv [OF assms] hook_inv_deliver [of h]
  by (auto simp: hook_inv_def split: option.splits)

lemma hook_subscription_witness:
  "deliver (cable (hook_mount True (Some (7 :: nat)) hook_init)) = [7]"
proof -
  have "reach (\<lambda>h. h = hook_init) (hook_step True) (hook_mount True (Some (7 :: nat)) hook_init)"
    by (rule reach_step [OF reach_start]) (auto intro: hs_mount simp: hook_init_def)
  from hook_subscription [OF this] show ?thesis
    by (simp add: hook_mount_def run_effect_def run_cleanup_def create_sub_def hook_init_def
        createConsumer_def received_def unsubscribe_def)
qed

end
