(* ===== verification/Dashboard.thy ===== *)
theory Dashboard
  imports FeedList FeedForm ApiClient
begin

text \<open>
  The \<open>Dashboard\<close> of \<open>components/App.jsx\<close>: its state beside the state of the application it
  is given (\<open>feedItems\<close>, \<open>mode\<close>), the broadcast callback, the submit handler, the mount effect
  and what it renders.

  A functional update runs when React renders: an error it throws is not seen by the handler
  that made it and ends the application (\<open>crashed\<close>). A setter of a Dashboard that has been
  unmounted does nothing; \<open>dash\<close> is the instance that is mounted.
\<close>

section \<open>State\<close>

text \<open>What \<open>setTimeout\<close> is called with: the clean-up of a finished request by an instance of
  the dashboard, and the clearing of the flash message.\<close>

datatype timer = TCleanup nat jsval | TFlash

record page =
  dash :: "nat option"
  loading :: bool
  error :: jsstr
  pendingRequests :: "pending_request list"
  form_urls :: "jsstr list"
  feedItems :: jsval
  mode :: jsval
  clock :: nat
  timers :: "(nat \<times> timer) list"
  crashed :: "js_error option"

type_synonym ('z, 'a) page_act = "(js_error, 'z page_scheme, 'a) act"

definition when_mounted :: "nat \<Rightarrow> ('z page_scheme \<Rightarrow> 'z page_scheme) \<Rightarrow> ('z, unit) page_act" where
  "when_mounted inst f = modify (\<lambda>s. if dash s = Some inst then f s else s)"

definition setLoading :: "nat \<Rightarrow> bool \<Rightarrow> ('z, unit) page_act" where
  "setLoading inst b = when_mounted inst (\<lambda>s. s\<lparr>loading := b\<rparr>)"

definition setError :: "nat \<Rightarrow> jsstr \<Rightarrow> ('z, unit) page_act" where
  "setError inst m = when_mounted inst (\<lambda>s. s\<lparr>error := m\<rparr>)"

definition setPendingRequests ::
    "nat \<Rightarrow> (pending_request list \<Rightarrow> pending_request list result) \<Rightarrow> ('z, unit) page_act" where
  "setPendingRequests inst f = when_mounted inst (\<lambda>s.
     case f (pendingRequests s) of
       Inl e \<Rightarrow> s\<lparr>crashed := Some e\<rparr>
     | Inr rs \<Rightarrow> s\<lparr>pendingRequests := rs\<rparr>)"

definition setFeedItems :: "(jsval \<Rightarrow> jsval result) \<Rightarrow> ('z, unit) page_act" where
  "setFeedItems f = modify (\<lambda>s.
     case f (feedItems s) of
       Inl e \<Rightarrow> s\<lparr>crashed := Some e\<rparr>
     | Inr v \<Rightarrow> s\<lparr>feedItems := v\<rparr>)"

definition setMode :: "jsval \<Rightarrow> ('z, unit) page_act" where
  "setMode v = modify (\<lambda>s. s\<lparr>mode := v\<rparr>)"

definition setTimeout :: "timer \<Rightarrow> nat \<Rightarrow> ('z, unit) page_act" where
  "setTimeout t delay = modify (\<lambda>s. s\<lparr>timers := timers s @ [(clock s + delay, t)]\<rparr>)"

declare when_mounted_def [act_simps] setLoading_def [act_simps] setError_def [act_simps]
  setPendingRequests_def [act_simps] setFeedItems_def [act_simps] setMode_def [act_simps]
  setTimeout_def [act_simps]

section \<open>Updates of the request table\<close>

text \<open>\<open>prev.find((r) => r.feed_request_id === data.feed_request_id)\<close>\<close>

primrec has_request :: "jsval \<Rightarrow> pending_request list \<Rightarrow> bool result" where
  "has_request data [] = Inr False"
| "has_request data (r # rs) =
     bind_r (get_prop data ''feed_request_id'') (\<lambda>i.
       if strict_eq (feed_request_id r) i then Inr True else has_request data rs)"

definition update_row :: "jsval \<Rightarrow> pending_request \<Rightarrow> pending_request result" where
  "update_row data req =
     bind_r (get_prop data ''feed_request_id'') (\<lambda>i.
       if strict_eq (feed_request_id req) i
       then bind_r (get_prop data ''status'') (\<lambda>st. Inr (req\<lparr>status := st\<rparr>))
       else Inr req)"

definition update_status :: "jsval \<Rightarrow> pending_request list \<Rightarrow> pending_request list result" where
  "update_status data prev =
     bind_r (has_request data prev) (\<lambda>found.
       if \<not> found then Inr prev else map_r (update_row data) prev)"

definition remove_request :: "jsval \<Rightarrow> pending_request list \<Rightarrow> pending_request list" where
  "remove_request i prev = filter (\<lambda>r. \<not> strict_eq (feed_request_id r) i) prev"

section \<open>Merging stories\<close>

text \<open>The update of \<open>feedItems\<close>: the items whose link is not shown yet, then the ones shown.
  \<open>Set.has\<close> compares as \<open>===\<close> does on the values of the model.\<close>

definition merge_items :: "jsval \<Rightarrow> jsval \<Rightarrow> jsval result" where
  "merge_items items prev =
     bind_r (method_array ''map'' prev) (\<lambda>olds.
     bind_r (map_r (\<lambda>item. get_prop item ''link'') olds) (\<lambda>existingLinks.
     bind_r (method_array ''filter'' items) (\<lambda>news.
     bind_r (filter_r (\<lambda>item. bind_r (get_prop item ''link'') (\<lambda>l.
               Inr (\<not> list_ex (strict_eq l) existingLinks))) news) (\<lambda>newItems.
       Inr (Arr (newItems @ olds))))))"

text \<open>\<open>v && v.length > 0\<close>\<close>

definition has_elements :: "jsval \<Rightarrow> bool result" where
  "has_elements v =
     (if truthy v then bind_r (get_prop v ''length'') (\<lambda>n. Inr (js_gt n 0)) else Inr False)"

section \<open>Broadcasts\<close>

definition is_status :: "string \<Rightarrow> jsval \<Rightarrow> bool" where
  "is_status name st \<longleftrightarrow> strict_eq st (Str (lit name))"

definition handleBroadcastMessage :: "nat \<Rightarrow> jsval \<Rightarrow> ('z, unit) page_act" where
  "handleBroadcastMessage inst data =
     seq_a (setPendingRequests inst (update_status data))
     (bind_a (lift_r (get_prop data ''status'')) (\<lambda>st.
      seq_a
        (when_a (is_status ''done'' st \<or> is_status ''failed'' st)
          (bind_a (lift_r (get_prop data ''feed_request_id'')) (\<lambda>i. setTimeout (TCleanup inst i) 3000)))
      (seq_a
        (when_a (is_status ''done'' st)
          (bind_a (lift_r (get_prop data ''items'')) (\<lambda>items.
           bind_a (lift_r (has_elements items)) (\<lambda>some.
             when_a some (setFeedItems (merge_items items))))))
        (bind_a (lift_r (get_prop data ''errors'')) (\<lambda>errors.
         bind_a (lift_r (has_elements errors)) (\<lambda>some.
           when_a some
             (bind_a (lift_r (call_join errors (lit '', ''))) (\<lambda>m.
               setError inst (lit ''Some feeds failed to parse: '' @ m)))))))))"

section \<open>Submitting\<close>

text \<open>\<open>handleFeedSubmit\<close> up to the \<open>await\<close>, with the request it sends.\<close>

definition submit_start :: "nat \<Rightarrow> jsstr list \<Rightarrow> ('z, http_request) page_act" where
  "submit_start inst us =
     seq_a (setLoading inst True) (seq_a (setError inst []) (ret (api_submitFeeds us)))"

definition add_request :: "nat \<Rightarrow> pending_request \<Rightarrow> ('z, unit) page_act" where
  "add_request inst req = setPendingRequests inst (\<lambda>prev. Inr (prev @ [req]))"

definition submit_full :: "nat \<Rightarrow> jsstr list \<Rightarrow> jsval \<Rightarrow> ('z, unit) page_act" where
  "submit_full inst us res =
     bind_a (lift_r (get_prop res ''feed_request_id'')) (\<lambda>i.
     bind_a (lift_r (get_prop res ''job_id'')) (\<lambda>j.
     bind_a (lift_r (get_prop res ''status'')) (\<lambda>st.
       add_request inst \<lparr>feed_request_id = i, job_id = j, urls = us, status = st\<rparr>)))"

definition submit_fallback :: "nat \<Rightarrow> jsstr list \<Rightarrow> jsval \<Rightarrow> ('z, unit) page_act" where
  "submit_fallback inst us res =
     seq_a
       (bind_a (lift_r (get_prop res ''items'')) (\<lambda>items.
        bind_a (lift_r (has_elements items)) (\<lambda>some.
          when_a some (setFeedItems (merge_items items)))))
     (bind_a (lift_r (get_prop res ''feed_request_id'')) (\<lambda>reqId.
      bind_a (lift_r (get_prop res ''job_id'')) (\<lambda>j.
      seq_a
        (add_request inst \<lparr>feed_request_id = reqId, job_id = j, urls = us, status = Str (lit ''done'')\<rparr>)
        (setTimeout (TCleanup inst reqId) 3000))))"

text \<open>\<open>handleFeedSubmit\<close> from the settled promise on.\<close>

definition submit_settle :: "engine \<Rightarrow> nat \<Rightarrow> jsstr list \<Rightarrow> jsval result \<Rightarrow> ('z, unit) page_act" where
  "submit_settle en inst us answer =
     try_finally
       (try_catch
         (bind_a (lift_r answer) (\<lambda>res.
          bind_a (lift_r (get_prop res ''mode'')) (\<lambda>m.
            if strict_eq m (Str (lit ''full'')) then submit_full inst us res
            else submit_fallback inst us res)))
         (\<lambda>err. setError inst (or_text (err_message en err) ''Failed to submit feeds'')))
       (setLoading inst False)"

section \<open>The mount effect\<close>

definition load_items :: "nat \<Rightarrow> jsval result \<Rightarrow> ('z, unit) page_act" where
  "load_items inst answer =
     try_catch
       (bind_a (lift_r answer) (\<lambda>data.
        bind_a (lift_r (get_prop data ''items'')) (\<lambda>items.
          setFeedItems (\<lambda>_. Inr (js_or items (Arr []))))))
       (\<lambda>_. setError inst (lit ''Failed to load feed items''))"

definition load_health :: "jsval result \<Rightarrow> ('z, unit) page_act" where
  "load_health answer =
     try_catch
       (bind_a (lift_r answer) (\<lambda>h. bind_a (lift_r (get_prop h ''mode'')) setMode))
       (\<lambda>_. ret ())"

text \<open>The clean-up a timer runs.\<close>

definition run_cleanup_timer :: "nat \<Rightarrow> jsval \<Rightarrow> ('z, unit) page_act" where
  "run_cleanup_timer inst i = setPendingRequests inst (\<lambda>prev. Inr (remove_request i prev))"

section \<open>Rendering\<close>

datatype dash_handler = DhCloseError | DhForm ff_handler

definition Dashboard :: "engine \<Rightarrow> 'z page_scheme \<Rightarrow> dash_handler node result" where
  "Dashboard en s =
     bind_r (FeedList en (feedItems s) (pendingRequests s)) (\<lambda>stories.
       Inr (el ''div'' [class_s ''container py-2'']
         ((if error s \<noteq> [] then ErrorBanner (error s) (Some DhCloseError) else [])
          @ [el ''div'' [class_s ''row'']
               [el ''div'' [class_s ''col-lg-4 mb-4''] [map_node DhForm (FeedForm (form_urls s) (loading s))],
                el ''div'' [class_s ''col-lg-8''] [stories]]])))"

section \<open>Facts\<close>

lemma Dashboard_events:
  "Dashboard en s = Inr n \<Longrightarrow>
   events n = (if error s = [] then [] else [DhCloseError])
     @ map DhForm (events (FeedForm (form_urls s) (loading s)))"
  using ErrorBanner_events [of "error s" "Some DhCloseError"]
  by (auto simp: Dashboard_def bind_r_Inr_iff attr_events_def is_disabled_def events_map
      simp del: concat_eq_Nil_conv dest!: FeedList_events)

end
