(* ===== verification/Merge.thy ===== *)
theory Merge
  imports Dashboard "HOL-Library.Sublist"
begin

text \<open>
  The merge of new stories into the ones shown, as an interface: what the dashboard relies on is
  stated in a locale, with what follows for the collection of stories as a map from link to
  story, and the updater of the dashboard is an interpretation of it.
\<close>

lemma subseq_distinct: "subseq xs ys \<Longrightarrow> distinct ys \<Longrightarrow> distinct xs"
  by (induction rule: list_emb.induct) (auto dest: list_emb_set)

section \<open>The contract of a merge\<close>

locale keyed_merge =
  fixes key :: "'a \<Rightarrow> 'k" and ok :: "'a \<Rightarrow> bool" and merge :: "'a list \<Rightarrow> 'a list \<Rightarrow> 'a list"
  assumes merge_split: "list_all ok news \<Longrightarrow> list_all ok olds \<Longrightarrow>
      \<exists>fresh. merge news olds = fresh @ olds \<and> subseq fresh news \<and> (\<forall>x \<in> set fresh. key x \<notin> key ` set olds)"
    and merge_covers: "list_all ok news \<Longrightarrow> list_all ok olds \<Longrightarrow> x \<in> set news \<Longrightarrow>
      key x \<notin> key ` set olds \<Longrightarrow> x \<in> set (merge news olds)"
begin

text \<open>The collection a list stands for: the first story of each key.\<close>

definition shown :: "'a list \<Rightarrow> 'k \<Rightarrow> 'a option" where
  "shown xs = map_of (map (\<lambda>x. (key x, x)) xs)"

lemma shown_append: "shown (xs @ ys) = shown ys ++ shown xs"
  by (simp add: shown_def)

lemma shown_None: "shown xs k = None \<longleftrightarrow> k \<notin> key ` set xs"
  by (simp add: shown_def map_of_eq_None_iff image_image)

lemma merge_keys:
  assumes "list_all ok news" "list_all ok olds"
  shows "key ` set (merge news olds) = key ` set news \<union> key ` set olds"
proof -
  obtain fresh where f: "merge news olds = fresh @ olds" "subseq fresh news"
    using merge_split [OF assms] by blast
  with merge_covers [OF assms] show ?thesis by (auto dest: list_emb_set)
qed

lemma merge_distinct:
  assumes "list_all ok news" "list_all ok olds" "distinct (map key news)" "distinct (map key olds)"
  shows "distinct (map key (merge news olds))"
proof -
  obtain fresh where f: "merge news olds = fresh @ olds" "subseq fresh news"
      "\<forall>x \<in> set fresh. key x \<notin> key ` set olds"
    using merge_split [OF assms(1,2)] by blast
  have "distinct (map key fresh)"
    using assms(3) subseq_map [OF f(2), of key] subseq_distinct by blast
  with f assms(4) show ?thesis by auto
qed

lemma merge_covered:
  assumes "list_all ok news" "list_all ok olds" "key ` set news \<subseteq> key ` set olds"
  shows "merge news olds = olds"
proof -
  obtain fresh where f: "merge news olds = fresh @ olds" "subseq fresh news"
      "\<forall>x \<in> set fresh. key x \<notin> key ` set olds"
    using merge_split [OF assms(1,2)] by blast
  have "set fresh \<subseteq> set news" using f(2) by (auto dest: list_emb_set)
  with f(3) assms(3) have "fresh = []" by (cases fresh) auto
  with f(1) show ?thesis by simp
qed

lemma merge_ok:
  assumes "list_all ok news" "list_all ok olds"
  shows "list_all ok (merge news olds)"
proof -
  obtain fresh where f: "merge news olds = fresh @ olds" "subseq fresh news"
    using merge_split [OF assms] by blast
  have "set fresh \<subseteq> set news" using f(2) by (auto dest: list_emb_set)
  with f(1) assms show ?thesis by (auto simp: list_all_iff)
qed

lemma merge_again:
  assumes "list_all ok news" "list_all ok olds"
  shows "merge news (merge news olds) = merge news olds"
  using merge_covered [OF assms(1) merge_ok [OF assms]] merge_keys [OF assms] by blast

text \<open>A merge never replaces a story that is shown.\<close>

lemma merge_keeps_shown:
  assumes "list_all ok news" "list_all ok olds" "shown olds k = Some x"
  shows "shown (merge news olds) k = Some x"
proof -
  obtain fresh where f: "merge news olds = fresh @ olds" "\<forall>x \<in> set fresh. key x \<notin> key ` set olds"
    using merge_split [OF assms(1,2)] by blast
  from assms(3) have "k \<in> key ` set olds" using shown_None [of olds k] by fastforce
  with f(2) have "k \<notin> key ` set fresh" by (metis imageE)
  then have "shown fresh k = None" by (rule shown_None [THEN iffD2])
  with f(1) assms(3) show ?thesis by (simp add: shown_append map_add_def)
qed

text \<open>As maps from key to story, a merge adds the new stories below the ones shown.\<close>

lemma shown_member: "distinct (map key xs) \<Longrightarrow> shown xs k = Some x \<longleftrightarrow> x \<in> set xs \<and> key x = k"
proof -
  assume "distinct (map key xs)"
  then have "distinct (map fst (map (\<lambda>x. (key x, x)) xs))" by (simp add: comp_def)
  from map_of_eq_Some_iff [OF this] show ?thesis by (auto simp: shown_def)
qed

lemma merge_shown:
  assumes "list_all ok news" "list_all ok olds" "distinct (map key news)"
  shows "shown (merge news olds) = shown news ++ shown olds"
proof
  fix k
  obtain fresh where f: "merge news olds = fresh @ olds" "subseq fresh news"
      "\<forall>x \<in> set fresh. key x \<notin> key ` set olds"
    using merge_split [OF assms(1,2)] by blast
  have sub: "set fresh \<subseteq> set news" using f(2) by (auto dest: list_emb_set)
  have d: "distinct (map key fresh)"
    using assms(3) subseq_map [OF f(2), of key] subseq_distinct by blast
  have "shown fresh k = shown news k" if n: "shown olds k = None"
  proof (rule option.expand)
    have k: "k \<notin> key ` set olds" using n by (rule shown_None [THEN iffD1])
    have c: "x \<in> set fresh" if "x \<in> set news" "key x = k" for x
      using merge_covers [OF assms(1,2) that(1)] that(2) k f(1) by auto
    then have "k \<in> key ` set fresh \<longleftrightarrow> k \<in> key ` set news" using sub by auto
    then show "(shown fresh k = None) = (shown news k = None)" by (simp only: shown_None)
    assume "shown fresh k \<noteq> None" "shown news k \<noteq> None"
    then obtain x y where xy: "shown fresh k = Some x" "shown news k = Some y" by blast
    then have "shown news k = Some x"
      using shown_member [OF d] shown_member [OF assms(3)] sub by blast
    with xy show "the (shown fresh k) = the (shown news k)" by simp
  qed
  then show "shown (merge news olds) k = (shown news ++ shown olds) k"
    using merge_keeps_shown [OF assms(1,2), of k]
    by (cases "shown olds k"; cases "shown news k") (simp_all add: f(1) shown_append map_add_def)
qed

end

section \<open>The dashboard's merge\<close>

definition link_of :: "jsval \<Rightarrow> jsval" where
  "link_of item = (case get_prop item ''link'' of Inr v \<Rightarrow> v | Inl _ \<Rightarrow> Undefined)"

text \<open>An item whose link can be read and compared by value.\<close>

definition linkable :: "jsval \<Rightarrow> bool" where
  "linkable item \<longleftrightarrow> \<not> nullish item \<and> primitive (link_of item)"

definition merged :: "jsval list \<Rightarrow> jsval list \<Rightarrow> jsval list" where
  "merged news olds = (case merge_items (Arr news) (Arr olds) of Inr (Arr xs) \<Rightarrow> xs | _ \<Rightarrow> olds)"

lemma linkable_get: "linkable item \<Longrightarrow> get_prop item ''link'' = Inr (link_of item)"
  by (cases item) (auto simp: linkable_def link_of_def)

lemma merge_items_eq:
  assumes "list_all linkable news" "list_all linkable olds"
  shows "merge_items (Arr news) (Arr olds) =
    Inr (Arr (filter (\<lambda>x. link_of x \<notin> link_of ` set olds) news @ olds))"
proof -
  have m: "map_r (\<lambda>item. get_prop item ''link'') olds = Inr (map link_of olds)"
    using assms(2) by (intro map_r_total) (auto simp: list_all_iff linkable_get)
  have e: "(\<forall>y \<in> set olds. \<not> strict_eq (link_of x) (link_of y)) \<longleftrightarrow> link_of x \<notin> link_of ` set olds"
    if "linkable x" for x
    using that by (auto simp: strict_eq_primitive linkable_def)
  have "filter_r (\<lambda>item. bind_r (get_prop item ''link'') (\<lambda>l.
          Inr (\<not> list_ex (strict_eq l) (map link_of olds)))) news =
      Inr (filter (\<lambda>x. link_of x \<notin> link_of ` set olds) news)"
    using assms(1) by (intro filter_r_total) (simp add: list_all_iff list_ex_iff linkable_get e)
  with m show ?thesis by (simp add: merge_items_def)
qed

lemma merged_eq:
  "list_all linkable news \<Longrightarrow> list_all linkable olds \<Longrightarrow>
   merged news olds = filter (\<lambda>x. link_of x \<notin> link_of ` set olds) news @ olds"
  by (simp add: merged_def merge_items_eq)

interpretation mg: keyed_merge link_of linkable merged
proof unfold_locales
  fix news olds
  assume ok: "list_all linkable news" "list_all linkable olds"
  show "\<exists>fresh. merged news olds = fresh @ olds \<and> subseq fresh news \<and>
      (\<forall>x \<in> set fresh. link_of x \<notin> link_of ` set olds)"
    by (intro exI [of _ "filter (\<lambda>x. link_of x \<notin> link_of ` set olds) news"])
      (simp add: merged_eq [OF ok])
  show "x \<in> set news \<Longrightarrow> link_of x \<notin> link_of ` set olds \<Longrightarrow> x \<in> set (merged news olds)" for x
    by (simp add: merged_eq [OF ok])
qed

lemma links_of_merge:
  "link_of ` set (filter (\<lambda>x. link_of x \<notin> link_of ` set olds) news @ olds) = link_of ` set news \<union> link_of ` set olds"
  "set olds \<subseteq> set (filter (\<lambda>x. link_of x \<notin> link_of ` set olds) news @ olds)"
  by auto

lemma story_linkable:
  assumes "story item"
  shows "linkable item"
proof -
  from assms have "text_field item ''link''" by (simp add: story_def)
  then obtain v where v: "get_prop item ''link'' = Inr v" "v = Undefined \<or> text_or_null v"
    unfolding text_field_def by blast
  from assms obtain ps where i: "item = Obj ps" unfolding story_def by blast
  from v(2) have "primitive v" by (auto simp: text_or_null_def)
  with i v(1) show ?thesis by (simp add: linkable_def link_of_def)
qed

end
