(* ===== verification/DashFacts.thy ===== *)
theory DashFacts
  imports Merge
begin

text \<open>
  The results of the dashboard's handlers: what a broadcast and the answer of a submit do to the
  table of requests, the timers and the flags.
\<close>

section \<open>The table of requests\<close>

definition prop_of :: "jsval \<Rightarrow> string \<Rightarrow> jsval" where
  "prop_of v k = (case get_prop v k of Inr w \<Rightarrow> w | Inl _ \<Rightarrow> Undefined)"

lemma get_prop_of: "\<not> nullish v \<Longrightarrow> get_prop v k = Inr (prop_of v k)"
  by (cases v) (auto simp: prop_of_def)

text \<open>The row after a broadcast: its status is the broadcast's when the request is the same.\<close>

definition mark :: "jsval \<Rightarrow> pending_request \<Rightarrow> pending_request" where
  "mark data r =
     (if strict_eq (feed_request_id r) (prop_of data ''feed_request_id'')
      then r\<lparr>status := prop_of data ''status''\<rparr> else r)"

lemma has_request_eq:
  "\<not> nullish data \<Longrightarrow>
   has_request data rs = Inr (\<exists>r \<in> set rs. strict_eq (feed_request_id r) (prop_of data ''feed_request_id''))"
  by (induction rs) (auto simp: get_prop_of)

lemma update_status_eq:
  assumes "\<not> nullish data"
  shows "update_status data rs = Inr (map (mark data) rs)"
proof (cases "\<exists>r \<in> set rs. strict_eq (feed_request_id r) (prop_of data ''feed_request_id'')")
  case True
  have "map_r (update_row data) rs = Inr (map (mark data) rs)"
    by (rule map_r_total) (simp add: update_row_def mark_def get_prop_of assms)
  with True show ?thesis by (simp add: update_status_def has_request_eq assms)
next
  case False
  then have "map (mark data) rs = rs" by (intro map_idI) (auto simp: mark_def)
  with False show ?thesis by (simp add: update_status_def has_request_eq assms)
qed

definition finished :: "jsval \<Rightarrow> bool" where
  "finished st \<longleftrightarrow> is_status ''done'' st \<or> is_status ''failed'' st"

section \<open>Broadcasts\<close>

text \<open>The part of the callback after the timer.\<close>

definition broadcast_rest :: "nat \<Rightarrow> jsval \<Rightarrow> jsval \<Rightarrow> ('z, unit) page_act" where
  "broadcast_rest inst data st =
     seq_a
       (when_a (is_status ''done'' st)
         (bind_a (lift_r (get_prop data ''items'')) (\<lambda>items.
          bind_a (lift_r (has_elements items)) (\<lambda>some.
            when_a some (setFeedItems (merge_items items))))))
       (bind_a (lift_r (get_prop data ''errors'')) (\<lambda>errors.
        bind_a (lift_r (has_elements errors)) (\<lambda>some.
          when_a some
            (bind_a (lift_r (call_join errors (lit '', ''))) (\<lambda>m.
              setError inst (lit ''Some feeds failed to parse: '' @ m))))))"

definition after_timer :: "nat \<Rightarrow> jsval \<Rightarrow> 'z page_scheme \<Rightarrow> 'z page_scheme" where
  "after_timer inst data s =
     (let t = (if dash s = Some inst then s\<lparr>pendingRequests := map (mark data) (pendingRequests s)\<rparr> else s)
      in if finished (prop_of data ''status'')
         then t\<lparr>timers := timers t @ [(clock t + 3000, TCleanup inst (prop_of data ''feed_request_id''))]\<rparr>
         else t)"

lemma handle_eq:
  "handleBroadcastMessage inst data =
     seq_a (setPendingRequests inst (update_status data))
     (bind_a (lift_r (get_prop data ''status'')) (\<lambda>st.
      seq_a
        (when_a (is_status ''done'' st \<or> is_status ''failed'' st)
          (bind_a (lift_r (get_prop data ''feed_request_id'')) (\<lambda>i. setTimeout (TCleanup inst i) 3000)))
        (broadcast_rest inst data st)))"
  by (simp only: handleBroadcastMessage_def broadcast_rest_def)

lemma broadcast_split:
  assumes "\<not> nullish data"
  shows "handleBroadcastMessage inst data s =
    broadcast_rest inst data (prop_of data ''status'') (after_timer inst data s)"
proof -
  have u: "setPendingRequests inst (update_status data) s =
      (Inr (), if dash s = Some inst then s\<lparr>pendingRequests := map (mark data) (pendingRequests s)\<rparr> else s)"
    by (simp add: setPendingRequests_def when_mounted_def modify_def update_status_eq assms)
  show ?thesis
    by (cases "finished (prop_of data ''status'')")
      (simp_all add: handle_eq seq_a_def bind_a_def u lift_r_def when_a_def ret_def setTimeout_def modify_def
        get_prop_of assms after_timer_def finished_def)
qed

text \<open>A broadcast of \<open>null\<close> or \<open>undefined\<close> throws; the table and the timers stay as they are.\<close>

lemma broadcast_nullish:
  assumes "nullish data"
  shows "\<exists>e c. handleBroadcastMessage inst data s = (Inl e, s\<lparr>crashed := c\<rparr>)"
proof -
  obtain e where e: "get_prop data k = Inl (e k)" for k
    using get_prop_Inl_iff [of data] assms by metis
  have "update_status data rs = (if rs = [] then Inr [] else Inl (e ''feed_request_id''))" for rs
    by (cases rs) (simp_all add: update_status_def e)
  then show ?thesis
    by (intro exI [of _ "e ''status''"] exI [of _ "if dash s = Some inst \<and> pendingRequests s \<noteq> []
        then Some (e ''feed_request_id'') else crashed s"])
      (simp add: handle_eq setPendingRequests_def when_mounted_def modify_def seq_a_def bind_a_def lift_r_def e)
qed

lemma rest_primitives [keeps_rules]:
  "keeps (\<lambda>s. (pendingRequests s, timers s, clock s, dash s) = v) (setFeedItems g)"
  "keeps (\<lambda>s. (pendingRequests s, timers s, clock s, dash s) = v) (setError inst m)"
  "keeps (\<lambda>s. (pendingRequests s, timers s, clock s, dash s) = v) (setMode x)"
  "keeps (\<lambda>s. (pendingRequests s, timers s, clock s, dash s) = v) (setLoading inst b)"
  by (auto simp: keeps_def act_simps split: sum.split)

lemma broadcast_table:
  fixes s :: "'z page_scheme"
  assumes "\<not> nullish data"
  shows "pendingRequests (snd (handleBroadcastMessage inst data s)) = pendingRequests (after_timer inst data s)"
    "timers (snd (handleBroadcastMessage inst data s)) = timers (after_timer inst data s)"
proof -
  have "keeps (\<lambda>t. (pendingRequests t, timers t, clock t, dash t) = v)
      (broadcast_rest inst data st :: ('z, unit) page_act)" for v st
    unfolding broadcast_rest_def by (intro keeps_rules)
  from keepsD [OF this refl]
  have "pendingRequests (snd (broadcast_rest inst data st t)) = pendingRequests t \<and>
      timers (snd (broadcast_rest inst data st t)) = timers t" for st and t :: "'z page_scheme"
    by simp
  then show "pendingRequests (snd (handleBroadcastMessage inst data s)) = pendingRequests (after_timer inst data s)"
    "timers (snd (handleBroadcastMessage inst data s)) = timers (after_timer inst data s)"
    by (simp_all add: broadcast_split [OF assms])
qed

text \<open>A \<open>done\<close> broadcast with stories and no errors.\<close>

lemma broadcast_stories:
  assumes "\<not> nullish data" "prop_of data ''status'' = Str (lit ''done'')"
    and "prop_of data ''items'' = Arr news" "news \<noteq> []" "list_all linkable news"
    and "feedItems s = Arr olds" "list_all linkable olds"
    and "prop_of data ''errors'' \<in> {Undefined, Null, Arr []}"
  shows "fst (handleBroadcastMessage inst data s) = Inr () \<and>
    feedItems (snd (handleBroadcastMessage inst data s)) =
      Arr (filter (\<lambda>x. link_of x \<notin> link_of ` set olds) news @ olds) \<and>
    error (snd (handleBroadcastMessage inst data s)) = error s \<and>
    crashed (snd (handleBroadcastMessage inst data s)) = crashed s"
proof -
  have h: "has_elements (Arr news) = Inr True" using assms(4) by (simp add: has_elements_def js_gt_def)
  have e: "has_elements (prop_of data ''errors'') = Inr False"
    using assms(8) by (auto simp: has_elements_def js_gt_def)
  have t: "feedItems (after_timer inst data s) = Arr olds" "error (after_timer inst data s) = error s"
    "crashed (after_timer inst data s) = crashed s"
    using assms(6) by (simp_all add: after_timer_def Let_def)
  show ?thesis
    unfolding broadcast_split [OF assms(1)] assms(2)
    by (simp add: broadcast_rest_def seq_a_def bind_a_def when_a_def is_status_def lift_r_def ret_def
        get_prop_of assms(1,3) h e setFeedItems_def modify_def t merge_items_eq [OF assms(5,7)])
qed

text \<open>The stories are merged first, so whatever the errors are the list ends the same.\<close>

lemma error_part_feed:
  "keeps (\<lambda>s :: 'z page_scheme. feedItems s = v) (bind_a (lift_r (get_prop data ''errors'')) (\<lambda>errors.
     bind_a (lift_r (has_elements errors)) (\<lambda>some.
       when_a some
         (bind_a (lift_r (call_join errors (lit '', ''))) (\<lambda>m.
           setError inst (lit ''Some feeds failed to parse: '' @ m))))))"
proof -
  have "keeps (\<lambda>s :: 'z page_scheme. feedItems s = v) (setError inst m)" for m
    by (auto simp: keeps_def act_simps)
  then show ?thesis by (intro keeps_rules)
qed

lemma broadcast_feed:
  fixes s :: "'z page_scheme"
  assumes "\<not> nullish data" "prop_of data ''status'' = Str (lit ''done'')"
    and "prop_of data ''items'' = Arr news" "list_all linkable news"
    and "feedItems s = Arr olds" "list_all linkable olds"
  shows "feedItems (snd (handleBroadcastMessage inst data s)) =
    Arr (filter (\<lambda>x. link_of x \<notin> link_of ` set olds) news @ olds)"
proof -
  define add :: "('z, unit) page_act" where "add =
    when_a (is_status ''done'' (Str (lit ''done'')))
      (bind_a (lift_r (get_prop data ''items'')) (\<lambda>items.
       bind_a (lift_r (has_elements items)) (\<lambda>some.
         when_a some (setFeedItems (merge_items items)))))"
  have h: "has_elements (Arr news) = Inr (news \<noteq> [])" "has_elements (Arr []) = Inr False"
    by (cases news) (simp_all add: has_elements_def js_gt_def)
  have "feedItems (after_timer inst data s) = Arr olds" using assms(5) by (simp add: after_timer_def Let_def)
  then have "\<exists>t. add (after_timer inst data s) = (Inr (), t) \<and>
      feedItems t = Arr (filter (\<lambda>x. link_of x \<notin> link_of ` set olds) news @ olds)"
    by (cases "news = []") (simp_all add: add_def bind_a_def when_a_def is_status_def lift_r_def ret_def get_prop_of
        assms(1,3) h setFeedItems_def modify_def merge_items_eq [OF assms(4,6)])
  then obtain t where t: "add (after_timer inst data s) = (Inr (), t)"
      "feedItems t = Arr (filter (\<lambda>x. link_of x \<notin> link_of ` set olds) news @ olds)"
    by blast
  have seq: "seq_a add n (after_timer inst data s) = n t" for n :: "('z, unit) page_act"
    by (simp add: seq_a_def bind_a_def t(1))
  show ?thesis
    unfolding broadcast_split [OF assms(1)] assms(2) broadcast_rest_def add_def [symmetric] seq t(2) [symmetric]
    by (rule keepsD [OF error_part_feed refl])
qed

section \<open>The answer of a submit\<close>

lemma submit_settle_error:
  "dash s = Some inst \<Longrightarrow>
   submit_settle en inst us (Inl e) s =
     (Inr (), s\<lparr>error := or_text (err_message en e) ''Failed to submit feeds'', loading := False\<rparr>)"
  by (simp add: submit_settle_def act_simps)

lemma submit_settle_full:
  "dash s = Some inst \<Longrightarrow> prop_of res ''mode'' = Str (lit ''full'') \<Longrightarrow>
   submit_settle en inst us (Inr res) s =
     (Inr (), s\<lparr>pendingRequests := pendingRequests s @
        [\<lparr>feed_request_id = prop_of res ''feed_request_id'', job_id = prop_of res ''job_id'',
          urls = us, status = prop_of res ''status''\<rparr>], loading := False\<rparr>)"
proof -
  assume "dash s = Some inst" "prop_of res ''mode'' = Str (lit ''full'')"
  moreover from this(2) have "\<not> nullish res" by (cases res) (auto simp: prop_of_def)
  ultimately show ?thesis
    by (simp add: submit_settle_def submit_full_def add_request_def act_simps get_prop_of)
qed

text \<open>The first parts of the fallback branch, which may throw before the row is added.\<close>

lemma submit_fallback_cases:
  assumes "dash s = Some inst" "\<not> nullish res"
  obtains (thrown) e where "submit_fallback inst us res s = (Inl e, s)"
    | (added) v c where "submit_fallback inst us res s =
        (Inr (), s\<lparr>feedItems := v, crashed := c,
           pendingRequests := pendingRequests s @
             [\<lparr>feed_request_id = prop_of res ''feed_request_id'', job_id = prop_of res ''job_id'',
               urls = us, status = Str (lit ''done'')\<rparr>],
           timers := timers s @ [(clock s + 3000, TCleanup inst (prop_of res ''feed_request_id''))]\<rparr>)"
proof (cases "has_elements (prop_of res ''items'')")
  case (Inl e)
  with assms that(1) show ?thesis by (simp add: submit_fallback_def act_simps get_prop_of)
next
  case (Inr some)
  define f where "f = merge_items (prop_of res ''items'') (feedItems s)"
  show ?thesis
  proof (rule that(2))
    show "submit_fallback inst us res s =
      (Inr (), s\<lparr>feedItems := (if some then case f of Inr v \<Rightarrow> v | Inl _ \<Rightarrow> feedItems s else feedItems s),
           crashed := (if some then case f of Inr v \<Rightarrow> crashed s | Inl e \<Rightarrow> Some e else crashed s),
           pendingRequests := pendingRequests s @
             [\<lparr>feed_request_id = prop_of res ''feed_request_id'', job_id = prop_of res ''job_id'',
               urls = us, status = Str (lit ''done'')\<rparr>],
           timers := timers s @ [(clock s + 3000, TCleanup inst (prop_of res ''feed_request_id''))]\<rparr>)"
      using Inr assms
      by (cases some; cases f) (simp_all add: submit_fallback_def add_request_def act_simps get_prop_of f_def)
  qed
qed

end
