(* ===== verification/PropsDash.thy ===== *)
theory PropsDash
  imports DashFacts Examples
begin

text \<open>
  Properties of the dashboard: the merge of stories, broadcasts and the answers of a submit.
\<close>

section \<open>Merging stories\<close>

lemma merged_items:
  "list_all linkable news \<Longrightarrow> list_all linkable olds \<Longrightarrow>
   merge_items (Arr news) (Arr olds) = Inr (Arr (merged news olds))"
  by (simp add: merged_def merge_items_eq)

lemma sample_linkable: "linkable (sample_story t l d)"
  by (simp add: linkable_def link_of_def sample_story_def)

lemma sample_link: "link_of (sample_story t l d) = Str (lit l)"
  by (simp add: link_of_def sample_story_def)

text \<open>Merging new stories keeps the links of the list pairwise different, loses no story that is
  shown and no new link: the links after the merge are exactly those shown before and those that
  arrived.\<close>

theorem merge_keeps_links_distinct:
  assumes "list_all linkable news" "list_all linkable olds"
    and "distinct (map link_of news)" "distinct (map link_of olds)"
  shows "\<exists>xs. merge_items (Arr news) (Arr olds) = Inr (Arr xs) \<and> distinct (map link_of xs) \<and>
    set olds \<subseteq> set xs \<and> link_of ` set xs = link_of ` set news \<union> link_of ` set olds"
  using merged_items [OF assms(1,2)] mg.merge_distinct [OF assms] mg.merge_keys [OF assms(1,2)]
  by (simp add: merged_eq [OF assms(1,2)])

lemma merge_keeps_links_distinct_witness:
  "\<exists>xs. merge_items (Arr [sample_story ''a'' ''k'' ''2024-02-29'', sample_story ''b'' ''l'' ''2024-02-29''])
     (Arr [sample_story ''c'' ''l'' ''2024-03-01'']) = Inr (Arr xs) \<and> distinct (map link_of xs)"
  using merge_keeps_links_distinct
    [of "[sample_story ''a'' ''k'' ''2024-02-29'', sample_story ''b'' ''l'' ''2024-02-29'']"
        "[sample_story ''c'' ''l'' ''2024-03-01'']"]
  by (auto simp: sample_linkable sample_link)

text \<open>C27. Read as a map from link to story, the merge adds the new stories below the ones shown: a story
  on the screen is never replaced by a later copy with the same link.\<close>

theorem merge_refines_map_update:
  assumes "list_all linkable news" "list_all linkable olds" "distinct (map link_of news)"
  shows "\<exists>xs. merge_items (Arr news) (Arr olds) = Inr (Arr xs) \<and>
    map_of (map (\<lambda>x. (link_of x, x)) xs) =
      map_of (map (\<lambda>x. (link_of x, x)) news) ++ map_of (map (\<lambda>x. (link_of x, x)) olds)"
  using merged_items [OF assms(1,2)] mg.merge_shown [OF assms] by (simp add: mg.shown_def)

lemma merge_refines_map_update_witness:
  "\<exists>xs. merge_items (Arr [sample_story ''b'' ''l'' ''2024-02-29'']) (Arr [sample_story ''c'' ''l'' ''2024-03-01'']) =
      Inr (Arr xs) \<and>
     map_of (map (\<lambda>x. (link_of x, x)) xs) (Str (lit ''l'')) = Some (sample_story ''c'' ''l'' ''2024-03-01'')"
  using merge_refines_map_update [of "[sample_story ''b'' ''l'' ''2024-02-29'']" "[sample_story ''c'' ''l'' ''2024-03-01'']"]
  by (auto simp: sample_linkable sample_link)

text \<open>Receiving the same stories a second time (a broadcast that repeats an answer, two subscriptions
  of a development build) changes nothing.\<close>

theorem merge_idempotent:
  assumes "list_all linkable news" "list_all linkable olds"
  shows "\<exists>xs. merge_items (Arr news) (Arr olds) = Inr (Arr xs) \<and> merge_items (Arr news) (Arr xs) = Inr (Arr xs)"
  using merged_items [OF assms] merged_items [OF assms(1) mg.merge_ok [OF assms]] mg.merge_again [OF assms]
  by simp

lemma merge_idempotent_witness:
  "\<exists>xs. merge_items (Arr [sample_story ''a'' ''k'' ''2024-02-29'']) (Arr []) = Inr (Arr xs) \<and>
     merge_items (Arr [sample_story ''a'' ''k'' ''2024-02-29'']) (Arr xs) = Inr (Arr xs)"
  by (rule merge_idempotent) (simp_all add: sample_linkable)

text \<open>The links of one message are compared with the list shown but not with each other: two items
  with the same link in one broadcast are both added.\<close>

theorem merge_keeps_repeated_links:
  "\<exists>news. \<not> distinct (map link_of news) \<and> list_all linkable news \<and> merge_items (Arr news) (Arr []) = Inr (Arr news)"
  by (intro exI [of _ "[sample_story ''a'' ''k'' ''2024-02-29'', sample_story ''b'' ''k'' ''2024-02-29'']"])
    (simp add: sample_linkable sample_link merge_items_eq)

section \<open>Broadcasts\<close>

text \<open>C26. A broadcast changes the status of exactly the rows of its request, in place and in order, and a
  clean-up of that request after three seconds is scheduled exactly when the status is \<open>done\<close> or
  \<open>failed\<close>; this holds whatever its items and errors are, also when a later part throws.\<close>

theorem broadcast_updates_rows:
  assumes "\<not> nullish data" "dash s = Some inst"
  shows "pendingRequests (snd (handleBroadcastMessage inst data s)) =
      map (\<lambda>r. if strict_eq (feed_request_id r) (prop_of data ''feed_request_id'')
               then r\<lparr>status := prop_of data ''status''\<rparr> else r) (pendingRequests s) \<and>
    timers (snd (handleBroadcastMessage inst data s)) = timers s @
      (if prop_of data ''status'' = Str (lit ''done'') \<or> prop_of data ''status'' = Str (lit ''failed'')
       then [(clock s + 3000, TCleanup inst (prop_of data ''feed_request_id''))] else [])"
proof -
  have "finished st \<longleftrightarrow> st = Str (lit ''done'') \<or> st = Str (lit ''failed'')" for st
    by (auto simp: finished_def is_status_def strict_eq_primitive)
  with broadcast_table [OF assms(1), of inst s] assms(2) show ?thesis
    by (simp add: after_timer_def mark_def [abs_def] Let_def)
qed

definition sample_page :: page where
  "sample_page = \<lparr>dash = Some 0, loading = False, error = [],
     pendingRequests = [\<lparr>feed_request_id = Num 7, job_id = Null, urls = [lit ''u''], status = Str (lit ''pending'')\<rparr>],
     form_urls = [[]], feedItems = Arr [], mode = Str (lit ''full''), clock = 5, timers = [], crashed = None\<rparr>"

definition sample_message :: "string \<Rightarrow> jsval list \<Rightarrow> jsval list \<Rightarrow> jsval" where
  "sample_message st items errors =
     Obj [(lit ''feed_request_id'', Num 7), (lit ''status'', Str (lit st)), (lit ''items'', Arr items),
          (lit ''errors'', Arr errors)]"

lemma sample_message_props [simp]:
  "prop_of (sample_message st xs es) ''feed_request_id'' = Num 7"
  "prop_of (sample_message st xs es) ''status'' = Str (lit st)"
  "prop_of (sample_message st xs es) ''items'' = Arr xs"
  "prop_of (sample_message st xs es) ''errors'' = Arr es"
  "nullish (sample_message st xs es) \<longleftrightarrow> False"
  by (simp_all add: sample_message_def prop_of_def)

lemma broadcast_updates_rows_witness:
  "map status (pendingRequests (snd (handleBroadcastMessage 0 (sample_message ''failed'' [] []) sample_page))) =
     [Str (lit ''failed'')] \<and>
   timers (snd (handleBroadcastMessage 0 (sample_message ''failed'' [] []) sample_page)) = [(3005, TCleanup 0 (Num 7))]"
  using broadcast_updates_rows [of "sample_message ''failed'' [] []" sample_page 0]
  by (simp add: sample_page_def)

text \<open>A \<open>done\<close> broadcast with stories shows them: they are merged into the list, and the callback ends
  without an error message when the broadcast reports none.\<close>

theorem broadcast_shows_stories:
  assumes "\<not> nullish data" "prop_of data ''status'' = Str (lit ''done'')"
    and "prop_of data ''items'' = Arr news" "news \<noteq> []" "list_all linkable news"
    and "feedItems s = Arr olds" "list_all linkable olds"
    and "prop_of data ''errors'' \<in> {Undefined, Null, Arr []}"
  shows "fst (handleBroadcastMessage inst data s) = Inr () \<and>
    feedItems (snd (handleBroadcastMessage inst data s)) =
      Arr (filter (\<lambda>x. link_of x \<notin> link_of ` set olds) news @ olds) \<and>
    error (snd (handleBroadcastMessage inst data s)) = error s \<and>
    crashed (snd (handleBroadcastMessage inst data s)) = crashed s"
  using assms by (rule broadcast_stories)

lemma broadcast_shows_stories_witness:
  "feedItems (snd (handleBroadcastMessage 0 (sample_message ''done'' [sample_story ''a'' ''k'' ''2024-02-29''] []) sample_page))
     = Arr [sample_story ''a'' ''k'' ''2024-02-29'']"
  using broadcast_shows_stories [of "sample_message ''done'' [sample_story ''a'' ''k'' ''2024-02-29''] []"
      "[sample_story ''a'' ''k'' ''2024-02-29'']" sample_page "[]" 0]
  by (simp add: sample_page_def sample_linkable)

text \<open>The errors of a broadcast are joined as strings, but the server sends each error as an object with
  \<open>url\<close> and \<open>error\<close>: the banner then shows only \<open>[object Object]\<close>, once per error, and neither
  the URL nor the reason.\<close>

theorem broadcast_errors_unreadable:
  assumes "\<not> nullish data" "prop_of data ''status'' = Str (lit ''failed'')" "dash s = Some inst"
    and "prop_of data ''errors'' = Arr es" "es \<noteq> []" "\<forall>e \<in> set es. \<exists>ps. e = Obj ps"
  shows "error (snd (handleBroadcastMessage inst data s)) =
    lit ''Some feeds failed to parse: '' @
      join_with (lit '', '') (replicate (length es) (lit ''[object Object]''))"
proof -
  have h: "has_elements (Arr es) = Inr True" using assms(5) by (simp add: has_elements_def js_gt_def)
  have j: "call_join (Arr es) sep = Inr (join_with sep (replicate (length es) (lit ''[object Object]'')))" for sep
    using to_string_Arr_objects [of es] assms(6) by (simp add: call_join_def)
  have d: "dash (after_timer inst data s) = Some inst" using assms(3) by (simp add: after_timer_def Let_def)
  show ?thesis
    unfolding broadcast_split [OF assms(1)] assms(2)
    by (simp add: broadcast_rest_def seq_a_def bind_a_def when_a_def is_status_def lift_r_def ret_def
        get_prop_of assms(1,4) h j setError_def when_mounted_def modify_def d)
qed

lemma broadcast_errors_unreadable_witness:
  "error (snd (handleBroadcastMessage 0
     (sample_message ''failed'' [] [Obj [(lit ''url'', Str (lit ''u'')), (lit ''error'', Str (lit ''timeout''))]]) sample_page)) =
   lit ''Some feeds failed to parse: [object Object]''"
  using broadcast_errors_unreadable [of "sample_message ''failed'' []
      [Obj [(lit ''url'', Str (lit ''u'')), (lit ''error'', Str (lit ''timeout''))]]" sample_page 0
      "[Obj [(lit ''url'', Str (lit ''u'')), (lit ''error'', Str (lit ''timeout''))]]"]
  by (simp add: sample_page_def flip: lit_append)

section \<open>The answer of a submit\<close>

text \<open>C15. However a submit is answered, \<open>handleFeedSubmit\<close> ends without throwing and stops the spinner;
  then either exactly one row with the submitted URLs was added to the table, or the table is
  unchanged and an error with a text is shown.\<close>

theorem submit_ends:
  assumes "dash s = Some inst"
  shows "fst (submit_settle en inst us answer s) = Inr () \<and>
    \<not> loading (snd (submit_settle en inst us answer s)) \<and>
    ((\<exists>r. pendingRequests (snd (submit_settle en inst us answer s)) = pendingRequests s @ [r] \<and> urls r = us) \<or>
     (pendingRequests (snd (submit_settle en inst us answer s)) = pendingRequests s \<and>
      error (snd (submit_settle en inst us answer s)) \<noteq> []))"
proof (cases answer)
  case (Inl e)
  then show ?thesis by (simp add: submit_settle_error [OF assms])
next
  case (Inr res)
  show ?thesis
  proof (cases "nullish res")
    case True
    then obtain e where "get_prop res ''mode'' = Inl e" using get_prop_Inl_iff [of res "''mode''"] by blast
    with Inr assms show ?thesis by (simp add: submit_settle_def act_simps)
  next
    case False
    show ?thesis
    proof (cases "prop_of res ''mode'' = Str (lit ''full'')")
      case True
      with Inr show ?thesis by (simp add: submit_settle_full [OF assms])
    next
      case no: False
      then have m: "\<not> strict_eq (prop_of res ''mode'') (Str (lit ''full''))" by (simp add: strict_eq_primitive)
      from assms False show ?thesis
        by (rule submit_fallback_cases [of s inst res us])
          (use Inr m assms in \<open>simp_all add: submit_settle_def act_simps get_prop_of [OF False]\<close>)
    qed
  qed
qed

lemma submit_ends_witness:
  "\<not> loading (snd (submit_settle plain_engine 0 [lit ''u''] (Inr Null) (sample_page\<lparr>loading := True\<rparr>)))"
  using submit_ends [of "sample_page\<lparr>loading := True\<rparr>" 0 plain_engine "[lit ''u'']" "Inr Null"]
  by (simp add: sample_page_def)

text \<open>A broadcast that overtakes the answer of its own submit is lost: no row carries its id yet, so
  nothing is marked, the clean-up it schedules finds nothing, and the row added by the answer
  stays in the table as \<open>pending\<close> with no timer that would remove it.\<close>

theorem overtaking_broadcast_lost:
  fixes s :: "'z page_scheme"
  assumes "dash s = Some inst" "pendingRequests s = []" "timers s = []"
    and "\<not> nullish data" "prop_of data ''feed_request_id'' = prop_of res ''feed_request_id''"
    and "prop_of data ''status'' = Str (lit ''done'')"
    and "prop_of res ''mode'' = Str (lit ''full'')" "prop_of res ''status'' = Str (lit ''pending'')"
  shows "let t1 = snd (handleBroadcastMessage inst data s);
      t2 = snd (run_cleanup_timer inst (prop_of data ''feed_request_id'') (t1\<lparr>timers := []\<rparr>));
      t3 = snd (submit_settle en inst us (Inr res) t2)
    in timers t1 = [(clock s + 3000, TCleanup inst (prop_of res ''feed_request_id''))] \<and>
       map feed_request_id (pendingRequests t3) = [prop_of res ''feed_request_id''] \<and>
       map status (pendingRequests t3) = [Str (lit ''pending'')] \<and> timers t3 = []"
proof -
  define t1 where "t1 = snd (handleBroadcastMessage inst data s)"
  have d: "dash t1 = Some inst"
  proof -
    have "keeps (\<lambda>t. dash t = Some inst) (handleBroadcastMessage inst data :: ('z, unit) page_act)"
      unfolding handleBroadcastMessage_def
      by (intro keeps_rules) (auto simp: keeps_def act_simps split: sum.split)
    with assms(1) show ?thesis by (simp add: keeps_def t1_def)
  qed
  have p: "pendingRequests t1 = []" and t: "timers t1 = [(clock s + 3000, TCleanup inst (prop_of res ''feed_request_id''))]"
    using broadcast_table [OF assms(4), of inst s] assms(1-3,5,6)
    by (simp_all add: t1_def after_timer_def Let_def finished_def is_status_def)
  then show ?thesis
    using d by (simp add: t1_def [symmetric] run_cleanup_timer_def setPendingRequests_def when_mounted_def
        modify_def remove_request_def submit_settle_full [OF _ assms(7)] assms(8))
qed

lemma overtaking_broadcast_lost_witness:
  "map status (pendingRequests (snd (submit_settle plain_engine 0 [lit ''u'']
     (Inr (Obj [(lit ''mode'', Str (lit ''full'')), (lit ''feed_request_id'', Num 7), (lit ''status'', Str (lit ''pending''))]))
     (snd (run_cleanup_timer 0 (Num 7)
        ((snd (handleBroadcastMessage 0 (sample_message ''done'' [] []) (sample_page\<lparr>pendingRequests := []\<rparr>)))\<lparr>timers := []\<rparr>)))))) =
   [Str (lit ''pending'')]"
  using overtaking_broadcast_lost [of "sample_page\<lparr>pendingRequests := []\<rparr>" 0 "sample_message ''done'' [] []"
      "Obj [(lit ''mode'', Str (lit ''full'')), (lit ''feed_request_id'', Num 7), (lit ''status'', Str (lit ''pending''))]"
      plain_engine "[lit ''u'']"]
  by (simp add: sample_page_def Let_def prop_of_def [of "Obj _"])

end
