(* ===== verification/Rails.thy ===== *)
theory Rails
  imports ApiClient JsDate
begin

text \<open>
  The Rails side of the front end (\<open>src/rss_frontend/app\<close>, Ruby): the tables, the controllers of
  the API, \<open>PublishFeedJob\<close> with its fallback, \<open>ProcessFeedResultJob\<close> and the channel. Every
  statement commits on its own, as in the source, so what was written before an exception stays.
\<close>

section \<open>Tables and messages\<close>

record feed_request =
  rq_id :: nat
  rq_user :: nat
  rq_job :: "jsstr option"
  rq_urls :: "jsstr list"
  rq_status :: jsstr

record feed_row =
  fd_id :: nat
  fd_url :: jsstr
  fd_title :: jsstr

text \<open>A row of \<open>feed_items\<close>; its date is the number of the day.\<close>

record stored_item =
  si_feed :: nat
  si_title :: "jsstr option"
  si_source :: "jsstr option"
  si_source_url :: "jsstr option"
  si_link :: "jsstr option"
  si_date :: "int option"
  si_description :: "jsstr option"

text \<open>An item of a result: a hash of texts, where a key may be missing or \<open>nil\<close>.\<close>

type_synonym item_msg = "(string \<times> jsstr option) list"

definition field :: "string \<Rightarrow> item_msg \<Rightarrow> jsstr option" where
  "field k item = (case map_of item k of Some (Some v) \<Rightarrow> Some v | _ \<Rightarrow> None)"

record result_msg =
  rm_job :: "jsstr option"
  rm_status :: "jsstr option"
  rm_items :: "item_msg list option"
  rm_errors :: "jsval list option"

record cast_msg =
  bc_request :: nat
  bc_status :: jsstr
  bc_items :: "item_msg list"
  bc_errors :: "jsval list"

text \<open>Work that has begun: a job in the queue, a published command whose status is not yet written,
  a delivery that has passed the guard, and one that has claimed its request.\<close>

datatype task =
    Publish nat
  | MarkProcessing feed_request
  | ClaimResult feed_request result_msg
  | StoreResult feed_request result_msg

record rails =
  requests :: "feed_request list"
  next_request :: nat
  feed_table :: "feed_row list"
  next_feed :: nat
  request_feeds :: "(nat \<times> nat) list"
  item_table :: "stored_item list"
  casts :: "(nat \<times> cast_msg) list"
  commands :: "(jsstr option \<times> jsstr list) list"
  tasks :: "task list"

definition rails_init :: rails where
  "rails_init = \<lparr>requests = [], next_request = 1, feed_table = [], next_feed = 1, request_feeds = [],
     item_table = [], casts = [], commands = [], tasks = []\<rparr>"

text \<open>What is raised, and what the framework decides: the date a text is cast to in a date column,
  and the texts of exceptions.\<close>

datatype rails_error = RecordInvalid | NotNullViolation | DatabaseDown | ParserError | Failure jsstr

record rails_env =
  cast_date :: "jsstr \<Rightarrow> int option"
  error_text :: "rails_error \<Rightarrow> jsstr"

type_synonym 'a rails_act = "(rails_error, rails, 'a) act"

section \<open>Models\<close>

definition STATUSES :: "jsstr list" where
  "STATUSES = map lit [''pending'', ''processing'', ''done'', ''failed'']"

definition ruby_space :: "16 word \<Rightarrow> bool" where
  "ruby_space c \<longleftrightarrow> unat c \<in> {9..13} \<union> {32, 133, 160, 5760} \<union> {8192..8202} \<union> {8232, 8233, 8239, 8287, 12288}"

definition blank :: "jsstr \<Rightarrow> bool" where
  "blank s \<longleftrightarrow> (\<forall>c \<in> set s. ruby_space c)"

definition open_status :: "jsstr \<Rightarrow> bool" where
  "open_status st \<longleftrightarrow> st = lit ''pending'' \<or> st = lit ''processing''"

definition final_status :: "jsstr \<Rightarrow> bool" where
  "final_status st \<longleftrightarrow> st = lit ''done'' \<or> st = lit ''failed''"

definition set_request :: "(feed_request \<Rightarrow> bool) \<Rightarrow> (feed_request \<Rightarrow> feed_request) \<Rightarrow> rails \<Rightarrow> rails" where
  "set_request p f s = s\<lparr>requests := map (\<lambda>r. if p r then f r else r) (requests s)\<rparr>"

text \<open>\<open>Feed.find_or_create_by!(url: url)\<close>: a new feed needs a URL that is not blank.\<close>

definition find_or_create_feed :: "jsstr option \<Rightarrow> jsstr \<Rightarrow> nat rails_act" where
  "find_or_create_feed url title s =
     (case url of
        None \<Rightarrow> (Inl RecordInvalid, s)
      | Some u \<Rightarrow>
          (case find (\<lambda>f. fd_url f = u) (feed_table s) of
             Some f \<Rightarrow> (Inr (fd_id f), s)
           | None \<Rightarrow>
               if blank u then (Inl RecordInvalid, s)
               else (Inr (next_feed s),
                 s\<lparr>feed_table := feed_table s @ [\<lparr>fd_id = next_feed s, fd_url = u, fd_title = title\<rparr>],
                   next_feed := Suc (next_feed s)\<rparr>)))"

definition link_feed :: "nat \<Rightarrow> nat \<Rightarrow> unit rails_act" where
  "link_feed rid fid = modify (\<lambda>s.
     if (rid, fid) \<in> set (request_feeds s) then s
     else s\<lparr>request_feeds := request_feeds s @ [(rid, fid)]\<rparr>)"

text \<open>\<open>insert_all ... unique_by: [:feed_id, :link]\<close>: a row whose feed and link are there already is
  skipped; \<open>NULL\<close> links are never equal.\<close>

definition insert_item :: "stored_item \<Rightarrow> stored_item list \<Rightarrow> stored_item list" where
  "insert_item i xs =
     (if si_link i \<noteq> None \<and> (\<exists>x \<in> set xs. si_feed x = si_feed i \<and> si_link x = si_link i) then xs else xs @ [i])"

definition insert_all :: "stored_item list \<Rightarrow> stored_item list \<Rightarrow> stored_item list" where
  "insert_all new xs = fold insert_item new xs"

section \<open>Storing the items of a result\<close>

definition group_by :: "('a \<Rightarrow> 'k) \<Rightarrow> 'a list \<Rightarrow> ('k \<times> 'a list) list" where
  "group_by f xs = map (\<lambda>k. (k, filter (\<lambda>x. f x = k) xs)) (rev (remdups (rev (map f xs))))"

definition item_attributes :: "rails_env \<Rightarrow> nat \<Rightarrow> item_msg \<Rightarrow> stored_item" where
  "item_attributes env fid item =
     \<lparr>si_feed = fid, si_title = field ''title'' item, si_source = field ''source'' item,
      si_source_url = field ''source_url'' item, si_link = field ''link'' item,
      si_date = (case field ''publish_date'' item of
                   Some d \<Rightarrow> cast_date env d
                 | None \<Rightarrow> (case field ''Date'' item of Some d \<Rightarrow> cast_date env d | None \<Rightarrow> None)),
      si_description = field ''description'' item\<rparr>"

definition source_name :: "item_msg list \<Rightarrow> jsstr" where
  "source_name its = (case field ''source'' (hd its) of Some n \<Rightarrow> n | None \<Rightarrow> lit ''RSS Source'')"

definition store_group :: "rails_env \<Rightarrow> nat \<Rightarrow> jsstr option \<times> item_msg list \<Rightarrow> unit rails_act" where
  "store_group env rid g =
     bind_a (find_or_create_feed (fst g) (source_name (snd g))) (\<lambda>fid.
     seq_a (link_feed rid fid)
       (modify (\<lambda>s. s\<lparr>item_table := insert_all (map (item_attributes env fid) (snd g)) (item_table s)\<rparr>)))"

text \<open>The groups one after the other; the database may stop answering before any of them (\<open>up\<close>).\<close>

fun store_groups :: "rails_env \<Rightarrow> (nat \<Rightarrow> bool) \<Rightarrow> nat \<Rightarrow> (jsstr option \<times> item_msg list) list \<Rightarrow> unit rails_act" where
  "store_groups env up rid [] = ret ()"
| "store_groups env up rid (g # gs) =
     (if up (length gs) then seq_a (store_group env rid g) (store_groups env up rid gs) else throw DatabaseDown)"

definition store_items :: "rails_env \<Rightarrow> (nat \<Rightarrow> bool) \<Rightarrow> nat \<Rightarrow> item_msg list \<Rightarrow> unit rails_act" where
  "store_items env up rid items = store_groups env up rid (group_by (field ''source_url'') items)"

definition broadcast :: "nat \<Rightarrow> cast_msg \<Rightarrow> unit rails_act" where
  "broadcast user m = modify (\<lambda>s. s\<lparr>casts := casts s @ [(user, m)]\<rparr>)"

definition or_empty :: "'a list option \<Rightarrow> 'a list" where
  "or_empty xs = (case xs of Some ys \<Rightarrow> ys | None \<Rightarrow> [])"

declare set_request_def [act_simps] link_feed_def [act_simps] broadcast_def [act_simps]

section \<open>ProcessFeedResultJob\<close>

datatype verdict = Ack | Reject

text \<open>Up to the guard: \<open>Some\<close> the request that goes on, \<open>None\<close> when the message is acknowledged here.\<close>

definition work_find :: "result_msg \<Rightarrow> rails \<Rightarrow> feed_request option" where
  "work_find m s =
     (case find (\<lambda>r. rq_job r = rm_job m) (requests s) of
        None \<Rightarrow> None
      | Some r \<Rightarrow> if rq_status r = lit ''done'' \<or> rq_status r = lit ''failed'' then None else Some r)"

text \<open>The conditional update, which skips validations; true when it changed a row.\<close>

definition work_claim :: "result_msg \<Rightarrow> bool rails_act" where
  "work_claim m s =
     (if \<exists>r \<in> set (requests s). rq_job r = rm_job m \<and> open_status (rq_status r)
      then (case rm_status m of
              None \<Rightarrow> (Inl NotNullViolation, s)
            | Some st \<Rightarrow> (Inr True,
                set_request (\<lambda>r. rq_job r = rm_job m \<and> open_status (rq_status r)) (\<lambda>r. r\<lparr>rq_status := st\<rparr>) s))
      else (Inr False, s))"

definition work_finish :: "rails_env \<Rightarrow> (nat \<Rightarrow> bool) \<Rightarrow> feed_request \<Rightarrow> result_msg \<Rightarrow> unit rails_act" where
  "work_finish env up r m =
     seq_a (when_a (or_empty (rm_items m) \<noteq> []) (store_items env up (rq_id r) (or_empty (rm_items m))))
       (broadcast (rq_user r)
         \<lparr>bc_request = rq_id r, bc_status = (case rm_status m of Some st \<Rightarrow> st | None \<Rightarrow> []),
          bc_items = or_empty (rm_items m), bc_errors = or_empty (rm_errors m)\<rparr>)"

text \<open>The whole of \<open>work\<close> without interleaving; \<open>None\<close> is a payload that is not JSON.\<close>

definition work :: "rails_env \<Rightarrow> (nat \<Rightarrow> bool) \<Rightarrow> result_msg option \<Rightarrow> verdict rails_act" where
  "work env up payload =
     try_catch
       (case payload of
          None \<Rightarrow> throw ParserError
        | Some m \<Rightarrow> (\<lambda>s.
            case work_find m s of
              None \<Rightarrow> (Inr Ack, s)
            | Some r \<Rightarrow>
                bind_a (work_claim m) (\<lambda>claimed.
                  if claimed then seq_a (work_finish env up r m) (ret Ack) else ret Ack) s))
       (\<lambda>_. ret Reject)"

section \<open>PublishFeedJob\<close>

text \<open>What the call of the feed service gives: an exception with its message, or a code with a body.\<close>

datatype service_reply = NoReply jsstr | Reply nat "result_msg option"

definition reply_job :: "feed_request \<Rightarrow> service_reply \<Rightarrow> jsstr option" where
  "reply_job r reply = (case reply of Reply code (Some m) \<Rightarrow> if code = 200 then rm_job m else rq_job r | _ \<Rightarrow> rq_job r)"

text \<open>\<open>feed_request.update!\<close>: an invalid status is not saved.\<close>

definition update_request :: "nat \<Rightarrow> jsstr option \<Rightarrow> jsstr option \<Rightarrow> unit rails_act" where
  "update_request rid job st s =
     (case st of
        None \<Rightarrow> (Inl RecordInvalid, s)
      | Some v \<Rightarrow>
          if v \<in> set STATUSES then (Inr (), set_request (\<lambda>r. rq_id r = rid) (\<lambda>r. r\<lparr>rq_job := job, rq_status := v\<rparr>) s)
          else (Inl RecordInvalid, s))"

definition execute_fallback ::
    "rails_env \<Rightarrow> (nat \<Rightarrow> bool) \<Rightarrow> service_reply \<Rightarrow> feed_request \<Rightarrow> unit rails_act" where
  "execute_fallback env up reply r =
     try_catch
       (case reply of
          NoReply m \<Rightarrow> throw (Failure m)
        | Reply code body \<Rightarrow>
            if code = 200 then
              (case body of
                 None \<Rightarrow> throw ParserError
               | Some m \<Rightarrow>
                   seq_a (update_request (rq_id r) (rm_job m) (rm_status m))
                   (seq_a (when_a (or_empty (rm_items m) \<noteq> []) (store_items env up (rq_id r) (or_empty (rm_items m))))
                     (broadcast (rq_user r)
                       \<lparr>bc_request = rq_id r, bc_status = (case rm_status m of Some st \<Rightarrow> st | None \<Rightarrow> []),
                        bc_items = or_empty (rm_items m), bc_errors = or_empty (rm_errors m)\<rparr>)))
            else throw (Failure (lit ''Go RSS parser fallback failed with HTTP '' @ digits code)))
       (\<lambda>e. seq_a (update_request (rq_id r) (reply_job r reply) (Some (lit ''failed'')))
         (broadcast (rq_user r)
           \<lparr>bc_request = rq_id r, bc_status = lit ''failed'', bc_items = [],
            bc_errors = [Str (case e of Failure m \<Rightarrow> m | _ \<Rightarrow> error_text env e)]\<rparr>))"

definition publish_command :: "feed_request \<Rightarrow> unit rails_act" where
  "publish_command r = modify (\<lambda>s. s\<lparr>commands := commands s @ [(rq_job r, rq_urls r)]\<rparr>)"

text \<open>\<open>update!(status: "processing")\<close> writes the attribute when the record loaded by the job had another.\<close>

definition mark_processing :: "feed_request \<Rightarrow> unit rails_act" where
  "mark_processing r =
     modify (if rq_status r = lit ''processing'' then id
             else set_request (\<lambda>x. rq_id x = rq_id r) (\<lambda>x. x\<lparr>rq_status := lit ''processing''\<rparr>))"

text \<open>\<open>perform\<close> without interleaving: \<open>Some reply\<close> is what the service answers after the broker failed.\<close>

definition perform :: "rails_env \<Rightarrow> (nat \<Rightarrow> bool) \<Rightarrow> service_reply option \<Rightarrow> feed_request \<Rightarrow> unit rails_act" where
  "perform env up broker_down r =
     (case broker_down of
        None \<Rightarrow> seq_a (publish_command r) (mark_processing r)
      | Some reply \<Rightarrow> execute_fallback env up reply r)"

section \<open>Controllers\<close>

definition json_reply :: "int \<Rightarrow> jsval \<Rightarrow> http_response" where
  "json_reply code v =
     \<lparr>rs_status = code, rs_content_type = Some (lit ''application/json; charset=utf-8''), rs_body = Some (stringify v)\<rparr>"

text \<open>\<open>params[:urls]\<close>: missing or empty, not an array, or an array of texts.\<close>

datatype urls_param = NoUrls | OtherUrls | Urls "jsstr list"

definition create_feeds :: "nat \<Rightarrow> jsstr \<Rightarrow> urls_param \<Rightarrow> rails \<Rightarrow> http_response \<times> rails" where
  "create_feeds user job us s =
     (case us of
        Urls xs \<Rightarrow>
          if xs = [] then (json_reply 422 (Obj [(lit ''error'', Str (lit ''Urls parameter must be a non-empty array''))]), s)
          else
            (json_reply 202 (Obj [(lit ''feed_request_id'', Num (int (next_request s))), (lit ''job_id'', Str job),
                 (lit ''status'', Str (lit ''pending'')), (lit ''mode'', Str (lit ''full''))]),
             s\<lparr>requests := requests s @ [\<lparr>rq_id = next_request s, rq_user = user, rq_job = Some job,
                 rq_urls = xs, rq_status = lit ''pending''\<rparr>],
               next_request := Suc (next_request s), tasks := tasks s @ [Publish (next_request s)]\<rparr>)
      | _ \<Rightarrow> (json_reply 422 (Obj [(lit ''error'', Str (lit ''Urls parameter must be a non-empty array''))]), s))"

definition own_item :: "nat \<Rightarrow> rails \<Rightarrow> stored_item \<Rightarrow> bool" where
  "own_item user s i \<longleftrightarrow> (\<exists>r \<in> set (requests s). rq_user r = user \<and> (rq_id r, si_feed i) \<in> set (request_feeds s))"

text \<open>\<open>order(publish_date: :desc)\<close>: \<open>NULL\<close> dates come first in PostgreSQL.\<close>

definition index_items :: "nat \<Rightarrow> rails \<Rightarrow> stored_item list" where
  "index_items user s =
     (let xs = filter (own_item user s) (item_table s)
      in filter (\<lambda>i. si_date i = None) xs
         @ sort_key (\<lambda>i. case si_date i of Some d \<Rightarrow> - d | None \<Rightarrow> 0) (filter (\<lambda>i. si_date i \<noteq> None) xs))"

definition text_value :: "jsstr option \<Rightarrow> jsval" where
  "text_value t = (case t of Some s \<Rightarrow> Str s | None \<Rightarrow> Null)"

definition date_value :: "int option \<Rightarrow> jsval" where
  "date_value d = (case d of Some n \<Rightarrow> (case civil_of n of (y, m, k) \<Rightarrow> Str (iso_date y m k)) | None \<Rightarrow> Null)"

definition item_value :: "stored_item \<Rightarrow> jsval" where
  "item_value i = Obj [(lit ''title'', text_value (si_title i)), (lit ''source'', text_value (si_source i)),
     (lit ''source_url'', text_value (si_source_url i)), (lit ''link'', text_value (si_link i)),
     (lit ''publish_date'', date_value (si_date i)), (lit ''description'', text_value (si_description i))]"

definition index_feed_items :: "nat \<Rightarrow> rails \<Rightarrow> http_response" where
  "index_feed_items user s = json_reply 200 (Obj [(lit ''items'', Arr (map item_value (index_items user s)))])"

definition health :: http_response where
  "health = json_reply 200 (Obj [(lit ''status'', Str (lit ''ok'')), (lit ''mode'', Str (lit ''full''))])"

text \<open>\<open>SessionsController\<close>: the credentials are checked by Devise; what is rendered when they are right,
  and after signing out.\<close>

definition session_created :: "jsstr \<Rightarrow> http_response" where
  "session_created email = json_reply 200
     (Obj [(lit ''success'', Bool True), (lit ''user'', Obj [(lit ''email'', Str email)])])"

definition session_destroyed :: http_response where
  "session_destroyed = json_reply 200 (Obj [(lit ''success'', Bool True)])"

section \<open>What reaches the page\<close>

definition item_msg_value :: "item_msg \<Rightarrow> jsval" where
  "item_msg_value item = Obj (map (\<lambda>(k, v). (lit k, text_value v)) item)"

text \<open>The data the callback of the channel receives.\<close>

definition cast_value :: "cast_msg \<Rightarrow> jsval" where
  "cast_value m = Obj [(lit ''feed_request_id'', Num (int (bc_request m))), (lit ''status'', Str (bc_status m)),
     (lit ''items'', Arr (map item_msg_value (bc_items m))), (lit ''errors'', Arr (bc_errors m))]"

text \<open>\<open>FeedChannel\<close>: a connection streams from the channel of its user.\<close>

definition stream_of :: "nat option \<Rightarrow> rails \<Rightarrow> cast_msg list" where
  "stream_of user s = (case user of None \<Rightarrow> [] | Some u \<Rightarrow> map snd (filter (\<lambda>(v, _). v = u) (casts s)))"

end
