(* ===== verification/RailsWorld.thy ===== *)
theory RailsWorld
  imports Rails Machine
begin

text \<open>
  The Rails side in its environment, as a step relation: requests are created, the queued jobs and
  the deliveries of the broker make progress in any order and interleave, messages may be
  delivered any number of times, and the database may fail while items are stored. The
  invariants of every reachable state: keys are unique, links are unique in a feed, broadcasts
  go to the owner, and a request is broadcast at most twice.
\<close>

section \<open>Steps\<close>

definition drop_task :: "nat \<Rightarrow> rails \<Rightarrow> rails" where
  "drop_task i s = s\<lparr>tasks := drop_nth i (tasks s)\<rparr>"

definition add_task :: "task \<Rightarrow> rails \<Rightarrow> rails" where
  "add_task t s = s\<lparr>tasks := tasks s @ [t]\<rparr>"

definition claim_result :: "feed_request \<Rightarrow> result_msg \<Rightarrow> rails \<Rightarrow> rails" where
  "claim_result r m s =
     (case work_claim m s of (Inr True, t) \<Rightarrow> add_task (StoreResult r m) t | (_, t) \<Rightarrow> t)"

inductive rails_step ::
    "rails_env \<Rightarrow> (result_msg \<Rightarrow> bool) \<Rightarrow> (feed_request \<Rightarrow> service_reply \<Rightarrow> bool) \<Rightarrow> rails \<Rightarrow> rails \<Rightarrow> bool"
  for env msgs replies where
  rs_create: "Some job \<notin> rq_job ` set (requests s) \<Longrightarrow> rails_step env msgs replies s (snd (create_feeds user job us s))"
| rs_publish: "i < length (tasks s) \<Longrightarrow> tasks s ! i = Publish rid \<Longrightarrow> r \<in> set (requests s) \<Longrightarrow> rq_id r = rid \<Longrightarrow>
    rails_step env msgs replies s (add_task (MarkProcessing r) (snd (publish_command r (drop_task i s))))"
| rs_fallback: "i < length (tasks s) \<Longrightarrow> tasks s ! i = Publish rid \<Longrightarrow> r \<in> set (requests s) \<Longrightarrow> rq_id r = rid \<Longrightarrow>
    replies r reply \<Longrightarrow> rails_step env msgs replies s (snd (execute_fallback env up reply r (drop_task i s)))"
| rs_mark: "i < length (tasks s) \<Longrightarrow> tasks s ! i = MarkProcessing r \<Longrightarrow>
    rails_step env msgs replies s (snd (mark_processing r (drop_task i s)))"
| rs_deliver: "msgs m \<Longrightarrow> work_find m s = Some r \<Longrightarrow> rails_step env msgs replies s (add_task (ClaimResult r m) s)"
| rs_claim: "i < length (tasks s) \<Longrightarrow> tasks s ! i = ClaimResult r m \<Longrightarrow>
    rails_step env msgs replies s (claim_result r m (drop_task i s))"
| rs_store: "i < length (tasks s) \<Longrightarrow> tasks s ! i = StoreResult r m \<Longrightarrow>
    rails_step env msgs replies s (snd (work_finish env up r m (drop_task i s)))"

inductive_cases rails_stepE: "rails_step env msgs replies s t"

text \<open>What the feed service promises: a result is final, and a fallback that succeeds answers for
  the job it was asked for.\<close>

definition msg_final :: "result_msg \<Rightarrow> bool" where
  "msg_final m \<longleftrightarrow> (\<exists>st. rm_status m = Some st \<and> final_status st)"

definition service_contract :: "(result_msg \<Rightarrow> bool) \<Rightarrow> (feed_request \<Rightarrow> service_reply \<Rightarrow> bool) \<Rightarrow> bool" where
  "service_contract msgs replies \<longleftrightarrow> (\<forall>m. msgs m \<longrightarrow> msg_final m) \<and>
     (\<forall>r m. replies r (Reply 200 (Some m)) \<longrightarrow> rm_job m = rq_job r \<and> msg_final m)"

lemma contract_message: "service_contract msgs replies \<Longrightarrow> msgs m \<Longrightarrow> msg_final m"
  by (simp add: service_contract_def)

lemma contract_reply:
  "service_contract msgs replies \<Longrightarrow> replies r (Reply 200 (Some m)) \<Longrightarrow> rm_job m = rq_job r \<and> msg_final m"
  by (simp add: service_contract_def)

lemma msg_final_status: "msg_final m \<Longrightarrow> rm_status m = Some st \<Longrightarrow> final_status st"
  by (auto simp: msg_final_def)

section \<open>Storing touches only the feeds and their items\<close>

definition request_view :: "rails \<Rightarrow> feed_request list \<times> nat \<times> (nat \<times> cast_msg) list \<times> task list" where
  "request_view s = (requests s, next_request s, casts s, tasks s)"

lemma find_or_create_view: "keeps (\<lambda>s. request_view s = v) (find_or_create_feed url title)"
  by (auto simp: keeps_def find_or_create_feed_def request_view_def split: option.split)

lemma store_view [keeps_rules]: "keeps (\<lambda>s. request_view s = v) (store_groups env up rid gs)"
proof (induction gs)
  case (Cons g gs)
  have "keeps (\<lambda>s. request_view s = v) (store_group env rid g)"
    unfolding store_group_def
    by (intro keeps_rules find_or_create_view; auto simp: keeps_def act_simps request_view_def)
  with Cons show ?case by (simp add: keeps_rules)
qed (simp add: keeps_rules)

lemma store_items_view: "request_view (snd (store_items env up rid items s)) = request_view s"
  unfolding store_items_def by (rule keepsD [OF store_view]) simp

text \<open>Storing throws, and nothing is broadcast, or the message is broadcast once, to the owner.\<close>

definition cast_of :: "feed_request \<Rightarrow> result_msg \<Rightarrow> cast_msg" where
  "cast_of r m = \<lparr>bc_request = rq_id r, bc_status = (case rm_status m of Some st \<Rightarrow> st | None \<Rightarrow> []),
     bc_items = or_empty (rm_items m), bc_errors = or_empty (rm_errors m)\<rparr>"

lemma work_finish_cases:
  obtains e t where "work_finish env up r m s = (Inl e, t)" "request_view t = request_view s"
  | t where "work_finish env up r m s = (Inr (), t)"
      "request_view t = (requests s, next_request s, casts s @ [(rq_user r, cast_of r m)], tasks s)"
proof -
  define st where "st = when_a (or_empty (rm_items m) \<noteq> []) (store_items env up (rq_id r) (or_empty (rm_items m)))"
  have v: "request_view (snd (st s)) = request_view s"
    by (simp add: st_def when_a_def ret_def store_items_view)
  obtain res t where e: "st s = (res, t)" by (cases "st s")
  with v have t: "request_view t = request_view s" by simp
  have w: "work_finish env up r m = seq_a st (broadcast (rq_user r) (cast_of r m))"
    by (simp only: work_finish_def st_def cast_of_def)
  show ?thesis
  proof (cases res)
    case (Inl x)
    with e t that(1) show ?thesis by (simp add: w seq_a_def bind_a_def)
  next
    case (Inr u)
    with e t that(2) show ?thesis by (simp add: w act_simps request_view_def)
  qed
qed

text \<open>A row with another job and status.\<close>

definition rewritten :: "nat \<Rightarrow> jsstr option \<Rightarrow> jsstr \<Rightarrow> feed_request list \<Rightarrow> feed_request list" where
  "rewritten rid job st rs = map (\<lambda>x. if rq_id x = rid then x\<lparr>rq_job := job, rq_status := st\<rparr> else x) rs"

lemma rewritten_again: "rewritten rid job st (rewritten rid job' st' rs) = rewritten rid job st rs"
  by (simp add: rewritten_def)

lemma update_request_view:
  "v \<in> set STATUSES \<Longrightarrow> update_request rid job (Some v) s = (Inr (), s\<lparr>requests := rewritten rid job v (requests s)\<rparr>)"
  by (simp add: update_request_def set_request_def rewritten_def)

lemma failed_status [simp]: "lit ''failed'' \<in> set STATUSES"
  by (simp add: STATUSES_def)

lemma fallback_eq:
  "execute_fallback env up reply r = try_catch
     (case reply of
        NoReply m \<Rightarrow> throw (Failure m)
      | Reply code body \<Rightarrow>
          if code = 200 then
            (case body of
               None \<Rightarrow> throw ParserError
             | Some m \<Rightarrow> seq_a (update_request (rq_id r) (rm_job m) (rm_status m)) (work_finish env up r m))
          else throw (Failure (lit ''Go RSS parser fallback failed with HTTP '' @ digits code)))
     (\<lambda>e. seq_a (update_request (rq_id r) (reply_job r reply) (Some (lit ''failed'')))
       (broadcast (rq_user r)
         \<lparr>bc_request = rq_id r, bc_status = lit ''failed'', bc_items = [],
          bc_errors = [Str (case e of Failure m \<Rightarrow> m | _ \<Rightarrow> error_text env e)]\<rparr>))"
  by (simp only: execute_fallback_def work_finish_def)

text \<open>The part that may throw: nothing is broadcast and at most the row is rewritten, or all is done.\<close>

lemma fallback_cases:
  obtains e t where "execute_fallback env up reply r s =
      seq_a (update_request (rq_id r) (reply_job r reply) (Some (lit ''failed'')))
       (broadcast (rq_user r)
         \<lparr>bc_request = rq_id r, bc_status = lit ''failed'', bc_items = [],
          bc_errors = [Str (case e of Failure m \<Rightarrow> m | _ \<Rightarrow> error_text env e)]\<rparr>) t"
      "request_view t = request_view s \<or>
       (\<exists>j v. request_view t = (rewritten (rq_id r) j v (requests s), next_request s, casts s, tasks s))"
  | m st t where "reply = Reply 200 (Some m)" "rm_status m = Some st" "st \<in> set STATUSES"
      "execute_fallback env up reply r s = (Inr (), t)"
      "request_view t = (rewritten (rq_id r) (rm_job m) st (requests s), next_request s,
         casts s @ [(rq_user r, cast_of r m)], tasks s)"
proof (cases "\<exists>m st. reply = Reply 200 (Some m) \<and> rm_status m = Some st \<and> st \<in> set STATUSES")
  case True
  then obtain m st where m: "reply = Reply 200 (Some m)" "rm_status m = Some st" "st \<in> set STATUSES" by blast
  define u where "u = s\<lparr>requests := rewritten (rq_id r) (rm_job m) st (requests s)\<rparr>"
  have up: "update_request (rq_id r) (rm_job m) (rm_status m) s = (Inr (), u)"
    by (simp add: m(2,3) u_def update_request_view)
  show ?thesis
  proof (cases rule: work_finish_cases [of env up r m u])
    case (1 e t)
    show ?thesis
    proof (rule that(1))
      show "request_view t = request_view s \<or>
         (\<exists>j v. request_view t = (rewritten (rq_id r) j v (requests s), next_request s, casts s, tasks s))"
        using 1(2) by (auto simp: request_view_def u_def)
    qed (simp add: fallback_eq m(1) try_catch_def seq_a_def bind_a_def up 1(1))
  next
    case (2 t)
    show ?thesis
    proof (rule that(2) [OF m])
      show "execute_fallback env up reply r s = (Inr (), t)"
        by (simp add: fallback_eq m(1) try_catch_def seq_a_def bind_a_def up 2(1))
    qed (use 2(2) in \<open>simp add: request_view_def u_def\<close>)
  qed
next
  case False
  have "\<exists>e. (case reply of
        NoReply m \<Rightarrow> throw (Failure m)
      | Reply code body \<Rightarrow>
          if code = 200 then
            (case body of
               None \<Rightarrow> throw ParserError
             | Some m \<Rightarrow> seq_a (update_request (rq_id r) (rm_job m) (rm_status m)) (work_finish env up r m))
          else throw (Failure (lit ''Go RSS parser fallback failed with HTTP '' @ digits code))) s = (Inl e, s)"
  proof (cases reply)
    case (Reply code body)
    show ?thesis
    proof (cases "\<exists>m. code = 200 \<and> body = Some m")
      case True
      then obtain m where m: "code = 200" "body = Some m" by blast
      with False Reply have "update_request (rq_id r) (rm_job m) (rm_status m) s = (Inl RecordInvalid, s)"
        by (auto simp: update_request_def split: option.split)
      with Reply m show ?thesis by (simp add: seq_a_def bind_a_def)
    next
      case False
      with Reply show ?thesis by (cases body) (auto simp: throw_def)
    qed
  qed (simp add: throw_def)
  then obtain e where e: "(case reply of
        NoReply m \<Rightarrow> throw (Failure m)
      | Reply code body \<Rightarrow>
          if code = 200 then
            (case body of
               None \<Rightarrow> throw ParserError
             | Some m \<Rightarrow> seq_a (update_request (rq_id r) (rm_job m) (rm_status m)) (work_finish env up r m))
          else throw (Failure (lit ''Go RSS parser fallback failed with HTTP '' @ digits code))) s = (Inl e, s)" ..
  show ?thesis
    by (rule that(1) [of e s]) (simp_all add: fallback_eq try_catch_def e)
qed

text \<open>The fallback rewrites one row and broadcasts exactly once, whatever the service answers.\<close>

lemma fallback_view:
  "\<exists>job st c. request_view (snd (execute_fallback env up reply r s)) =
      (rewritten (rq_id r) job st (requests s), next_request s, casts s @ [(rq_user r, c)], tasks s) \<and>
    bc_request c = rq_id r \<and> bc_status c = st \<and>
    (st = lit ''failed'' \<and> job = reply_job r reply \<or>
     (\<exists>m. reply = Reply 200 (Some m) \<and> rm_status m = Some st \<and> job = rm_job m))"
proof (cases rule: fallback_cases [of env up reply r s])
  case (1 e t)
  then have "rewritten (rq_id r) j v (requests t) = rewritten (rq_id r) j v (requests s)"
      "next_request t = next_request s" "casts t = casts s" "tasks t = tasks s" for j v
    by (auto simp: request_view_def rewritten_again)
  then show ?thesis
    by (intro exI [of _ "reply_job r reply"])
      (simp add: 1(1) seq_a_def bind_a_def update_request_view broadcast_def modify_def request_view_def)
next
  case (2 m st t)
  then show ?thesis by (auto simp: cast_of_def)
qed

section \<open>Keys and owners\<close>

type_synonym row_key = "nat \<times> nat \<times> jsstr option"

definition key_of_row :: "feed_request \<Rightarrow> row_key" where
  "key_of_row x = (rq_id x, rq_user x, rq_job x)"

definition row_keys :: "rails \<Rightarrow> row_key list" where
  "row_keys s = map key_of_row (requests s)"

fun task_ok :: "row_key set \<Rightarrow> task \<Rightarrow> bool" where
  "task_ok K (Publish rid) = (rid \<in> fst ` K)"
| "task_ok K (MarkProcessing r) = (key_of_row r \<in> K)"
| "task_ok K (ClaimResult r m) = (key_of_row r \<in> K \<and> rm_job m = rq_job r \<and> msg_final m)"
| "task_ok K (StoreResult r m) = (key_of_row r \<in> K \<and> msg_final m)"

definition cast_ok :: "row_key set \<Rightarrow> nat \<times> cast_msg \<Rightarrow> bool" where
  "cast_ok K c \<longleftrightarrow> (\<exists>job. (bc_request (snd c), fst c, job) \<in> K)"

definition orderly :: "rails \<Rightarrow> bool" where
  "orderly s \<longleftrightarrow> distinct (map fst (row_keys s)) \<and> distinct (map (snd \<circ> snd) (row_keys s)) \<and>
     (\<forall>k \<in> set (row_keys s). fst k < next_request s) \<and>
     list_all (task_ok (set (row_keys s))) (tasks s) \<and> list_all (cast_ok (set (row_keys s))) (casts s)"

lemma task_ok_mono: "task_ok K t \<Longrightarrow> K \<subseteq> L \<Longrightarrow> task_ok L t"
  by (cases t) auto

lemma cast_ok_mono: "cast_ok K c \<Longrightarrow> K \<subseteq> L \<Longrightarrow> cast_ok L c"
  by (auto simp: cast_ok_def)

text \<open>A step that keeps the keys only has to account for the tasks and the broadcasts it adds.\<close>

lemma orderly_same:
  assumes "orderly s" "row_keys t = row_keys s" "next_request t = next_request s"
    and "\<And>x. x \<in> set (tasks t) \<Longrightarrow> x \<notin> set (tasks s) \<Longrightarrow> task_ok (set (row_keys s)) x"
    and "\<And>c. c \<in> set (casts t) \<Longrightarrow> c \<notin> set (casts s) \<Longrightarrow> cast_ok (set (row_keys s)) c"
  shows "orderly t"
  using assms unfolding orderly_def list_all_iff by metis

lemma orderly_row:
  assumes "orderly s" "key_of_row r \<in> set (row_keys s)" "x \<in> set (requests s)" "rq_id x = rq_id r"
  shows "key_of_row x = key_of_row r"
proof -
  have "key_of_row x \<in> set (row_keys s)" using assms(3) by (simp add: row_keys_def)
  moreover have "inj_on fst (set (row_keys s))" using assms(1) by (simp add: orderly_def distinct_map)
  ultimately show ?thesis using assms(2,4) by (metis inj_onD fst_conv key_of_row_def)
qed

lemma keys_rewritten:
  assumes "orderly s" "key_of_row r \<in> set (row_keys s)"
  shows "map key_of_row (rewritten (rq_id r) (rq_job r) st (requests s)) = row_keys s"
proof -
  have "key_of_row (if rq_id x = rq_id r then x\<lparr>rq_job := rq_job r, rq_status := st\<rparr> else x) = key_of_row x"
    if "x \<in> set (requests s)" for x
    using orderly_row [OF assms that] by (simp add: key_of_row_def)
  then show ?thesis by (simp add: row_keys_def rewritten_def)
qed

lemma keys_set_status: "row_keys (set_request p (\<lambda>x. x\<lparr>rq_status := st\<rparr>) s) = row_keys s"
  by (simp add: row_keys_def set_request_def key_of_row_def comp_def)

lemma task_in_drop: "x \<in> set (drop_nth i xs) \<Longrightarrow> x \<in> set xs"
  by (rule subsetD [OF set_drop_nth])

lemma orderly_task: "orderly s \<Longrightarrow> i < length (tasks s) \<Longrightarrow> task_ok (set (row_keys s)) (tasks s ! i)"
  by (simp add: orderly_def list_all_length)

section \<open>The weight of a request\<close>

text \<open>Its broadcasts, the tasks that may still broadcast or reopen it, and one while it is open.\<close>

fun works_on :: "nat \<Rightarrow> task \<Rightarrow> bool" where
  "works_on rid (Publish rid') = (rid' = rid)"
| "works_on rid (MarkProcessing r) = (rq_id r = rid)"
| "works_on rid (ClaimResult r m) = False"
| "works_on rid (StoreResult r m) = (rq_id r = rid)"

definition cast_count :: "nat \<Rightarrow> rails \<Rightarrow> nat" where
  "cast_count rid s = length (filter (\<lambda>c. bc_request (snd c) = rid) (casts s))"

definition task_count :: "nat \<Rightarrow> rails \<Rightarrow> nat" where
  "task_count rid s = length (filter (works_on rid) (tasks s))"

definition is_open :: "nat \<Rightarrow> rails \<Rightarrow> bool" where
  "is_open rid s \<longleftrightarrow> (\<exists>r \<in> set (requests s). rq_id r = rid \<and> open_status (rq_status r))"

definition weight :: "nat \<Rightarrow> rails \<Rightarrow> nat" where
  "weight rid s = cast_count rid s + task_count rid s + of_bool (is_open rid s)"

lemma task_count_drop:
  "i < length (tasks s) \<Longrightarrow> task_count rid s = task_count rid (drop_task i s) + of_bool (works_on rid (tasks s ! i))"
  by (simp add: task_count_def drop_task_def filter_drop_nth)

lemma drop_task_simps [simp]:
  "requests (drop_task i s) = requests s" "casts (drop_task i s) = casts s"
  "next_request (drop_task i s) = next_request s" "tasks (drop_task i s) = drop_nth i (tasks s)"
  "row_keys (drop_task i s) = row_keys s" "cast_count rid (drop_task i s) = cast_count rid s"
  "is_open rid (drop_task i s) = is_open rid s"
  by (simp_all add: drop_task_def row_keys_def cast_count_def is_open_def)

lemma add_task_simps [simp]:
  "requests (add_task x s) = requests s" "casts (add_task x s) = casts s"
  "next_request (add_task x s) = next_request s" "tasks (add_task x s) = tasks s @ [x]"
  "row_keys (add_task x s) = row_keys s" "cast_count rid (add_task x s) = cast_count rid s"
  "is_open rid (add_task x s) = is_open rid s"
  "task_count rid (add_task x s) = task_count rid s + of_bool (works_on rid x)"
  by (simp_all add: add_task_def row_keys_def cast_count_def is_open_def task_count_def)

lemma final_not_open: "final_status st \<Longrightarrow> \<not> open_status st"
  by (auto simp: final_status_def open_status_def)

text \<open>What is known of a state by its view.\<close>

lemma view_simps:
  assumes "request_view t = (rs, n, cs, ts)"
  shows "requests t = rs" "next_request t = n" "casts t = cs" "tasks t = ts"
    "row_keys t = map key_of_row rs" "cast_count rid t = length (filter (\<lambda>c. bc_request (snd c) = rid) cs)"
    "task_count rid t = length (filter (works_on rid) ts)"
    "is_open rid t \<longleftrightarrow> (\<exists>r \<in> set rs. rq_id r = rid \<and> open_status (rq_status r))"
  using assms by (auto simp: request_view_def row_keys_def cast_count_def task_count_def is_open_def)

definition kept :: "rails \<Rightarrow> rails \<Rightarrow> bool" where
  "kept s t \<longleftrightarrow> orderly t \<and> (\<forall>rid. weight rid t \<le> weight rid s)"

section \<open>The steps one by one\<close>

lemma fallback_kept:
  assumes "orderly s" "i < length (tasks s)" "tasks s ! i = Publish (rq_id r)" "r \<in> set (requests s)"
    and "service_contract msgs replies" "replies r reply"
  shows "kept s (snd (execute_fallback env up reply r (drop_task i s)))"
proof -
  define t where "t = snd (execute_fallback env up reply r (drop_task i s))"
  have k: "key_of_row r \<in> set (row_keys s)" using assms(4) by (simp add: row_keys_def)
  from fallback_view [of env up reply r "drop_task i s"] obtain job st c where
    v: "request_view t = (rewritten (rq_id r) job st (requests s), next_request s,
        casts s @ [(rq_user r, c)], drop_nth i (tasks s))"
    and c: "bc_request c = rq_id r"
    and st: "st = lit ''failed'' \<and> job = reply_job r reply \<or>
       (\<exists>m. reply = Reply 200 (Some m) \<and> rm_status m = Some st \<and> job = rm_job m)"
    unfolding t_def by auto
  have job: "job = rq_job r \<and> final_status st"
  proof (cases "\<exists>m. reply = Reply 200 (Some m) \<and> rm_status m = Some st \<and> job = rm_job m")
    case True
    then obtain m where m: "reply = Reply 200 (Some m)" "rm_status m = Some st" "job = rm_job m" by blast
    with contract_reply [OF assms(5), of r m] assms(6) msg_final_status [of m st] show ?thesis by simp
  next
    case False
    with st have "st = lit ''failed''" "job = reply_job r reply" by auto
    moreover have "reply_job r reply = rq_job r"
      using contract_reply [OF assms(5), of r] assms(6)
      by (auto simp: reply_job_def split: service_reply.split option.split)
    ultimately show ?thesis by (simp add: final_status_def)
  qed
  have keys: "row_keys t = row_keys s"
    using keys_rewritten [OF assms(1) k] job by (simp add: view_simps(5) [OF v])
  have "orderly t"
  proof (rule orderly_same [OF assms(1) keys])
    show "cast_ok (set (row_keys s)) x" if "x \<in> set (casts t)" "x \<notin> set (casts s)" for x
      using that k c by (auto simp: view_simps [OF v] cast_ok_def key_of_row_def)
  qed (auto simp: view_simps [OF v] dest: task_in_drop)
  moreover have "weight rid t \<le> weight rid s" for rid
  proof -
    have "is_open rid t \<Longrightarrow> is_open rid s"
      using job final_not_open by (auto simp: view_simps [OF v] is_open_def rewritten_def split: if_splits)
    moreover have "task_count rid s = task_count rid t + of_bool (rq_id r = rid)"
      using task_count_drop [OF assms(2), of rid] assms(3) by (simp add: view_simps [OF v] task_count_def)
    moreover have "cast_count rid t = cast_count rid s + of_bool (rq_id r = rid)"
      by (simp add: view_simps [OF v] cast_count_def c)
    ultimately show ?thesis by (simp add: weight_def)
  qed
  ultimately show ?thesis by (simp add: kept_def t_def)
qed

lemma publish_kept:
  assumes "orderly s" "i < length (tasks s)" "tasks s ! i = Publish (rq_id r)" "r \<in> set (requests s)"
  shows "kept s (add_task (MarkProcessing r) (snd (publish_command r (drop_task i s))))"
proof -
  define u where "u = snd (publish_command r (drop_task i s))"
  have v: "request_view u = (requests s, next_request s, casts s, drop_nth i (tasks s))"
    by (simp add: u_def publish_command_def modify_def request_view_def)
  have k: "key_of_row r \<in> set (row_keys s)" using assms(4) by (simp add: row_keys_def)
  have "orderly (add_task (MarkProcessing r) u)"
    by (rule orderly_same [OF assms(1)])
      (use k in \<open>auto simp: view_simps [OF v] row_keys_def dest: task_in_drop\<close>)
  moreover have "weight rid (add_task (MarkProcessing r) u) \<le> weight rid s" for rid
    using task_count_drop [OF assms(2), of rid] assms(3)
    by (simp add: weight_def view_simps [OF v] task_count_def cast_count_def is_open_def)
  ultimately show ?thesis by (simp add: kept_def u_def)
qed

lemma mark_kept:
  assumes "orderly s" "i < length (tasks s)" "tasks s ! i = MarkProcessing r"
  shows "kept s (snd (mark_processing r (drop_task i s)))"
proof -
  define t where "t = snd (mark_processing r (drop_task i s))"
  have t: "row_keys t = row_keys s" "next_request t = next_request s" "casts t = casts s"
    "tasks t = drop_nth i (tasks s)"
    using keys_set_status [of "\<lambda>x. rq_id x = rq_id r" "lit ''processing''" "drop_task i s"]
    by (simp_all add: t_def mark_processing_def modify_def set_request_def)
  have o: "is_open rid t \<Longrightarrow> is_open rid s \<or> rq_id r = rid" for rid
    by (auto simp: t_def mark_processing_def modify_def set_request_def is_open_def split: if_splits)
  have "orderly t"
    by (rule orderly_same [OF assms(1) t(1,2)]) (auto simp: t dest: task_in_drop)
  moreover have "weight rid t \<le> weight rid s" for rid
  proof -
    have "task_count rid s = task_count rid t + of_bool (rq_id r = rid)" "cast_count rid t = cast_count rid s"
      using task_count_drop [OF assms(2), of rid] assms(3) by (simp_all add: t task_count_def cast_count_def)
    with o [of rid] show ?thesis by (auto simp: weight_def)
  qed
  ultimately show ?thesis by (simp add: kept_def t_def)
qed

lemma work_find_row:
  assumes "work_find m s = Some r"
  shows "r \<in> set (requests s)" "rq_job r = rm_job m" "\<not> final_status (rq_status r)"
proof -
  from assms have f: "find (\<lambda>r. rq_job r = rm_job m) (requests s) = Some r"
    and st: "\<not> final_status (rq_status r)"
    by (auto simp: work_find_def final_status_def split: option.splits if_splits)
  from f show "r \<in> set (requests s)" "rq_job r = rm_job m" by (auto simp: find_Some_iff)
  show "\<not> final_status (rq_status r)" by (rule st)
qed

lemma deliver_kept:
  assumes "orderly s" "msg_final m" "work_find m s = Some r"
  shows "kept s (add_task (ClaimResult r m) s)"
proof -
  note r = work_find_row [OF assms(3)]
  have "orderly (add_task (ClaimResult r m) s)"
    by (rule orderly_same [OF assms(1)]) (use r assms(2) in \<open>auto simp: row_keys_def\<close>)
  then show ?thesis by (simp add: kept_def weight_def)
qed

text \<open>The claim changes exactly the row of the request that was found.\<close>

lemma claim_row:
  assumes "orderly s" "key_of_row r \<in> set (row_keys s)" "x \<in> set (requests s)" "rq_job x = rq_job r"
  shows "rq_id x = rq_id r"
proof -
  have "key_of_row x \<in> set (row_keys s)" using assms(3) by (simp add: row_keys_def)
  moreover have "inj_on (snd \<circ> snd) (set (row_keys s))" using assms(1) by (simp add: orderly_def distinct_map)
  ultimately have "key_of_row x = key_of_row r"
    using assms(2,4) by (metis inj_onD comp_apply snd_conv key_of_row_def)
  then show ?thesis by (simp add: key_of_row_def)
qed

lemma claim_kept:
  assumes "orderly s" "i < length (tasks s)" "tasks s ! i = ClaimResult r m"
  shows "kept s (claim_result r m (drop_task i s))"
proof -
  from orderly_task [OF assms(1,2)] assms(3)
  have k: "key_of_row r \<in> set (row_keys s)" "rm_job m = rq_job r" "msg_final m" by simp_all
  then obtain st where st: "rm_status m = Some st" "final_status st" by (auto simp: msg_final_def)
  have d: "weight rid (drop_task i s) = weight rid s" "orderly (drop_task i s)" for rid
  proof -
    show "weight rid (drop_task i s) = weight rid s"
      using task_count_drop [OF assms(2), of rid] assms(3) by (simp add: weight_def)
    show "orderly (drop_task i s)" by (rule orderly_same [OF assms(1)]) (auto dest: task_in_drop)
  qed
  show ?thesis
  proof (cases "\<exists>x \<in> set (requests s). rq_job x = rm_job m \<and> open_status (rq_status x)")
    case False
    then have "claim_result r m (drop_task i s) = drop_task i s"
      by (auto simp: claim_result_def work_claim_def)
    with d show ?thesis by (simp add: kept_def)
  next
    case True
    define u where "u = set_request (\<lambda>x. rq_job x = rm_job m \<and> open_status (rq_status x)) (\<lambda>x. x\<lparr>rq_status := st\<rparr>)
        (drop_task i s)"
    have c: "claim_result r m (drop_task i s) = add_task (StoreResult r m) u"
      using True st(1) by (simp add: claim_result_def work_claim_def u_def)
    have u: "row_keys u = row_keys s" "next_request u = next_request s" "casts u = casts s"
      "tasks u = drop_nth i (tasks s)"
      using keys_set_status [of _ st "drop_task i s"] by (simp_all add: u_def) (simp_all add: set_request_def)
    have "orderly (add_task (StoreResult r m) u)"
      by (rule orderly_same [OF assms(1)]) (use k u in \<open>auto dest: task_in_drop\<close>)
    moreover have "weight rid (add_task (StoreResult r m) u) \<le> weight rid s" for rid
    proof -
      have tc: "task_count rid u = task_count rid s" "cast_count rid u = cast_count rid s"
        using task_count_drop [OF assms(2), of rid] assms(3) by (simp_all add: u task_count_def cast_count_def)
      have o: "is_open rid u \<Longrightarrow> is_open rid s"
        using final_not_open [OF st(2)]
        by (auto simp: u_def is_open_def set_request_def split: if_splits)
      have "is_open rid s \<and> \<not> is_open rid u" if r: "rq_id r = rid"
      proof
        from True k(2) claim_row [OF assms(1) k(1)] r show "is_open rid s" by (auto simp: is_open_def)
        have "rq_job x = rm_job m" if "x \<in> set (requests s)" "rq_id x = rid" for x
          using orderly_row [OF assms(1) k(1) that(1)] that(2) r k(2) by (simp add: key_of_row_def)
        with final_not_open [OF st(2)] show "\<not> is_open rid u"
          by (auto simp: u_def is_open_def set_request_def split: if_splits)
      qed
      with o tc show ?thesis by (auto simp: weight_def)
    qed
    ultimately show ?thesis by (simp add: kept_def c)
  qed
qed

lemma store_kept:
  assumes "orderly s" "i < length (tasks s)" "tasks s ! i = StoreResult r m"
  shows "kept s (snd (work_finish env up r m (drop_task i s)))"
proof -
  from orderly_task [OF assms(1,2)] assms(3) have k: "key_of_row r \<in> set (row_keys s)" by simp
  define t where "t = snd (work_finish env up r m (drop_task i s))"
  obtain cs where cs: "cs = [] \<or> cs = [(rq_user r, cast_of r m)]"
    and v: "request_view t = (requests s, next_request s, casts s @ cs, drop_nth i (tasks s))"
  proof (cases rule: work_finish_cases [of env up r m "drop_task i s"])
    case (1 e u)
    with that [of "[]"] show ?thesis by (simp add: t_def request_view_def)
  next
    case (2 u)
    with that [of "[(rq_user r, cast_of r m)]"] show ?thesis by (simp add: t_def)
  qed
  have keys: "row_keys t = row_keys s" by (simp add: view_simps [OF v] row_keys_def)
  have "orderly t"
  proof (rule orderly_same [OF assms(1) keys])
    show "cast_ok (set (row_keys s)) x" if "x \<in> set (casts t)" "x \<notin> set (casts s)" for x
      using that k cs by (auto simp: view_simps [OF v] cast_ok_def key_of_row_def cast_of_def)
  qed (auto simp: view_simps [OF v] dest: task_in_drop)
  moreover have "weight rid t \<le> weight rid s" for rid
    using task_count_drop [OF assms(2), of rid] assms(3) cs
    by (auto simp: weight_def view_simps [OF v] task_count_def cast_count_def is_open_def cast_of_def)
  ultimately show ?thesis by (simp add: kept_def t_def)
qed

text \<open>A new request has weight two: its job, and itself while it is open.\<close>

definition bounded :: "rails \<Rightarrow> bool" where
  "bounded s \<longleftrightarrow> (\<forall>rid. weight rid s \<le> 2)"

lemma fresh_weight:
  assumes "orderly s" "next_request s \<le> rid"
  shows "weight rid s = 0"
proof -
  have id: "rid \<notin> fst ` set (row_keys s)" using assms by (force simp: orderly_def)
  have "\<not> works_on rid x" if "x \<in> set (tasks s)" for x
  proof -
    from assms(1) that have "task_ok (set (row_keys s)) x" by (simp add: orderly_def list_all_iff)
    with id show ?thesis by (cases x) (force simp: key_of_row_def)+
  qed
  moreover have "bc_request (snd c) \<noteq> rid" if "c \<in> set (casts s)" for c
  proof -
    from assms(1) that have "cast_ok (set (row_keys s)) c" by (simp add: orderly_def list_all_iff)
    with id show ?thesis by (force simp: cast_ok_def)
  qed
  moreover have "rq_id r \<noteq> rid" if "r \<in> set (requests s)" for r
    using that id by (force simp: row_keys_def key_of_row_def)
  ultimately show ?thesis
    by (auto simp: weight_def cast_count_def task_count_def is_open_def filter_empty_conv)
qed

lemma create_ok:
  assumes "orderly s" "bounded s" "Some job \<notin> rq_job ` set (requests s)"
  shows "orderly (snd (create_feeds user job us s)) \<and> bounded (snd (create_feeds user job us s))"
proof (cases "\<exists>xs. us = Urls xs \<and> xs \<noteq> []")
  case False
  then have "snd (create_feeds user job us s) = s" by (auto simp: create_feeds_def split: urls_param.split)
  with assms show ?thesis by simp
next
  case True
  then obtain xs where xs: "us = Urls xs" "xs \<noteq> []" by blast
  define n where "n = next_request s"
  define t where "t = snd (create_feeds user job us s)"
  have t: "row_keys t = row_keys s @ [(n, user, Some job)]" "next_request t = Suc n"
    "casts t = casts s" "tasks t = tasks s @ [Publish n]"
    "\<exists>r. requests t = requests s @ [r] \<and> rq_id r = n"
    using xs by (simp_all add: t_def create_feeds_def row_keys_def key_of_row_def n_def)
  have sub: "set (row_keys s) \<subseteq> set (row_keys t)" by (auto simp: t)
  have "orderly t"
    unfolding orderly_def
  proof (intro conjI)
    show "distinct (map fst (row_keys t))" using assms(1) by (auto simp: orderly_def t n_def)
    show "distinct (map (snd \<circ> snd) (row_keys t))"
    proof -
      have "Some job \<notin> (snd \<circ> snd) ` set (row_keys s)"
        using assms(3) by (auto simp: row_keys_def key_of_row_def)
      with assms(1) show ?thesis by (simp add: orderly_def t)
    qed
    show "\<forall>k \<in> set (row_keys t). fst k < next_request t" using assms(1) by (auto simp: orderly_def t n_def)
    show "list_all (task_ok (set (row_keys t))) (tasks t)"
      using assms(1) task_ok_mono [OF _ sub] by (auto simp: orderly_def list_all_iff t)
    show "list_all (cast_ok (set (row_keys t))) (casts t)"
      using assms(1) cast_ok_mono [OF _ sub] by (auto simp: orderly_def list_all_iff t)
  qed
  moreover have "weight rid t \<le> 2" for rid
  proof -
    have "weight rid t \<le> weight rid s + (if rid = n then 2 else 0)"
      using t by (auto simp: weight_def cast_count_def task_count_def is_open_def)
    moreover have "weight rid s \<le> 2" using assms(2) by (simp add: bounded_def)
    moreover have "weight n s = 0" by (rule fresh_weight [OF assms(1)]) (simp add: n_def)
    ultimately show ?thesis by (cases "rid = n") simp_all
  qed
  ultimately show ?thesis by (simp add: bounded_def t_def)
qed

lemma kept_bounded: "kept s t \<Longrightarrow> bounded s \<Longrightarrow> orderly t \<and> bounded t"
  using order_trans by (fastforce simp: kept_def bounded_def)

lemma rails_step_ok:
  assumes "service_contract msgs replies" "orderly s" "bounded s" "rails_step env msgs replies s t"
  shows "orderly t \<and> bounded t"
  using assms(4)
proof (cases rule: rails_step.cases)
  case (rs_create job user us)
  with create_ok [OF assms(2,3)] show ?thesis by simp
next
  case (rs_publish i rid r)
  with publish_kept [OF assms(2)] kept_bounded assms(3) show ?thesis by blast
next
  case (rs_fallback i rid r reply up)
  with fallback_kept [OF assms(2) _ _ _ assms(1)] kept_bounded assms(3) show ?thesis by blast
next
  case (rs_mark i r)
  with mark_kept [OF assms(2)] kept_bounded assms(3) show ?thesis by blast
next
  case (rs_deliver m r)
  with deliver_kept [OF assms(2) contract_message [OF assms(1)]] kept_bounded assms(3) show ?thesis by blast
next
  case (rs_claim i r m)
  with claim_kept [OF assms(2)] kept_bounded assms(3) show ?thesis by blast
next
  case (rs_store i r m up)
  with store_kept [OF assms(2)] kept_bounded assms(3) show ?thesis by blast
qed

lemma rails_init_ok: "orderly rails_init" "bounded rails_init"
  by (simp_all add: rails_init_def orderly_def bounded_def row_keys_def weight_def cast_count_def task_count_def is_open_def)

interpretation rails: inductive_invariant "\<lambda>s. s = rails_init"
    "\<lambda>s t. service_contract msgs replies \<and> rails_step env msgs replies s t" "\<lambda>s. orderly s \<and> bounded s"
  using rails_init_ok rails_step_ok by unfold_locales blast+

section \<open>Unique rows\<close>

definition unique_links :: "stored_item list \<Rightarrow> bool" where
  "unique_links xs \<longleftrightarrow> distinct (map (\<lambda>i. (si_feed i, si_link i)) (filter (\<lambda>i. si_link i \<noteq> None) xs))"

definition tables_ok :: "rails \<Rightarrow> bool" where
  "tables_ok s \<longleftrightarrow> distinct (map fd_url (feed_table s)) \<and> distinct (map fd_id (feed_table s)) \<and>
     (\<forall>f \<in> set (feed_table s). fd_id f < next_feed s \<and> \<not> blank (fd_url f)) \<and>
     distinct (request_feeds s) \<and> unique_links (item_table s) \<and>
     (\<forall>i \<in> set (item_table s). si_feed i \<in> fd_id ` set (feed_table s)) \<and>
     (\<forall>l \<in> set (request_feeds s). snd l \<in> fd_id ` set (feed_table s))"

lemma insert_item_unique: "unique_links xs \<Longrightarrow> unique_links (insert_item i xs)"
  by (auto simp: unique_links_def insert_item_def)

lemma insert_all_unique: "unique_links xs \<Longrightarrow> unique_links (insert_all new xs)"
  by (induction new arbitrary: xs) (simp_all add: insert_all_def insert_item_unique)

lemma insert_all_set: "set xs \<subseteq> set (insert_all new xs)" "set (insert_all new xs) \<subseteq> set xs \<union> set new"
proof (induction new arbitrary: xs)
  case (Cons i new)
  case 1
  from Cons(1) [of "insert_item i xs"] show ?case by (auto simp: insert_all_def insert_item_def split: if_splits)
  case 2
  from Cons(2) [of "insert_item i xs"] show ?case by (auto simp: insert_all_def insert_item_def split: if_splits)
qed (simp_all add: insert_all_def)

lemma find_or_create_ok:
  assumes "tables_ok s" "find_or_create_feed url title s = (Inr fid, t)"
  shows "tables_ok t \<and> fid \<in> fd_id ` set (feed_table t)"
proof -
  from assms(2) obtain u where u: "url = Some u" by (auto simp: find_or_create_feed_def split: option.splits)
  show ?thesis
  proof (cases "find (\<lambda>f. fd_url f = u) (feed_table s)")
    case None
    then have n: "u \<notin> fd_url ` set (feed_table s)" by (auto simp: find_None_iff)
    from None assms(2) u have t: "\<not> blank u" "fid = next_feed s"
      "t = s\<lparr>feed_table := feed_table s @ [\<lparr>fd_id = next_feed s, fd_url = u, fd_title = title\<rparr>],
         next_feed := Suc (next_feed s)\<rparr>"
      by (auto simp: find_or_create_feed_def split: if_splits)
    have "next_feed s \<notin> fd_id ` set (feed_table s)" using assms(1) by (auto simp: tables_ok_def)
    with t n assms(1) show ?thesis by (simp add: tables_ok_def less_SucI)
  next
    case (Some f)
    then have "f \<in> set (feed_table s)" by (auto simp: find_Some_iff)
    with Some assms u show ?thesis by (auto simp: find_or_create_feed_def)
  qed
qed

lemma store_group_ok: "keeps tables_ok (store_group env rid g)"
  unfolding keeps_def
proof (intro allI impI)
  fix s assume s: "tables_ok s"
  obtain res t where f: "find_or_create_feed (fst g) (source_name (snd g)) s = (res, t)" by fastforce
  show "tables_ok (snd (store_group env rid g s))"
  proof (cases res)
    case (Inl e)
    with f s show ?thesis
      by (auto simp: store_group_def bind_a_def find_or_create_feed_def split: option.splits if_splits)
  next
    case (Inr fid)
    have t: "tables_ok t" "fid \<in> fd_id ` set (feed_table t)"
      using find_or_create_ok [OF s f [unfolded Inr]] by simp_all
    define new where "new = map (item_attributes env fid) (snd g)"
    define u where "u = (if (rid, fid) \<in> set (request_feeds t) then t
      else t\<lparr>request_feeds := request_feeds t @ [(rid, fid)]\<rparr>)"
    have u: "tables_ok u" "feed_table u = feed_table t" using t by (auto simp: u_def tables_ok_def)
    have "si_feed i \<in> fd_id ` set (feed_table u)" if "i \<in> set (insert_all new (item_table u))" for i
    proof -
      from that insert_all_set(2) [of new "item_table u"] consider "i \<in> set (item_table u)" | "i \<in> set new" by blast
      then show ?thesis
        by cases (use u t(2) in \<open>auto simp: tables_ok_def new_def item_attributes_def\<close>)
    qed
    with u(1) have "tables_ok (u\<lparr>item_table := insert_all new (item_table u)\<rparr>)"
      by (simp add: tables_ok_def insert_all_unique)
    moreover have "store_group env rid g s = (Inr (), u\<lparr>item_table := insert_all new (item_table u)\<rparr>)"
      using f Inr by (simp add: store_group_def act_simps u_def new_def)
    ultimately show ?thesis by simp
  qed
qed

lemma tables_frame: "tables_ok s \<Longrightarrow> feed_table t = feed_table s \<Longrightarrow> next_feed t = next_feed s \<Longrightarrow>
    request_feeds t = request_feeds s \<Longrightarrow> item_table t = item_table s \<Longrightarrow> tables_ok t"
  by (simp add: tables_ok_def)

lemma store_groups_ok: "keeps tables_ok (store_groups env up rid gs)"
  by (induction gs) (auto intro!: keeps_rules store_group_ok)

lemma finish_ok: "keeps tables_ok (work_finish env up r m)"
  unfolding work_finish_def store_items_def
  by (intro keeps_rules store_groups_ok) (auto simp: keeps_def act_simps tables_ok_def)

lemma update_request_ok: "keeps tables_ok (update_request rid job st)"
  by (auto simp: keeps_def update_request_def set_request_def tables_ok_def split: option.split)

lemma fallback_ok: "keeps tables_ok (execute_fallback env up reply r)"
proof -
  have b: "keeps tables_ok (broadcast u m)" for u m by (auto simp: keeps_def act_simps tables_ok_def)
  show ?thesis
    unfolding fallback_eq
    by (cases reply) (auto intro!: keeps_rules update_request_ok finish_ok b split: option.split)
qed

lemma rails_step_tables:
  assumes "tables_ok s" "rails_step env msgs replies s t"
  shows "tables_ok t"
proof -
  have d: "tables_ok (drop_task i s)" for i by (rule tables_frame [OF assms(1)]) (simp_all add: drop_task_def)
  from assms(2) show ?thesis
  proof (cases rule: rails_step.cases)
    case (rs_create job user us)
    show ?thesis
      unfolding rs_create(1) by (rule tables_frame [OF assms(1)])
        (auto simp: create_feeds_def split: urls_param.split)
  next
    case (rs_publish i rid r)
    show ?thesis
      unfolding rs_publish(1) by (rule tables_frame [OF assms(1)])
        (simp_all add: publish_command_def modify_def add_task_def drop_task_def)
  next
    case (rs_fallback i rid r reply up)
    show ?thesis unfolding rs_fallback(1) by (rule keepsD [OF fallback_ok d])
  next
    case (rs_mark i r)
    show ?thesis
      unfolding rs_mark(1) by (rule tables_frame [OF assms(1)])
        (simp_all add: mark_processing_def modify_def set_request_def drop_task_def)
  next
    case (rs_deliver m r)
    show ?thesis unfolding rs_deliver(1) by (rule tables_frame [OF assms(1)]) (simp_all add: add_task_def)
  next
    case (rs_claim i r m)
    show ?thesis
      unfolding rs_claim(1) by (rule tables_frame [OF assms(1)])
        (auto simp: claim_result_def work_claim_def set_request_def add_task_def drop_task_def
          split: option.split)
  next
    case (rs_store i r m up)
    show ?thesis unfolding rs_store(1) by (rule keepsD [OF finish_ok d])
  qed
qed

interpretation tables: inductive_invariant "\<lambda>s. s = rails_init" "rails_step env msgs replies" tables_ok
proof unfold_locales
  show "s = rails_init \<Longrightarrow> tables_ok s" for s by (simp add: rails_init_def tables_ok_def unique_links_def)
  show "tables_ok s \<Longrightarrow> rails_step env msgs replies s t \<Longrightarrow> tables_ok t" for s t by (rule rails_step_tables)
qed

end
