(* ===== verification/RailsFacts.thy ===== *)
theory RailsFacts
  imports RailsWorld JsonRound
begin

text \<open>
  What storing a result leaves behind: rows are only added, every item of a stored group is there,
  and its feed is linked to the request. Deliveries of a result, one after the other.
\<close>

section \<open>Rows are only added\<close>

definition grew :: "rails \<Rightarrow> rails \<Rightarrow> bool" where
  "grew s t \<longleftrightarrow> set (feed_table s) \<subseteq> set (feed_table t) \<and> set (request_feeds s) \<subseteq> set (request_feeds t) \<and>
     set (item_table s) \<subseteq> set (item_table t)"

lemma grew_refl: "grew s s"
  by (simp add: grew_def)

lemma grew_store_group: "keeps (grew s) (store_group env rid g)"
proof -
  have f: "keeps (grew s) (find_or_create_feed url title)" for url title
    by (auto simp: keeps_def find_or_create_feed_def grew_def split: option.split)
  have l: "keeps (grew s) (link_feed rid fid)" for fid
    by (auto simp: keeps_def act_simps grew_def)
  have i: "keeps (grew s) (modify (\<lambda>t. t\<lparr>item_table := insert_all new (item_table t)\<rparr>))" for new
    using insert_all_set(1) by (fastforce simp: keeps_def modify_def grew_def)
  show ?thesis unfolding store_group_def by (intro keeps_bind keeps_seq f l i)
qed

lemma grew_store: "keeps (grew s) (store_groups env up rid gs)"
  by (induction gs) (auto intro!: keeps_rules grew_store_group)

section \<open>What a stored group leaves\<close>

lemma insert_all_has:
  "i \<in> set new \<Longrightarrow> si_link i = Some l \<Longrightarrow>
   \<exists>x \<in> set (insert_all new xs). si_feed x = si_feed i \<and> si_link x = Some l"
proof (induction new arbitrary: xs)
  case (Cons j new)
  show ?case
  proof (cases "i = j")
    case True
    then have "\<exists>x \<in> set (insert_item j xs). si_feed x = si_feed i \<and> si_link x = Some l"
      using Cons.prems(2) by (auto simp: insert_item_def)
    then show ?thesis using insert_all_set(1) [of "insert_item j xs" new] by (auto simp: insert_all_def)
  next
    case False
    with Cons show ?thesis by (simp add: insert_all_def)
  qed
qed simp

definition stored :: "nat \<Rightarrow> jsstr \<Rightarrow> jsstr \<Rightarrow> rails \<Rightarrow> bool" where
  "stored rid u l s \<longleftrightarrow>
     (\<exists>f \<in> set (feed_table s). fd_url f = u \<and> (rid, fd_id f) \<in> set (request_feeds s) \<and>
        (\<exists>i \<in> set (item_table s). si_feed i = fd_id f \<and> si_link i = Some l))"

lemma stored_grew: "stored rid u l s \<Longrightarrow> grew s t \<Longrightarrow> stored rid u l t"
  unfolding stored_def grew_def by blast

lemma find_or_create_url:
  assumes "find_or_create_feed (Some u) title s = (Inr fid, t)"
  shows "\<exists>f \<in> set (feed_table t). fd_url f = u \<and> fd_id f = fid"
  using assms by (auto simp: find_or_create_feed_def find_Some_iff split: option.splits if_splits)

lemma store_group_has:
  assumes "store_group env rid (Some u, its) s = (Inr (), t)" "item \<in> set its" "field ''link'' item = Some l"
  shows "stored rid u l t"
proof -
  obtain fid v where v: "find_or_create_feed (Some u) (source_name its) s = (Inr fid, v)"
    using assms(1) by (cases "find_or_create_feed (Some u) (source_name its) s" rule: prod.exhaust)
      (auto simp: store_group_def bind_a_def split: sum.splits)
  then obtain f where f: "f \<in> set (feed_table v)" "fd_url f = u" "fd_id f = fid"
    using find_or_create_url by blast
  define new where "new = map (item_attributes env fid) its"
  have "item_attributes env fid item \<in> set new" using assms(2) by (simp add: new_def)
  moreover have "si_link (item_attributes env fid item) = Some l" "si_feed (item_attributes env fid item) = fid"
    using assms(3) by (simp_all add: item_attributes_def)
  ultimately have "\<exists>x \<in> set (insert_all new xs). si_feed x = fid \<and> si_link x = Some l" for xs
    using insert_all_has by metis
  moreover have "feed_table t = feed_table v" "(rid, fid) \<in> set (request_feeds t)"
    "\<exists>xs. item_table t = insert_all new xs"
    using assms(1) v by (auto simp: store_group_def act_simps new_def split: if_splits)
  ultimately show ?thesis using f unfolding stored_def by metis
qed

lemma store_groups_has:
  assumes "store_groups env up rid gs s = (Inr (), t)" "(Some u, its) \<in> set gs" "item \<in> set its"
    and "field ''link'' item = Some l"
  shows "stored rid u l t"
  using assms(1,2)
proof (induction gs arbitrary: s)
  case (Cons g gs)
  from Cons.prems(1) obtain v where v: "store_group env rid g s = (Inr (), v)"
      "store_groups env up rid gs v = (Inr (), t)"
    by (auto simp: seq_a_def bind_a_def throw_def split: if_splits prod.splits sum.splits)
  show ?case
  proof (cases "(Some u, its) = g")
    case True
    with store_group_has v(1) assms(3,4) have "stored rid u l v" by blast
    moreover have "grew v t" using keepsD [OF grew_store grew_refl] v(2) by (metis snd_conv)
    ultimately show ?thesis by (rule stored_grew)
  next
    case False
    with Cons v(2) show ?thesis by simp
  qed
qed simp

lemma group_by_has: "x \<in> set xs \<Longrightarrow> (f x, filter (\<lambda>y. f y = f x) xs) \<in> set (group_by f xs)"
  by (auto simp: group_by_def)

lemma store_items_has:
  assumes "store_items env up rid items s = (Inr (), t)" "item \<in> set items"
    and "field ''source_url'' item = Some u" "field ''link'' item = Some l"
  shows "stored rid u l t"
  using assms(1) group_by_has [OF assms(2), of "field ''source_url''"] assms(2-4)
  by (intro store_groups_has [of env up rid "group_by (field ''source_url'') items" s t u
        "filter (\<lambda>y. field ''source_url'' y = Some u) items" item l])
    (simp_all add: store_items_def)

text \<open>Storing succeeds when the database is up and every item names a source that is not blank.\<close>

lemma store_group_succeeds: "\<not> blank u \<Longrightarrow> fst (store_group env rid (Some u, its) s) = Inr ()"
  by (auto simp: store_group_def find_or_create_feed_def act_simps split: option.split)

lemma store_groups_succeed:
  "\<forall>g \<in> set gs. \<exists>u. fst g = Some u \<and> \<not> blank u \<Longrightarrow> fst (store_groups env (\<lambda>_. True) rid gs s) = Inr ()"
proof (induction gs arbitrary: s)
  case (Cons g gs)
  then obtain u its where "g = (Some u, its)" "\<not> blank u" by (cases g) auto
  then have "fst (store_group env rid g s) = Inr ()" using store_group_succeeds by blast
  with Cons show ?case by (cases "store_group env rid g s") (simp add: act_simps)
qed (simp add: act_simps)

lemma store_items_succeed:
  assumes "\<forall>item \<in> set items. \<exists>u. field ''source_url'' item = Some u \<and> \<not> blank u"
  shows "fst (store_items env (\<lambda>_. True) rid items s) = Inr ()"
  unfolding store_items_def using assms by (intro store_groups_succeed) (auto simp: group_by_def)

section \<open>Deliveries\<close>

text \<open>A message that is claimed: what the claim leaves, and the outcome of \<open>work\<close>.\<close>

definition claimed :: "result_msg \<Rightarrow> jsstr \<Rightarrow> rails \<Rightarrow> rails" where
  "claimed m st = set_request (\<lambda>r. rq_job r = rm_job m \<and> open_status (rq_status r)) (\<lambda>r. r\<lparr>rq_status := st\<rparr>)"

lemma work_some:
  assumes "work_find m s = Some r" "open_status (rq_status r)" "rm_status m = Some st"
  shows "work env up (Some m) s =
    (case work_finish env up r m (claimed m st s) of (Inl e, t) \<Rightarrow> (Inr Reject, t) | (Inr v, t) \<Rightarrow> (Inr Ack, t))"
proof -
  note r = work_find_row [OF assms(1)]
  then have "\<exists>x \<in> set (requests s). rq_job x = rm_job m \<and> open_status (rq_status x)" using assms(2) by blast
  then show ?thesis
    by (simp add: work_def try_catch_def assms(1,3) work_claim_def seq_a_def bind_a_def ret_def claimed_def
        split: prod.split sum.split)
qed

lemma work_rejects:
  assumes "work_find m s = Some r" "open_status (rq_status r)" "rm_status m = Some st"
    and "fst (work_finish env up r m (claimed m st s)) = Inl e"
  shows "fst (work env up (Some m) s) = Inr Reject"
  using assms(4) by (cases "work_finish env up r m (claimed m st s)") (simp add: work_some [OF assms(1-3)])

lemma work_ignored: "work_find m s = None \<Longrightarrow> work env up (Some m) s = (Inr Ack, s)"
  by (simp add: work_def try_catch_def)

lemma orderly_job:
  assumes "orderly s" "r \<in> set (requests s)" "x \<in> set (requests s)" "rq_job x = rq_job r"
  shows "x = r"
proof -
  have k: "key_of_row r \<in> set (row_keys s)" using assms(2) by (simp add: row_keys_def)
  have "rq_id x = rq_id r" by (rule claim_row [OF assms(1) k assms(3,4)])
  moreover have "map fst (row_keys s) = map rq_id (requests s)" by (simp add: row_keys_def key_of_row_def)
  with assms(1) have "inj_on rq_id (set (requests s))" unfolding orderly_def by (metis distinct_map)
  ultimately show ?thesis using assms(2,3) by (simp add: inj_on_def)
qed

lemma work_unclaimed:
  assumes "orderly s" "work_find m s = Some r" "\<not> open_status (rq_status r)"
  shows "work env up (Some m) s = (Inr Ack, s)"
proof -
  note r = work_find_row [OF assms(2)]
  have "\<not> (\<exists>x \<in> set (requests s). rq_job x = rm_job m \<and> open_status (rq_status x))"
    using orderly_job [OF assms(1) r(1)] r(2) assms(3) by fastforce
  then have "work_claim m s = (Inr False, s)" by (auto simp: work_claim_def)
  then show ?thesis
    by (simp add: work_def try_catch_def assms(2) bind_a_def ret_def)
qed

text \<open>After a claim no row of the job is open, and the first one found is final.\<close>

lemma claimed_found:
  assumes "orderly s" "work_find m s = Some r" "open_status (rq_status r)" "final_status st"
    and "requests t = requests (claimed m st s)"
  shows "work_find m t = None"
proof -
  note r = work_find_row [OF assms(2)]
  have st: "rq_status x = st" if "x \<in> set (requests t)" "rq_job x = rm_job m" for x
  proof -
    from that assms(5) obtain y where y: "y \<in> set (requests s)" "rq_job y = rm_job m"
        "x = (if open_status (rq_status y) then y\<lparr>rq_status := st\<rparr> else y)"
      by (auto simp: claimed_def set_request_def split: if_splits)
    have "y = r" using orderly_job [OF assms(1) r(1) y(1)] y(2) r(2) by simp
    with y(3) assms(3) show ?thesis by simp
  qed
  then have "final_status (rq_status x)" if f: "find (\<lambda>r. rq_job r = rm_job m) (requests t) = Some x" for x
  proof -
    from f have "x \<in> set (requests t)" "rq_job x = rm_job m" by (auto simp: find_Some_iff)
    with st assms(4) show ?thesis by simp
  qed
  then show ?thesis by (auto simp: work_find_def final_status_def split: option.split)
qed

section \<open>What the page reads\<close>

lemma json_reply_body: "jsonable v \<Longrightarrow> read_body (json_reply code v) = Inr v"
proof -
  assume v: "jsonable v"
  have "includes_str (lit ''application/json; charset=utf-8'') (lit ''application/json'')"
    unfolding includes_str_iff by (intro exI [of _ "[]"] exI [of _ "lit ''; charset=utf-8''"]) (simp flip: lit_append)
  then have "is_json (json_reply code v)" by (simp add: is_json_def json_reply_def)
  with v show ?thesis
    unfolding read_body_def json_reply_def by (simp add: json_round_trip del: stringify.simps)
qed

lemma json_reply_value:
  "jsonable v \<Longrightarrow> 200 \<le> code \<Longrightarrow> code \<le> 299 \<Longrightarrow> finish_request (Inr (json_reply code v)) = Inr v"
  by (simp add: finish_request_Inr_iff json_reply_body) (simp add: json_reply_def rs_ok_def)

lemma json_reply_error:
  assumes "e \<noteq> []"
  shows "finish_request (Inr (json_reply 422 (Obj [(lit ''error'', Str e)]))) = Inl (JsError e)"
proof -
  have "jsonable (Obj [(lit ''error'', Str e)])" by simp
  from json_reply_body [OF this, of 422] have "read_body (json_reply 422 (Obj [(lit ''error'', Str e)])) = Inr (Obj [(lit ''error'', Str e)])" .
  moreover have "\<not> rs_ok (json_reply 422 v)" for v by (simp add: json_reply_def rs_ok_def)
  ultimately show ?thesis
    using assms by (simp add: finish_request_def handle_response_def error_message_def is_object_def js_or_def)
qed

text \<open>An acknowledged result is in the listing of its user.\<close>

lemma work_lists_item:
  assumes "work_find m s = Some r" "open_status (rq_status r)" "msg_final m"
    and "fst (work env up (Some m) s) = Inr Ack"
    and "rm_items m = Some items" "item \<in> set items"
    and "field ''source_url'' item = Some u" "field ''link'' item = Some l"
  shows "\<exists>i \<in> set (index_items (rq_user r) (snd (work env up (Some m) s))).
    si_link i = Some l \<and> (\<exists>f \<in> set (feed_table (snd (work env up (Some m) s))). fd_id f = si_feed i \<and> fd_url f = u)"
proof -
  obtain st where st: "rm_status m = Some st" using assms(3) by (auto simp: msg_final_def)
  define t where "t = snd (work env up (Some m) s)"
  obtain v where v: "store_items env up (rq_id r) items (claimed m st s) = (Inr (), v)"
    and t: "feed_table t = feed_table v" "request_feeds t = request_feeds v" "item_table t = item_table v"
  proof -
    have n: "items \<noteq> []" using assms(6) by auto
    obtain res v where v: "store_items env up (rq_id r) items (claimed m st s) = (res, v)" by fastforce
    from assms(4) n v have "res = Inr ()"
      by (cases res) (auto simp: work_some [OF assms(1,2) st] work_finish_def or_empty_def assms(5) act_simps)
    with v n that show ?thesis
      by (simp add: t_def work_some [OF assms(1,2) st] work_finish_def or_empty_def assms(5) act_simps)
  qed
  from store_items_has [OF v assms(6-8)] t have "stored (rq_id r) u l t" by (simp add: stored_def)
  then obtain f i where f: "f \<in> set (feed_table t)" "fd_url f = u" "(rq_id r, fd_id f) \<in> set (request_feeds t)"
      "i \<in> set (item_table t)" "si_feed i = fd_id f" "si_link i = Some l"
    by (auto simp: stored_def)
  have "requests t = requests (claimed m st s)"
    by (rule work_finish_cases [of env up r m "claimed m st s"])
      (simp_all add: t_def work_some [OF assms(1,2) st] request_view_def)
  then have "\<exists>x \<in> set (requests t). rq_user x = rq_user r \<and> rq_id x = rq_id r"
    using work_find_row(1) [OF assms(1)]
    by (intro bexI [of _ "if rq_job r = rm_job m \<and> open_status (rq_status r) then r\<lparr>rq_status := st\<rparr> else r"])
      (auto simp: claimed_def set_request_def)
  then have "own_item (rq_user r) t i" using f by (auto simp: own_item_def)
  then have "i \<in> set (index_items (rq_user r) t)"
    using f(4) by (auto simp: index_items_def Let_def)
  with f show ?thesis unfolding t_def [symmetric] by metis
qed

section \<open>The feed service as an interface\<close>

text \<open>The states the Rails side can reach with a feed service, and what the contract of the service gives in
  all of them.\<close>

definition rails_reach ::
    "rails_env \<Rightarrow> (result_msg \<Rightarrow> bool) \<Rightarrow> (feed_request \<Rightarrow> service_reply \<Rightarrow> bool) \<Rightarrow> rails \<Rightarrow> bool" where
  "rails_reach env msgs replies s \<longleftrightarrow> reach (\<lambda>s. s = rails_init) (rails_step env msgs replies) s"

lemma rails_step_mono:
  assumes "rails_step env msgs replies s t" "\<And>m. msgs m \<Longrightarrow> msgs' m" "\<And>r a. replies r a \<Longrightarrow> replies' r a"
  shows "rails_step env msgs' replies' s t"
  using assms(1) by cases (auto intro: rails_step.intros assms(2,3))

lemma rails_reach_ok:
  "service_contract msgs replies \<Longrightarrow> rails_reach env msgs replies s \<Longrightarrow> orderly s \<and> bounded s"
  unfolding rails_reach_def
  by (rule rails.reachable_inv [of msgs replies env]) (blast intro: reach_mono)

locale feed_service =
  fixes msgs :: "result_msg \<Rightarrow> bool" and replies :: "feed_request \<Rightarrow> service_reply \<Rightarrow> bool"
  assumes contract: "service_contract msgs replies"
begin

lemma reachable_ok: "rails_reach env msgs replies s \<Longrightarrow> orderly s \<and> bounded s"
  by (rule rails_reach_ok [OF contract])

lemma at_most_two:
  assumes "rails_reach env msgs replies s"
  shows "length (filter (\<lambda>c. bc_request (snd c) = rid) (casts s)) \<le> 2"
proof -
  from reachable_ok [OF assms] have "weight rid s \<le> 2" by (simp add: bounded_def)
  then show ?thesis by (simp add: weight_def cast_count_def)
qed

lemma to_owner:
  assumes "rails_reach env msgs replies s" "m \<in> set (stream_of user s)"
  shows "\<exists>r \<in> set (requests s). rq_id r = bc_request m \<and> user = Some (rq_user r)"
proof -
  from assms(2) obtain u where u: "user = Some u" "(u, m) \<in> set (casts s)"
    by (auto simp: stream_of_def split: option.splits)
  from reachable_ok [OF assms(1)] have "list_all (cast_ok (set (row_keys s))) (casts s)" by (simp add: orderly_def)
  with u(2) have "cast_ok (set (row_keys s)) (u, m)" by (auto simp: list_all_iff)
  with u(1) show ?thesis by (auto simp: cast_ok_def row_keys_def key_of_row_def)
qed

end

end
