(* ===== verification/RailsRest.thy ===== *)
theory RailsRest
  imports RailsFacts
begin

text \<open>
  Requests whose publisher is done: nothing rewrites the row of such a request but the claim of a result
  while it is open. So it rests when it is closed, and also when it is open and no result comes.
\<close>

fun publishes :: "nat \<Rightarrow> task \<Rightarrow> bool" where
  "publishes rid (Publish rid') = (rid' = rid)"
| "publishes rid (MarkProcessing r) = (rq_id r = rid)"
| "publishes rid _ = False"

fun claims :: "jsstr option \<Rightarrow> task \<Rightarrow> bool" where
  "claims job (ClaimResult r m) = (rm_job m = job)"
| "claims job _ = False"

definition at_rest :: "feed_request \<Rightarrow> rails \<Rightarrow> bool" where
  "at_rest q s \<longleftrightarrow> q \<in> set (requests s) \<and> list_all (\<lambda>x. \<not> publishes (rq_id q) x) (tasks s) \<and>
     (open_status (rq_status q) \<longrightarrow> list_all (\<lambda>x. \<not> claims (rq_job q) x) (tasks s))"

lemma at_rest_same:
  assumes "at_rest q s" "q \<in> set (requests t)"
    and "\<And>x. x \<in> set (tasks t) \<Longrightarrow> x \<notin> set (tasks s) \<Longrightarrow>
      \<not> publishes (rq_id q) x \<and> (open_status (rq_status q) \<longrightarrow> \<not> claims (rq_job q) x)"
  shows "at_rest q t"
  using assms unfolding at_rest_def list_all_iff by metis

lemma at_rest_task:
  "at_rest q s \<Longrightarrow> i < length (tasks s) \<Longrightarrow>
   \<not> publishes (rq_id q) (tasks s ! i) \<and> (open_status (rq_status q) \<longrightarrow> \<not> claims (rq_job q) (tasks s ! i))"
  by (simp add: at_rest_def list_all_length)

lemma at_rest_step:
  assumes "orderly s" "at_rest q s" "rails_step env msgs replies s t"
    and "open_status (rq_status q) \<Longrightarrow> \<forall>m. msgs m \<longrightarrow> rm_job m \<noteq> rq_job q"
  shows "at_rest q t"
proof -
  have q: "q \<in> set (requests s)" using assms(2) by (simp add: at_rest_def)
  note task = at_rest_task [OF assms(2)]
  show ?thesis
    using assms(3)
  proof (cases rule: rails_step.cases)
    case (rs_create job user us)
    have "rq_id q \<noteq> next_request s" using assms(1) q by (force simp: orderly_def row_keys_def key_of_row_def)
    then show ?thesis
      by (intro at_rest_same [OF assms(2)]; cases us) (use q in \<open>auto simp: rs_create(1) create_feeds_def split: if_splits\<close>)
  next
    case (rs_publish i rid r)
    with task [of i] q show ?thesis
      by (intro at_rest_same [OF assms(2)]) (auto simp: publish_command_def modify_def dest: task_in_drop)
  next
    case (rs_fallback i rid r reply up)
    with task [of i] have "rq_id q \<noteq> rq_id r" by auto
    moreover obtain job st c where "request_view t = (rewritten (rq_id r) job st (requests s), next_request s,
        casts s @ [(rq_user r, c)], drop_nth i (tasks s))"
      using fallback_view [of env up reply r "drop_task i s"] unfolding rs_fallback(1) by auto
    ultimately show ?thesis
      using q by (intro at_rest_same [OF assms(2)]) (force simp: view_simps rewritten_def dest: task_in_drop)+
  next
    case (rs_mark i r)
    with task [of i] have "rq_id q \<noteq> rq_id r" by auto
    with q show ?thesis
      by (intro at_rest_same [OF assms(2)])
        (force simp: rs_mark(1) mark_processing_def modify_def set_request_def dest: task_in_drop split: if_splits)+
  next
    case (rs_deliver m r)
    with q assms(4) show ?thesis by (intro at_rest_same [OF assms(2)]) auto
  next
    case (rs_claim i r m)
    from task [of i] rs_claim(2,3) have c: "open_status (rq_status q) \<longrightarrow> rm_job m \<noteq> rq_job q" by simp
    then have "q \<in> set (requests t)"
      using q by (force simp: rs_claim(1) claim_result_def work_claim_def set_request_def split: option.splits)
    moreover have "set (tasks t) \<subseteq> insert (StoreResult r m) (set (tasks s))"
      using set_drop_nth [of i "tasks s"]
      by (auto simp: rs_claim(1) claim_result_def work_claim_def set_request_def split: option.splits)
    ultimately show ?thesis by (intro at_rest_same [OF assms(2)]) auto
  next
    case (rs_store i r m up)
    have "requests t = requests s \<and> tasks t = drop_nth i (tasks s)"
      by (cases rule: work_finish_cases [of env up r m "drop_task i s"]) (simp_all add: rs_store(1) request_view_def)
    with q show ?thesis by (intro at_rest_same [OF assms(2)]) (auto dest: task_in_drop)
  qed
qed

context feed_service begin

lemma steps_ok: "(rails_step env msgs replies)\<^sup>*\<^sup>* s t \<Longrightarrow> orderly s \<and> bounded s \<Longrightarrow> orderly t \<and> bounded t"
  by (induction rule: rtranclp_induct) (use rails_step_ok [OF contract] in blast)+

lemma at_rest_run:
  assumes "(rails_step env msgs replies)\<^sup>*\<^sup>* s t" "orderly s \<and> bounded s" "at_rest q s" "\<not> open_status (rq_status q)"
  shows "at_rest q t"
  using assms(1,3)
proof (induction rule: rtranclp_induct)
  case (step t u)
  have "orderly t" using steps_ok [OF step(1) assms(2)] by blast
  then show ?case by (rule at_rest_step [OF _ step(3) [OF step(4)] step(2)]) (use assms(4) in simp)
qed

text \<open>Without a result of its job an open request stays open.\<close>

lemma at_rest_unanswered:
  assumes "(rails_step env (\<lambda>m. msgs m \<and> rm_job m \<noteq> rq_job q) replies)\<^sup>*\<^sup>* s t" "orderly s \<and> bounded s" "at_rest q s"
  shows "at_rest q t"
  using assms(1)
proof (induction rule: rtranclp_induct)
  case (step t u)
  have "(rails_step env msgs replies)\<^sup>*\<^sup>* s t"
    by (rule rtranclp_mono [THEN predicate2D, OF _ step(1)]) (auto intro: rails_step_mono)
  then have "orderly t" using steps_ok [OF _ assms(2)] by blast
  then show ?case by (rule at_rest_step [OF _ step(3) step(2)]) simp
qed (rule assms(3))

end

text \<open>A request that rests closed ignores every result of its job.\<close>

lemma at_rest_ignores:
  assumes "orderly s" "at_rest q s" "final_status (rq_status q)" "rm_job m = rq_job q"
  shows "work env up (Some m) s = (Inr Ack, s)"
proof (rule work_ignored)
  have "x = q" if "find (\<lambda>r. rq_job r = rm_job m) (requests s) = Some x" for x
    using that orderly_job [OF assms(1), of q x] assms(2,4) by (auto simp: at_rest_def find_Some_iff)
  with assms(3) show "work_find m s = None" by (auto simp: work_find_def final_status_def split: option.split)
qed

text \<open>Processing a result without interruption is three steps.\<close>

lemma work_steps:
  assumes "msgs m" "work_find m s = Some r" "open_status (rq_status r)" "rm_status m = Some st"
  shows "(rails_step env msgs replies)\<^sup>*\<^sup>* s (snd (work env up (Some m) s))"
proof -
  let ?n = "length (tasks s)"
  have drop: "drop_task ?n (add_task x u) = u" if "tasks u = tasks s" for x u
    using that by (simp add: drop_task_def add_task_def drop_nth_def)
  have "rails_step env msgs replies s (add_task (ClaimResult r m) s)" by (rule rs_deliver; rule assms)
  moreover have "rails_step env msgs replies (add_task (ClaimResult r m) s)
      (claim_result r m (drop_task ?n (add_task (ClaimResult r m) s)))"
    by (rule rs_claim) simp_all
  moreover have "claim_result r m (drop_task ?n (add_task (ClaimResult r m) s)) = add_task (StoreResult r m) (claimed m st s)"
    using work_find_row [OF assms(2)] assms(3,4)
    by (auto simp: drop claim_result_def work_claim_def claimed_def)
  moreover have "rails_step env msgs replies (add_task (StoreResult r m) (claimed m st s))
      (snd (work_finish env up r m (drop_task ?n (add_task (StoreResult r m) (claimed m st s)))))"
    by (rule rs_store) (simp_all add: claimed_def set_request_def)
  moreover have "drop_task ?n (add_task (StoreResult r m) (claimed m st s)) = claimed m st s"
    by (rule drop) (simp add: claimed_def set_request_def)
  moreover have "snd (work env up (Some m) s) = snd (work_finish env up r m (claimed m st s))"
    by (simp add: work_some [OF assms(2-4)] split: prod.split sum.split)
  ultimately show ?thesis by (metis (no_types, lifting) rtranclp.rtrancl_refl rtranclp.rtrancl_into_rtrancl)
qed

text \<open>What it leaves of the row and of the tasks.\<close>

lemma work_closes:
  assumes "work_find m s = Some r" "open_status (rq_status r)" "rm_status m = Some st"
  shows "r\<lparr>rq_status := st\<rparr> \<in> set (requests (snd (work env up (Some m) s)))" "tasks (snd (work env up (Some m) s)) = tasks s"
proof -
  note r = work_find_row [OF assms(1)]
  have v: "requests (snd (work env up (Some m) s)) = requests (claimed m st s)"
    "tasks (snd (work env up (Some m) s)) = tasks (claimed m st s)"
    by (rule work_finish_cases [of env up r m "claimed m st s"]; simp add: work_some [OF assms] request_view_def)+
  show "r\<lparr>rq_status := st\<rparr> \<in> set (requests (snd (work env up (Some m) s)))"
    unfolding v using r(1,2) assms(2) by (force simp: claimed_def set_request_def)
  show "tasks (snd (work env up (Some m) s)) = tasks s" unfolding v by (simp add: claimed_def set_request_def)
qed

end
