(* ===== verification/PropsRails.thy ===== *)
theory PropsRails
  imports RailsRest Examples
begin

text \<open>
  Properties of the Rails side: what a result leaves in the tables, who receives broadcasts and how
  often, and what happens when deliveries repeat, interleave or fail.
\<close>

section \<open>Invariants of the tables and of the broadcasts\<close>

text \<open>A run: a request of user 1, its command, its result, and the late write of the publisher.\<close>

definition plain_env :: rails_env where
  "plain_env = \<lparr>cast_date = (\<lambda>_. None), error_text = (\<lambda>_. lit ''error'')\<rparr>"

definition done_msg :: result_msg where
  "done_msg = \<lparr>rm_job = Some (lit ''j''), rm_status = Some (lit ''done''), rm_items = None, rm_errors = None\<rparr>"

definition asked :: "string \<Rightarrow> feed_request" where
  "asked st = \<lparr>rq_id = 1, rq_user = 1, rq_job = Some (lit ''j''), rq_urls = [lit ''u''], rq_status = lit st\<rparr>"

definition done_cast :: cast_msg where
  "done_cast = \<lparr>bc_request = 1, bc_status = lit ''done'', bc_items = [], bc_errors = []\<rparr>"

definition run_at :: "string \<Rightarrow> cast_msg list \<Rightarrow> task list \<Rightarrow> rails" where
  "run_at st cs ts = rails_init\<lparr>requests := [asked st], next_request := 2, casts := map (Pair 1) cs,
     commands := [(Some (lit ''j''), [lit ''u''])], tasks := ts\<rparr>"

definition only_done :: "result_msg \<Rightarrow> bool" where
  "only_done m \<longleftrightarrow> m = done_msg"

definition no_reply :: "feed_request \<Rightarrow> service_reply \<Rightarrow> bool" where
  "no_reply r reply \<longleftrightarrow> (\<exists>m. reply = NoReply m)"

lemma run_contract: "service_contract only_done no_reply"
  by (auto simp: service_contract_def only_done_def no_reply_def msg_final_def done_msg_def final_status_def)

interpretation run: feed_service only_done no_reply
  by (rule feed_service.intro [OF run_contract])

lemmas run_defs = run_at_def asked_def done_msg_def done_cast_def rails_init_def drop_task_def drop_nth_def add_task_def

lemma run_step:
  "rails_reach env msgs replies s \<Longrightarrow> rails_step env msgs replies s t \<Longrightarrow> t = u \<Longrightarrow> rails_reach env msgs replies u"
  unfolding rails_reach_def by (auto intro: reach_step)

lemma run_start:
  "(rails_step env msgs replies)\<^sup>*\<^sup>* rails_init (run_at ''pending'' [] [MarkProcessing (asked ''pending'')])"
proof -
  let ?s = "snd (create_feeds 1 (lit ''j'') (Urls [lit ''u'']) rails_init)"
  let ?t = "add_task (MarkProcessing (asked ''pending'')) (snd (publish_command (asked ''pending'') (drop_task 0 ?s)))"
  have "rails_step env msgs replies rails_init ?s"
    by (rule rs_create) (simp add: rails_init_def)
  moreover have "rails_step env msgs replies ?s ?t"
    by (rule rs_publish [where rid = 1]) (simp_all add: create_feeds_def run_defs)
  moreover have "?t = run_at ''pending'' [] [MarkProcessing (asked ''pending'')]"
    by (simp add: create_feeds_def publish_command_def modify_def run_defs)
  ultimately show ?thesis by (rule two_steps)
qed

lemma run_published: "rails_reach env only_done no_reply (run_at ''pending'' [] [MarkProcessing (asked ''pending'')])"
  unfolding rails_reach_def by (rule reach_star [OF run_start]) (rule reach_start, rule refl)

text \<open>A delivery while the request is open: it is found, claimed and broadcast.\<close>

lemma run_delivered:
  assumes "rails_reach env only_done no_reply (run_at st cs ts)" "st = ''pending'' \<or> st = ''processing''"
  shows "rails_reach env only_done no_reply (run_at ''done'' (cs @ [done_cast]) ts)"
proof -
  let ?a = "add_task (ClaimResult (asked st) done_msg) (run_at st cs ts)"
  let ?b = "run_at ''done'' cs (ts @ [StoreResult (asked st) done_msg])"
  have 1: "rails_step env only_done no_reply (run_at st cs ts) ?a"
    using assms(2) by (intro rs_deliver) (auto simp: only_done_def work_find_def run_defs)
  have 2: "rails_step env only_done no_reply ?a (claim_result (asked st) done_msg (drop_task (length ts) ?a))"
    by (rule rs_claim) (simp_all add: run_at_def rails_init_def add_task_def)
  have b: "claim_result (asked st) done_msg (drop_task (length ts) ?a) = ?b"
    using assms(2) by (auto simp: claim_result_def work_claim_def set_request_def open_status_def run_defs)
  have 3: "rails_step env only_done no_reply ?b
      (snd (work_finish env (\<lambda>_. True) (asked st) done_msg (drop_task (length ts) ?b)))"
    by (rule rs_store) (simp_all add: run_at_def rails_init_def)
  show ?thesis
    by (rule run_step [OF run_step [OF run_step [OF assms(1) 1 refl] 2 b] 3])
      (simp add: work_finish_def or_empty_def act_simps run_defs)
qed

lemma run_marked:
  assumes "rails_reach env only_done no_reply (run_at st cs [MarkProcessing (asked ''pending'')])"
  shows "rails_reach env only_done no_reply (run_at ''processing'' cs [])"
proof -
  let ?s = "run_at st cs [MarkProcessing (asked ''pending'')]"
  have 1: "rails_step env only_done no_reply ?s (snd (mark_processing (asked ''pending'') (drop_task 0 ?s)))"
    by (rule rs_mark) (simp_all add: run_at_def rails_init_def)
  show ?thesis
    by (rule run_step [OF assms 1]) (simp add: mark_processing_def modify_def set_request_def run_defs)
qed

lemma run_late:
  "rails_reach env only_done no_reply (run_at ''processing'' [done_cast] [])"
  "rails_reach env only_done no_reply (run_at ''done'' [done_cast, done_cast] [])"
proof -
  show a: "rails_reach env only_done no_reply (run_at ''processing'' [done_cast] [])"
    using run_marked [OF run_delivered [OF run_published]] by simp
  show "rails_reach env only_done no_reply (run_at ''done'' [done_cast, done_cast] [])"
    using run_delivered [OF a] by simp
qed

text \<open>However deliveries repeat and jobs interleave, a request is broadcast at most twice: every
  broadcast of a result first closes the request, and only the job that publishes it can reopen it,
  once.\<close>

theorem broadcasts_bounded:
  assumes "service_contract msgs replies" "rails_reach env msgs replies s"
  shows "length (filter (\<lambda>c. bc_request (snd c) = rid) (casts s)) \<le> 2"
  using assms by (rule feed_service.at_most_two [OF feed_service.intro])

lemma broadcasts_bounded_witness:
  "length (filter (\<lambda>c. bc_request (snd c) = 1) (casts (run_at ''done'' [done_cast, done_cast] []))) \<le> 2"
  by (rule broadcasts_bounded [OF run_contract run_late(2) [of undefined]])

text \<open>The broadcasts by request and status.\<close>

definition told :: "rails \<Rightarrow> (nat \<times> jsstr) list" where
  "told s = map (\<lambda>c. (bc_request (snd c), bc_status (snd c))) (casts s)"

lemma reopened_rests: "at_rest (asked ''processing'') (run_at ''processing'' [done_cast] [])"
  by (simp add: at_rest_def run_at_def)

text \<open>C39. The publisher writes \<open>processing\<close> after it has published, so the write can come after the result. There is a
  state with nothing left to do in which a request is \<open>processing\<close> although its result was broadcast as
  \<open>done\<close>; it stays so in every run without a further delivery of its result, and a redelivery of that result
  is broadcast for it once more.\<close>

theorem late_write_reopens:
  "\<exists>msgs replies s t q. service_contract msgs replies \<and> rails_reach env msgs replies s \<and>
     requests s = [q] \<and> rq_status q = lit ''processing'' \<and> tasks s = [] \<and> told s = [(rq_id q, lit ''done'')] \<and>
     Collect ((rails_step env (\<lambda>m. msgs m \<and> rm_job m \<noteq> rq_job q) replies)\<^sup>*\<^sup>* s) \<subseteq> {x. q \<in> set (requests x)} \<and>
     (rails_step env msgs replies)\<^sup>*\<^sup>* s t \<and> requests t = [q\<lparr>rq_status := lit ''done''\<rparr>] \<and>
     told t = [(rq_id q, lit ''done''), (rq_id q, lit ''done'')]"
proof -
  let ?s = "run_at ''processing'' [done_cast] []" and ?t = "run_at ''done'' [done_cast, done_cast] []"
  let ?q = "asked ''processing''"
  have rests: "Collect ((rails_step env (\<lambda>m. only_done m \<and> rm_job m \<noteq> rq_job ?q) no_reply)\<^sup>*\<^sup>* ?s) \<subseteq> {x. ?q \<in> set (requests x)}"
    using run.at_rest_unanswered [OF _ run.reachable_ok [OF run_late(1)] reopened_rests] by (auto simp: at_rest_def)
  have f: "work_find done_msg ?s = Some ?q" "open_status (rq_status ?q)" "rm_status done_msg = Some (lit ''done'')"
    by (simp_all add: work_find_def open_status_def run_defs)
  have "snd (work env (\<lambda>_. True) (Some done_msg) ?s) = ?t"
    unfolding work_some [OF f] by (simp add: work_finish_def claimed_def set_request_def open_status_def or_empty_def act_simps run_defs)
  with work_steps [of only_done, OF _ f, of env no_reply "\<lambda>_. True"]
  have "(rails_step env only_done no_reply)\<^sup>*\<^sup>* ?s ?t" by (simp add: only_done_def)
  with rests run_contract run_late(1) [of env] show ?thesis
    by (intro exI [of _ only_done] exI [of _ no_reply] exI [of _ ?s] exI [of _ ?t] exI [of _ ?q])
      (simp add: told_def run_defs)
qed

text \<open>A broadcast reaches only the owner of its request: what a connection of a user receives is about
  requests of that user, and a connection without a user receives nothing.\<close>

theorem broadcasts_to_owner:
  assumes "service_contract msgs replies" "rails_reach env msgs replies s" "m \<in> set (stream_of user s)"
  shows "\<exists>r \<in> set (requests s). rq_id r = bc_request m \<and> user = Some (rq_user r)"
  using assms by (rule feed_service.to_owner [OF feed_service.intro])

lemma broadcasts_to_owner_witness:
  "\<exists>r \<in> set (requests (run_at ''processing'' [done_cast] [])). rq_id r = 1 \<and> rq_user r = 1"
  using broadcasts_to_owner [OF run_contract run_late(1) [of undefined], of done_cast "Some 1"]
  by (simp add: stream_of_def run_at_def done_cast_def)

text \<open>C28. Whatever results arrive, in whatever order and however often, the tables keep their keys: no two
  feeds have one URL, no feed has a blank one, and no feed has two items with one link.\<close>

theorem rails_rows_unique:
  assumes "rails_reach env msgs replies s"
  shows "distinct (map fd_url (feed_table s)) \<and> (\<forall>f \<in> set (feed_table s). \<not> blank (fd_url f)) \<and>
    distinct (map (\<lambda>i. (si_feed i, si_link i)) (filter (\<lambda>i. si_link i \<noteq> None) (item_table s))) \<and>
    (\<forall>i \<in> set (item_table s). \<exists>f \<in> set (feed_table s). fd_id f = si_feed i)"
proof -
  have "tables_ok s" using assms unfolding rails_reach_def by (rule tables.reachable_inv)
  then show ?thesis by (fastforce simp: tables_ok_def unique_links_def)
qed

lemma rails_rows_unique_witness: "distinct (map fd_url (feed_table (run_at ''processing'' [done_cast] [])))"
  using rails_rows_unique [OF run_late(1)] by blast

section \<open>Results\<close>



definition open_run :: rails where
  "open_run = run_at ''processing'' [] []"

lemma open_run: "orderly open_run" "work_find done_msg open_run = Some (asked ''processing'')"
    "open_status (rq_status (asked ''processing''))"
  by (simp_all add: open_run_def orderly_def row_keys_def key_of_row_def work_find_def open_status_def run_defs)



text \<open>C40. A result that fails half way is lost: when the database fails, or the items are stored under no URL,
  the message is rejected, but its request is already marked as finished; nothing is broadcast, and a
  redelivery is acknowledged without storing the rest.\<close>

theorem rejected_result_lost:
  assumes "orderly s" "msg_final m" "fst (work env up (Some m) s) = Inr Reject"
  shows "casts (snd (work env up (Some m) s)) = casts s \<and>
    (\<exists>r \<in> set (requests (snd (work env up (Some m) s))). rq_job r = rm_job m \<and> rm_status m = Some (rq_status r)) \<and>
    (\<forall>env' up'. work env' up' (Some m) (snd (work env up (Some m) s)) = (Inr Ack, snd (work env up (Some m) s)))"
proof -
  have "\<exists>r. work_find m s = Some r \<and> open_status (rq_status r)"
  proof (rule ccontr)
    assume n: "\<nexists>r. work_find m s = Some r \<and> open_status (rq_status r)"
    then have "work env up (Some m) s = (Inr Ack, s)"
      using work_ignored work_unclaimed [OF assms(1)] by (cases "work_find m s") auto
    with assms(3) show False by simp
  qed
  then obtain r st where r: "work_find m s = Some r" "open_status (rq_status r)" "rm_status m = Some st" "final_status st"
    using assms(2) by (auto simp: msg_final_def)
  define t where "t = snd (work env up (Some m) s)"
  have v: "request_view t = request_view (claimed m st s)"
    by (rule work_finish_cases [of env up r m "claimed m st s"])
      (use assms(3) in \<open>simp_all add: t_def work_some [OF r(1-3)]\<close>)
  then have q: "requests t = requests (claimed m st s)" and c: "casts t = casts s"
    by (simp_all add: request_view_def claimed_def set_request_def)
  have "\<exists>x \<in> set (requests t). rq_job x = rm_job m \<and> rm_status m = Some (rq_status x)"
    using work_find_row [OF r(1)] r(2,3) unfolding q
    by (intro bexI [of _ "r\<lparr>rq_status := st\<rparr>"]) (auto simp: claimed_def set_request_def image_iff)
  moreover have "work env' up' (Some m) t = (Inr Ack, t)" for env' up'
    using claimed_found [OF assms(1) r(1,2,4) q] by (rule work_ignored)
  ultimately show ?thesis using c by (simp flip: t_def)
qed

definition no_source_msg :: result_msg where
  "no_source_msg = done_msg\<lparr>rm_items := Some [[(''link'', Some (lit ''l''))]]\<rparr>"

lemma no_source_rejected: "fst (work env up (Some no_source_msg) open_run) = Inr Reject"
proof -
  have f: "work_find no_source_msg open_run = Some (asked ''processing'')"
    using open_run(2) by (simp add: work_find_def no_source_msg_def)
  have s: "rm_status no_source_msg = Some (lit ''done'')" by (simp add: no_source_msg_def done_msg_def)
  have "group_by (field ''source_url'') [[(''link'', Some (lit ''l''))]] = [(None, [[(''link'', Some (lit ''l''))]])]"
    by (simp add: group_by_def field_def)
  then have "\<exists>e. fst (work_finish env up (asked ''processing'') no_source_msg t) = Inl e" for t
    by (cases "up 0") (simp_all add: work_finish_def no_source_msg_def or_empty_def store_items_def store_group_def
        find_or_create_feed_def act_simps)
  then obtain e where "fst (work_finish env up (asked ''processing'') no_source_msg (claimed no_source_msg (lit ''done'') open_run)) = Inl e"
    by blast
  then show ?thesis by (rule work_rejects [OF f open_run(3) s])
qed

lemma rejected_result_lost_witness:
  "casts (snd (work plain_env (\<lambda>_. True) (Some no_source_msg) open_run)) = [] \<and>
   work plain_env (\<lambda>_. True) (Some no_source_msg) (snd (work plain_env (\<lambda>_. True) (Some no_source_msg) open_run)) =
     (Inr Ack, snd (work plain_env (\<lambda>_. True) (Some no_source_msg) open_run))"
  using rejected_result_lost [OF open_run(1) _ no_source_rejected]
  by (simp add: msg_final_def no_source_msg_def done_msg_def final_status_def) (simp add: open_run_def run_defs)

text \<open>What a processed result brought is in the listing: when a delivery is acknowledged after its claim,
  every item with a source and a link is among the items that its user is shown, under its link and
  in the feed of its source.\<close>

theorem processed_items_listed:
  assumes "work_find m s = Some r" "open_status (rq_status r)" "msg_final m"
    and "fst (work env up (Some m) s) = Inr Ack"
    and "rm_items m = Some items" "item \<in> set items"
    and "field ''source_url'' item = Some u" "field ''link'' item = Some l"
  shows "\<exists>i \<in> set (index_items (rq_user r) (snd (work env up (Some m) s))).
    si_link i = Some l \<and> (\<exists>f \<in> set (feed_table (snd (work env up (Some m) s))). fd_id f = si_feed i \<and> fd_url f = u)"
  using assms by (rule work_lists_item)

definition result_item :: item_msg where
  "result_item = [(''source_url'', Some (lit ''u'')), (''link'', Some (lit ''l''))]"

definition item_result :: result_msg where
  "item_result = done_msg\<lparr>rm_items := Some [result_item]\<rparr>"

lemma item_result_run:
  "work_find item_result open_run = Some (asked ''processing'')" "open_status (rq_status (asked ''processing''))"
  "fst (work env (\<lambda>_. True) (Some item_result) open_run) = Inr Ack"
proof -
  show f: "work_find item_result open_run = Some (asked ''processing'')"
    using open_run(2) by (simp add: work_find_def item_result_def)
  show "open_status (rq_status (asked ''processing''))" by (rule open_run(3))
  have b: "\<not> blank (lit ''u'')" by (simp add: blank_def lit_def ruby_space_def unat_cu)
  have "rm_status item_result = Some (lit ''done'')" by (simp add: item_result_def done_msg_def)
  then show "fst (work env (\<lambda>_. True) (Some item_result) open_run) = Inr Ack"
    by (simp add: work_some [OF f open_run(3)])
      (simp add: work_finish_def or_empty_def item_result_def result_item_def store_items_def store_group_def group_by_def
        field_def find_or_create_feed_def claimed_def open_run_def run_defs act_simps b)
qed

lemma processed_items_listed_witness:
  "\<exists>i \<in> set (index_items 1 (snd (work plain_env (\<lambda>_. True) (Some item_result) open_run))). si_link i = Some (lit ''l'')"
proof -
  have "rm_items item_result = Some [result_item]" "msg_final item_result"
    "field ''source_url'' result_item = Some (lit ''u'')" "field ''link'' result_item = Some (lit ''l'')"
    by (simp_all add: item_result_def done_msg_def msg_final_def final_status_def result_item_def field_def)
  with processed_items_listed [OF item_result_run(1,2) _ item_result_run(3) [of plain_env], of "[result_item]" result_item
      "lit ''u''" "lit ''l''"]
  show ?thesis by (auto simp: asked_def)
qed

section \<open>Creating a request and falling back\<close>

text \<open>\<open>POST /api/v1/feeds\<close> and \<open>api.submitFeeds\<close> agree: a non-empty array of URLs creates one pending
  request of the user, queues its job, and the client reads its id, \<open>pending\<close> and \<open>full\<close>; anything
  else changes nothing and is thrown by the client with the server's text.\<close>

theorem create_feeds_agrees:
  "case us of
     Urls (x # xs) \<Rightarrow>
       finish_request (Inr (fst (create_feeds user job us s))) =
         Inr (Obj [(lit ''feed_request_id'', Num (int (next_request s))), (lit ''job_id'', Str job),
           (lit ''status'', Str (lit ''pending'')), (lit ''mode'', Str (lit ''full''))]) \<and>
       requests (snd (create_feeds user job us s)) = requests s @
         [\<lparr>rq_id = next_request s, rq_user = user, rq_job = Some job, rq_urls = x # xs, rq_status = lit ''pending''\<rparr>] \<and>
       tasks (snd (create_feeds user job us s)) = tasks s @ [Publish (next_request s)]
   | _ \<Rightarrow>
       finish_request (Inr (fst (create_feeds user job us s))) =
         Inl (JsError (lit ''Urls parameter must be a non-empty array'')) \<and>
       snd (create_feeds user job us s) = s"
proof (cases us)
  case (Urls ys)
  then show ?thesis by (cases ys) (simp_all add: create_feeds_def json_reply_value json_reply_error)
qed (simp_all add: create_feeds_def json_reply_error)

text \<open>C35. When the broker is down, the fallback always reports back, exactly once: whatever the service answers
  and wherever storing fails, one broadcast goes to the owner, and the request has the status that
  was broadcast, so the page and the table agree.\<close>

theorem fallback_reports_once:
  "\<exists>m. casts (snd (execute_fallback env up reply r s)) = casts s @ [(rq_user r, m)] \<and> bc_request m = rq_id r \<and>
    (\<forall>x \<in> set (requests (snd (execute_fallback env up reply r s))). rq_id x = rq_id r \<longrightarrow> rq_status x = bc_status m) \<and>
    filter (\<lambda>x. rq_id x \<noteq> rq_id r) (requests (snd (execute_fallback env up reply r s))) =
      filter (\<lambda>x. rq_id x \<noteq> rq_id r) (requests s)"
proof -
  obtain job st c where v: "request_view (snd (execute_fallback env up reply r s)) =
      (rewritten (rq_id r) job st (requests s), next_request s, casts s @ [(rq_user r, c)], tasks s)"
    and c: "bc_request c = rq_id r" "bc_status c = st"
    using fallback_view by blast
  have "filter (\<lambda>x. rq_id x \<noteq> rq_id r) (rewritten (rq_id r) job st xs) = filter (\<lambda>x. rq_id x \<noteq> rq_id r) xs" for xs
    by (induction xs) (simp_all add: rewritten_def)
  with c show ?thesis
    by (intro exI [of _ c]) (auto simp: view_simps [OF v] rewritten_def)
qed

lemma fallback_reports_once_witness:
  "\<exists>m. casts (snd (execute_fallback plain_env (\<lambda>_. True) (Reply 502 None) (asked ''pending'') open_run)) = [(1, m)] \<and> bc_request m = 1"
  using fallback_reports_once [of plain_env "\<lambda>_. True" "Reply 502 None" "asked ''pending''" open_run]
  by (auto simp: open_run_def run_at_def rails_init_def asked_def)

end
