(* ===== verification/GoWorker.thy ===== *)
theory GoWorker
  imports Rails
begin

text \<open>
  The feed service (\<open>src/rss_backend\<close>, Go): the reader (\<open>rss_reader\<close>), which turns feeds into items and
  merges them, the processing of a job by the worker and by the handler of \<open>/parse\<close>
  (\<open>rssservice/internal/worker/processor.go\<close>, \<open>server/handler/parse.go\<close>), and what the consumer does with a
  delivery (\<open>rabbitmq/consumer.go\<close>). The HTTP client, the XML decoder and \<open>time.Parse\<close> are parameters.
\<close>

section \<open>Items and dates\<close>

type_synonym go_date = "nat \<times> nat \<times> nat"

record go_item =
  gi_title :: jsstr
  gi_source :: jsstr
  gi_source_url :: jsstr
  gi_link :: jsstr
  gi_date :: go_date
  gi_description :: jsstr

text \<open>\<open>Date.String\<close>, \<open>Date.IsZero\<close> and \<open>Date.After\<close>.\<close>

fun date_string :: "go_date \<Rightarrow> jsstr" where
  "date_string (y, m, d) = pad_to 4 y @ lit ''-'' @ pad_to 2 m @ lit ''-'' @ pad_to 2 d"

definition zero_date :: "go_date \<Rightarrow> bool" where
  "zero_date d \<longleftrightarrow> d = (0, 0, 0)"

fun date_day :: "go_date \<Rightarrow> int" where
  "date_day (y, m, d) = day_number (int y) (int m) (int d)"

definition date_after :: "go_date \<Rightarrow> go_date \<Rightarrow> bool" where
  "date_after d u \<longleftrightarrow> date_day u < date_day d"

section \<open>One feed\<close>

text \<open>What the XML decoder fills in.\<close>

record rss_entry =
  re_title :: jsstr
  re_link :: jsstr
  re_pub_date :: jsstr
  re_description :: jsstr

record atom_link =
  al_href :: jsstr
  al_rel :: jsstr

record atom_entry =
  ae_title :: jsstr
  ae_links :: "atom_link list"
  ae_published :: jsstr
  ae_updated :: jsstr
  ae_summary :: jsstr
  ae_content :: jsstr

text \<open>What the HTTP client makes of a URL: no request, no response, or a response with its code, its status text,
  the bytes of its body and the error that breaks the body off, if one does.\<close>

type_synonym byte = "8 word"

datatype download =
    NoRequest jsstr
  | NoResponse jsstr
  | Response int jsstr "byte list" "jsstr option"

text \<open>The libraries: the HTTP client, the two decodings, each with the title of the feed, and
  \<open>time.Parse\<close>, which gives the UTC date and whether the time is the zero time.\<close>

record feed_lib =
  lib_get :: "jsstr \<Rightarrow> download"
  lib_rss :: "byte list \<Rightarrow> (jsstr \<times> rss_entry list) option"
  lib_atom :: "byte list \<Rightarrow> (jsstr \<times> atom_entry list) option"
  lib_time :: "string \<Rightarrow> jsstr \<Rightarrow> (go_date \<times> bool) option"

definition rss_layouts :: "string list" where
  "rss_layouts = [''Mon, 02 Jan 2006 15:04:05 -0700'', ''Mon, 02 Jan 2006 15:04:05 MST'',
     ''Mon, _2 Jan 2006 15:04:05 MST'', ''Mon, _2 Jan 2006 15:04:05 -0700'']"

definition atom_layouts :: "string list" where
  "atom_layouts = [''2006-01-02T15:04:05Z07:00'', ''2006-01-02T15:04:05.999999999Z07:00'']"

text \<open>The first layout that fits decides; without one the date stays zero.\<close>

fun publish_date :: "(string \<Rightarrow> jsstr \<Rightarrow> (go_date \<times> bool) option) \<Rightarrow> string list \<Rightarrow> jsstr \<Rightarrow> go_date" where
  "publish_date tm [] s = (0, 0, 0)"
| "publish_date tm (l # ls) s =
     (if s = [] then (0, 0, 0)
      else case tm l s of
             Some (d, z) \<Rightarrow> if z then (0, 0, 0) else d
           | None \<Rightarrow> publish_date tm ls s)"

definition rss_item :: "feed_lib \<Rightarrow> jsstr \<Rightarrow> jsstr \<Rightarrow> rss_entry \<Rightarrow> go_item" where
  "rss_item lib u src e = \<lparr>gi_title = re_title e, gi_source = src, gi_source_url = u, gi_link = re_link e,
     gi_date = publish_date (lib_time lib) rss_layouts (re_pub_date e), gi_description = re_description e\<rparr>"

text \<open>The first link that is \<open>alternate\<close> or has no relation; the first of all when there is none or its
  address is empty.\<close>

definition atom_entry_link :: "atom_link list \<Rightarrow> jsstr" where
  "atom_entry_link ls =
     (case ls of
        [] \<Rightarrow> []
      | l # _ \<Rightarrow>
          (case find (\<lambda>l. al_rel l = lit ''alternate'' \<or> al_rel l = []) ls of
             Some k \<Rightarrow> if al_href k = [] then al_href l else al_href k
           | None \<Rightarrow> al_href l))"

definition atom_item :: "feed_lib \<Rightarrow> jsstr \<Rightarrow> jsstr \<Rightarrow> atom_entry \<Rightarrow> go_item" where
  "atom_item lib u src e = \<lparr>gi_title = ae_title e, gi_source = src, gi_source_url = u,
     gi_link = atom_entry_link (ae_links e),
     gi_date = publish_date (lib_time lib) atom_layouts (if ae_published e = [] then ae_updated e else ae_published e),
     gi_description = (if ae_summary e = [] then ae_content e else ae_summary e)\<rparr>"

text \<open>The options of the reader; those that are not positive are ignored.\<close>

record reader_config =
  concurrency_limit :: int
  max_body_size :: int

datatype reader_option = WithConcurrencyLimit int | WithMaxBodySize int

fun apply_option :: "reader_option \<Rightarrow> reader_config \<Rightarrow> reader_config" where
  "apply_option (WithConcurrencyLimit n) c = (if 0 < n then c\<lparr>concurrency_limit := n\<rparr> else c)"
| "apply_option (WithMaxBodySize n) c = (if 0 < n then c\<lparr>max_body_size := n\<rparr> else c)"

definition new_reader :: "reader_option list \<Rightarrow> reader_config" where
  "new_reader opts = fold apply_option opts \<lparr>concurrency_limit = 10, max_body_size = 10 * 1024 * 1024\<rparr>"

text \<open>\<open>fetchURL\<close>: at most one byte more than the limit is read, so an error behind that is not seen.\<close>

definition fetch_url :: "reader_config \<Rightarrow> download \<Rightarrow> jsstr + byte list" where
  "fetch_url c dl =
     (case dl of
        NoRequest e \<Rightarrow> Inl (lit ''failed to create request: '' @ e)
      | NoResponse e \<Rightarrow> Inl (lit ''failed to fetch: '' @ e)
      | Response code st bytes broken \<Rightarrow>
          if code \<noteq> 200 then Inl (lit ''unexpected HTTP status: '' @ int_text code @ lit '' '' @ st)
          else (let body = take (nat (max_body_size c + 1)) bytes
            in case (if length bytes < nat (max_body_size c + 1) then broken else None) of
                 Some e \<Rightarrow> Inl (lit ''failed to read response body: '' @ e)
               | None \<Rightarrow>
                   if max_body_size c < int (length body)
                   then Inl (lit ''response body exceeds maximum size of '' @ int_text (max_body_size c) @ lit '' bytes'')
                   else Inr body))"

definition fetch_and_parse :: "reader_config \<Rightarrow> feed_lib \<Rightarrow> jsstr \<Rightarrow> jsstr + go_item list" where
  "fetch_and_parse c lib u =
     (case fetch_url c (lib_get lib u) of
        Inl e \<Rightarrow> Inl e
      | Inr body \<Rightarrow>
          (case lib_rss lib body of
             Some (t, es) \<Rightarrow> Inr (map (rss_item lib u t) es)
           | None \<Rightarrow>
               (case lib_atom lib body of
                  Some (t, es) \<Rightarrow> Inr (map (atom_item lib u t) es)
                | None \<Rightarrow> Inl (lit ''unable to parse feed at '' @ u @ lit '': unsupported or malformed format''))))"

section \<open>The reader\<close>

text \<open>\<open>deduplicate\<close>: the first item with a link is kept, items without a link always.\<close>

fun dedup_seen :: "jsstr list \<Rightarrow> go_item list \<Rightarrow> go_item list" where
  "dedup_seen seen [] = []"
| "dedup_seen seen (i # is) =
     (if gi_link i = [] then i # dedup_seen seen is
      else if gi_link i \<in> set seen then dedup_seen seen is
      else i # dedup_seen (gi_link i # seen) is)"

definition deduplicate :: "go_item list \<Rightarrow> go_item list" where
  "deduplicate is = dedup_seen [] is"

text \<open>The order of \<open>sortItems\<close>: newest first, items without a date last.\<close>

definition item_before :: "go_item \<Rightarrow> go_item \<Rightarrow> bool" where
  "item_before i j \<longleftrightarrow>
     (if zero_date (gi_date i) then False
      else if zero_date (gi_date j) then True
      else date_after (gi_date i) (gi_date j))"

text \<open>A reader in its surroundings: its configuration, what the libraries and the web may be like at the moments it
  fetches, and \<open>sort.Slice\<close>, which is not stable and so a parameter with this contract.\<close>

record reader =
  rd_config :: reader_config
  rd_libs :: "feed_lib set"
  rd_sort :: "go_item list \<Rightarrow> go_item list"

definition sorts_items :: "reader \<Rightarrow> bool" where
  "sorts_items rd \<longleftrightarrow>
     (\<forall>xs. mset (rd_sort rd xs) = mset xs \<and> sorted_wrt (\<lambda>i j. \<not> item_before j i) (rd_sort rd xs))"

text \<open>What the goroutines of \<open>Parse\<close> send: one result for each URL, in any order; every download is made
  at its own time, and a goroutine that has to wait sends the error of a context that has ended.\<close>

type_synonym arrival = "jsstr \<times> (jsstr + go_item list)"

definition context_errors :: "jsstr set" where
  "context_errors = {lit ''context canceled'', lit ''context deadline exceeded''}"

definition outcome_of :: "reader \<Rightarrow> jsstr \<Rightarrow> (jsstr + go_item list) \<Rightarrow> bool" where
  "outcome_of rd u r \<longleftrightarrow>
     (\<exists>lib \<in> rd_libs rd. r = fetch_and_parse (rd_config rd) lib u) \<or> (\<exists>e \<in> context_errors. r = Inl e)"

definition arrivals :: "reader \<Rightarrow> jsstr list \<Rightarrow> arrival list \<Rightarrow> bool" where
  "arrivals rd urls rs \<longleftrightarrow> mset (map fst rs) = mset urls \<and> (\<forall>(u, r) \<in> set rs. outcome_of rd u r)"

lemma arrivalsI:
  "mset (map fst rs) = mset urls \<Longrightarrow> lib \<in> rd_libs rd \<Longrightarrow> \<forall>(u, r) \<in> set rs. r = fetch_and_parse (rd_config rd) lib u \<Longrightarrow>
   arrivals rd urls rs"
  unfolding arrivals_def outcome_of_def by auto

definition arrived_items :: "arrival list \<Rightarrow> go_item list" where
  "arrived_items rs = concat (map (\<lambda>(u, r). case r of Inl e \<Rightarrow> [] | Inr is \<Rightarrow> is) rs)"

text \<open>\<open>URLError\<close>: its text starts with the URL.\<close>

definition arrived_errors :: "arrival list \<Rightarrow> (jsstr \<times> jsstr) list" where
  "arrived_errors rs =
     concat (map (\<lambda>(u, r). case r of Inl e \<Rightarrow> [(u, u @ lit '': '' @ e)] | Inr is \<Rightarrow> []) rs)"

definition reader_parse ::
    "reader \<Rightarrow> arrival list \<Rightarrow> go_item list \<times> (jsstr \<times> jsstr) list" where
  "reader_parse rd rs = (rd_sort rd (deduplicate (arrived_items rs)), arrived_errors rs)"

section \<open>A job: cache, fetch, hydrate\<close>

text \<open>\<open>jobstore.RssItem\<close> as it is encoded.\<close>

definition job_item :: "go_item \<Rightarrow> item_msg" where
  "job_item i = [(''title'', Some (gi_title i)), (''source'', Some (gi_source i)),
     (''source_url'', Some (gi_source_url i)), (''link'', Some (gi_link i)),
     (''publish_date'', Some (date_string (gi_date i))), (''description'', Some (gi_description i))]"

type_synonym url_cache = "jsstr \<Rightarrow> item_msg list option"

definition cached_items :: "url_cache \<Rightarrow> jsstr list \<Rightarrow> item_msg list" where
  "cached_items cache urls = concat (map (\<lambda>u. case cache u of Some is \<Rightarrow> is | None \<Rightarrow> []) urls)"

definition urls_to_fetch :: "url_cache \<Rightarrow> jsstr list \<Rightarrow> jsstr list" where
  "urls_to_fetch cache urls = filter (\<lambda>u. cache u = None) urls"

text \<open>The URLs that did not fail are cached with the items whose source they are; \<open>wr u\<close> says that Redis
  takes the entry, a failure is only logged.\<close>

definition hydrate ::
    "(jsstr \<Rightarrow> bool) \<Rightarrow> go_item list \<Rightarrow> (jsstr \<times> jsstr) list \<Rightarrow> jsstr list \<Rightarrow> url_cache \<Rightarrow> url_cache" where
  "hydrate wr items errs urls cache =
     fold (\<lambda>u c. if u \<in> set (map fst errs) \<or> \<not> wr u then c
                 else c(u \<mapsto> map job_item (filter (\<lambda>i. gi_source_url i = u) items))) urls cache"

record job_result =
  jr_items :: "item_msg list"
  jr_errors :: "(jsstr \<times> jsstr) list"
  jr_status :: jsstr

text \<open>The part that \<open>Process\<close> and \<open>Parse\<close> have in common, with the new cache.\<close>

type_synonym parser = "jsstr list \<Rightarrow> go_item list \<times> (jsstr \<times> jsstr) list"

definition run_job :: "parser \<Rightarrow> (jsstr \<Rightarrow> bool) \<Rightarrow> url_cache \<Rightarrow> jsstr list \<Rightarrow> job_result \<times> url_cache" where
  "run_job parse wr cache urls =
     (let misses = urls_to_fetch cache urls;
          fetched = (if misses = [] then ([], []) else parse misses);
          items = cached_items cache urls @ map job_item (fst fetched);
          all_failed = items = [] \<and> length urls \<le> length (snd fetched) \<and> 0 < length urls
      in (\<lparr>jr_items = items, jr_errors = snd fetched,
           jr_status = (if all_failed then lit ''failed'' else lit ''done'')\<rparr>,
          if misses = [] then cache else hydrate wr (fst fetched) (snd fetched) misses cache))"

text \<open>The message of \<open>PublishResult\<close>; a slice that was never appended to is \<open>null\<close>.\<close>

definition url_err_value :: "jsstr \<times> jsstr \<Rightarrow> jsval" where
  "url_err_value e = Obj [(lit ''url'', Str (fst e)), (lit ''error'', Str (snd e))]"

definition or_null :: "'a list \<Rightarrow> 'a list option" where
  "or_null xs = (if xs = [] then None else Some xs)"

definition result_message :: "jsstr \<Rightarrow> job_result \<Rightarrow> result_msg" where
  "result_message job r = \<lparr>rm_job = Some job, rm_status = Some (jr_status r),
     rm_items = or_null (jr_items r), rm_errors = or_null (map url_err_value (jr_errors r))\<rparr>"

section \<open>The worker\<close>

record stored_job =
  sj_status :: jsstr
  sj_result :: "job_result option"

text \<open>Redis (the job store, whose \<open>Create\<close> and \<open>Update\<close> both set a key, and the cache), the results and the
  commands published.\<close>

record service =
  sv_store :: "jsstr \<Rightarrow> stored_job option"
  sv_cache :: url_cache
  sv_results :: "result_msg list"
  sv_commands :: "(jsstr \<times> jsstr list) list"

definition service_init :: service where
  "service_init = \<lparr>sv_store = (\<lambda>_. None), sv_cache = (\<lambda>_. None), sv_results = [], sv_commands = []\<rparr>"

definition set_job :: "jsstr \<Rightarrow> jsstr \<Rightarrow> job_result option \<Rightarrow> service \<Rightarrow> service" where
  "set_job job st r s = s\<lparr>sv_store := (sv_store s)(job \<mapsto> \<lparr>sj_status = st, sj_result = r\<rparr>)\<rparr>"

text \<open>Which of the calls of \<open>Process\<close> succeed: the two updates of the job store and the publication
  (\<open>None\<close>: there is no publisher).\<close>

record service_up =
  up_start :: bool
  up_finish :: bool
  up_publish :: "bool option"

text \<open>\<open>Processor.Process\<close>: true when it returns no error.\<close>

definition process_job ::
    "parser \<Rightarrow> (jsstr \<Rightarrow> bool) \<Rightarrow> service_up \<Rightarrow> jsstr \<Rightarrow> jsstr list \<Rightarrow> service \<Rightarrow> bool \<times> service" where
  "process_job parse wr up job urls s =
     (if \<not> up_start up then (False, s)
      else
        let s1 = set_job job (lit ''processing'') None s;
            (r, cache) = run_job parse wr (sv_cache s1) urls;
            s2 = s1\<lparr>sv_cache := cache\<rparr>
        in if \<not> up_finish up then (False, s2)
           else
             let s3 = set_job job (jr_status r) (Some r) s2
             in case up_publish up of
                  None \<Rightarrow> (True, s3)
                | Some False \<Rightarrow> (False, s3)
                | Some True \<Rightarrow> (True, s3\<lparr>sv_results := sv_results s3 @ [result_message job r]\<rparr>))"

section \<open>Deliveries\<close>

text \<open>What the consumer does with a delivery: \<open>None\<close> is a body that is not a command; the counts are
  those of the entries of its \<open>x-death\<close> header.\<close>

datatype settlement = Acked | Requeued | DeadLettered

definition retry_count :: "int list \<Rightarrow> int" where
  "retry_count counts = fold max counts 0"

definition process_delivery ::
    "bool \<Rightarrow> (jsstr \<Rightarrow> jsstr list \<Rightarrow> 's \<Rightarrow> bool \<times> 's) \<Rightarrow> (jsstr \<times> jsstr list) option \<Rightarrow> int list \<Rightarrow>
     's \<times> (jsstr \<times> jsstr list) list \<Rightarrow> settlement \<times> 's \<times> (jsstr \<times> jsstr list) list" where
  "process_delivery failed_queue_up handler body counts sf =
     (case body of
        None \<Rightarrow> (Acked, sf)
      | Some c \<Rightarrow>
          if 3 \<le> retry_count counts then
            (if failed_queue_up then (Acked, fst sf, snd sf @ [c]) else (Requeued, sf))
          else
            (case handler (fst c) (snd c) (fst sf) of
               (ok, s) \<Rightarrow> (if ok then Acked else DeadLettered, s, snd sf)))"

text \<open>The deliveries of one command. A command that was dead-lettered comes back after its time in the retry
  queue (\<open>DeclareTopology\<close>); the broker counts it once for each of the two queues it has left.\<close>

definition x_death :: "nat \<Rightarrow> int list" where
  "x_death k = (if k = 0 then [] else [int k, int k])"

lemma retry_count_x_death: "retry_count (x_death k) = int k"
  by (simp add: retry_count_def x_death_def)

text \<open>From the delivery \<open>n\<close> on, after \<open>k\<close> attempts; \<open>fq n\<close> says whether the failed queue can be written at that
  delivery. A requeued message is delivered again with the counts it has (\<open>Nack(false, true)\<close>). \<open>None\<close> is a command
  that is never settled.\<close>

partial_function (option) command_life ::
    "(nat \<Rightarrow> bool) \<Rightarrow> (jsstr \<Rightarrow> jsstr list \<Rightarrow> 's \<Rightarrow> bool \<times> 's) \<Rightarrow> jsstr \<times> jsstr list \<Rightarrow> nat \<Rightarrow> nat \<Rightarrow>
     's \<times> (jsstr \<times> jsstr list) list \<Rightarrow> ('s \<times> (jsstr \<times> jsstr list) list) option" where
  "command_life fq h c n k sf =
     (case process_delivery (fq n) h (Some c) (x_death k) sf of (st, sf') \<Rightarrow>
        if st = DeadLettered then command_life fq h c (Suc n) (Suc k) sf'
        else if st = Requeued then command_life fq h c (Suc n) k sf'
        else Some sf')"

lemma command_life_tried:
  "k < 3 \<Longrightarrow> command_life fq h c n k (s, f) =
     (case h (fst c) (snd c) s of (ok, t) \<Rightarrow> if ok then Some (t, f) else command_life fq h c (Suc n) (Suc k) (t, f))"
  by (subst command_life.simps) (simp add: process_delivery_def retry_count_x_death split: prod.split)

lemma command_life_exhausted:
  "command_life fq h c n 3 (s, f) = (if fq n then Some (s, f @ [c]) else command_life fq h c (Suc n) 3 (s, f))"
  by (subst command_life.simps) (simp add: process_delivery_def retry_count_x_death)

text \<open>A command that is out of attempts waits for the failed queue.\<close>

lemma command_life_waits:
  assumes "fq m" "n \<le> m"
  shows "command_life fq h c n 3 (s, f) = Some (s, f @ [c])"
  using assms(2) by (induction rule: inc_induct) (simp_all add: command_life_exhausted [of fq h c _ s f] assms(1))

lemma command_life_stuck:
  assumes "command_life fq h c n k sf = Some r" "k = 3"
  shows "\<exists>m \<ge> n. fq m"
  using assms
proof (induction rule: command_life.raw_induct [rotated, consumes 1])
  case (1 life fq h c n k sf r)
  obtain s f where sf: "sf = (s, f)" by (cases sf)
  show ?case
  proof (cases "fq n")
    case False
    with 1(2,3) sf have "life fq h c (Suc n) 3 (s, f) = Some r"
      by (simp add: process_delivery_def retry_count_x_death)
    from 1(1) [OF this refl] show ?thesis using Suc_leD by blast
  qed blast
qed

section \<open>The handler of /parse\<close>

text \<open>Whether the asynchronous path is open (not in fallback mode, and with a publisher), and which of its
  calls succeed: the creation of the job, the publication of the command, and the final creation.\<close>

record handler_up =
  hu_async :: bool
  hu_create :: bool
  hu_command :: bool
  hu_record :: bool

definition accepted_body :: "jsstr \<Rightarrow> result_msg" where
  "accepted_body job = \<lparr>rm_job = Some job, rm_status = None, rm_items = None, rm_errors = None\<rparr>"

text \<open>\<open>None\<close> is a body that is not a request; an empty or missing job id is replaced by \<open>ulid\<close>.\<close>

definition parse_request ::
    "parser \<Rightarrow> (jsstr \<Rightarrow> bool) \<Rightarrow> handler_up \<Rightarrow> jsstr \<Rightarrow> (jsstr \<times> jsstr list) option \<Rightarrow> service \<Rightarrow> service_reply \<times> service" where
  "parse_request parse wr up ulid req s =
     (case req of
        None \<Rightarrow> (Reply 400 None, s)
      | Some (jid, urls) \<Rightarrow>
          if urls = [] then (Reply 400 None, s)
          else
            let job = (if jid = [] then ulid else jid);
                s1 = (if hu_async up \<and> hu_create up then set_job job (lit ''pending'') None s else s)
            in if hu_async up \<and> hu_create up \<and> hu_command up then
                 (Reply 202 (Some (accepted_body job)), s1\<lparr>sv_commands := sv_commands s1 @ [(job, urls)]\<rparr>)
               else
                 (case run_job parse wr (sv_cache s1) urls of
                    (r, cache) \<Rightarrow>
                      let s2 = s1\<lparr>sv_cache := cache\<rparr>
                      in (Reply 200 (Some (result_message job r)),
                          if hu_record up then set_job job (jr_status r) (Some r) s2 else s2)))"

section \<open>The page of a job and the tokens\<close>

text \<open>\<open>handler/jobs.go\<close>: the code and the job; \<open>up\<close> says that Redis answers.\<close>

definition job_page :: "bool \<Rightarrow> jsstr \<Rightarrow> service \<Rightarrow> nat \<times> stored_job option" where
  "job_page up job s =
     (if job = [] then (400, None)
      else if \<not> up then (500, None)
      else (case sv_store s job of None \<Rightarrow> (404, None) | Some j \<Rightarrow> (200, Some j)))"

text \<open>\<open>JWTValidator.ValidateToken\<close>: the library gives the id of a token that is valid and signed with ES256
  (\<open>decode\<close>); the blocklist is asked for an id, and a failure (\<open>None\<close>) rejects the token.\<close>

definition validate_token :: "(jsstr \<Rightarrow> jsstr option) \<Rightarrow> (jsstr \<Rightarrow> bool option) \<Rightarrow> jsstr \<Rightarrow> bool" where
  "validate_token decode blocked token =
     (case decode token of
        None \<Rightarrow> False
      | Some jti \<Rightarrow> jti = [] \<or> blocked jti = Some False)"

definition lower_unit :: "16 word \<Rightarrow> 16 word" where
  "lower_unit c = (if 65 \<le> c \<and> c \<le> 90 then c + 32 else c)"

text \<open>\<open>middleware.Auth\<close>: the scheme and the token of the header, separated by one space.\<close>

definition authorized :: "(jsstr \<Rightarrow> bool) \<Rightarrow> jsstr \<Rightarrow> bool" where
  "authorized valid header =
     (case split_on (cu CHR '' '') header of
        [scheme, token] \<Rightarrow> map lower_unit scheme = lit ''bearer'' \<and> valid token
      | _ \<Rightarrow> False)"

text \<open>\<open>POST /parse\<close> behind the middleware.\<close>

definition serve_parse ::
    "(jsstr \<Rightarrow> bool) \<Rightarrow> jsstr \<Rightarrow> parser \<Rightarrow> (jsstr \<Rightarrow> bool) \<Rightarrow> handler_up \<Rightarrow> jsstr \<Rightarrow> (jsstr \<times> jsstr list) option \<Rightarrow>
     service \<Rightarrow> service_reply \<times> service" where
  "serve_parse valid header parse wr up ulid req s =
     (if authorized valid header then parse_request parse wr up ulid req s else (Reply 401 None, s))"

end
