(* ===== verification/GoFacts.thy ===== *)
theory GoFacts
  imports GoWorker RailsFacts
begin

text \<open>
  Facts of the feed service: what the reader keeps of the arrived items, where the items of a job
  come from, and the service as a step relation with the invariant of its reachable states.
\<close>

section \<open>The merge of the reader\<close>

lemma filter_dedup_seen:
  "filter (\<lambda>i. gi_link i = l) (dedup_seen seen is) =
     (if l = [] then filter (\<lambda>i. gi_link i = l) is
      else if l \<in> set seen then [] else take 1 (filter (\<lambda>i. gi_link i = l) is))"
  by (induction seen "is" rule: dedup_seen.induct) auto

lemma set_dedup: "set (dedup_seen seen is) \<subseteq> set is"
  by (induction seen "is" rule: dedup_seen.induct) auto

lemma sorts_mset: "sorts_items rd \<Longrightarrow> mset (rd_sort rd xs) = mset xs"
  by (simp add: sorts_items_def)

lemma sorts_set: "sorts_items rd \<Longrightarrow> set (rd_sort rd xs) = set xs"
  using sorts_mset mset_eq_setD by blast

lemma sorts_filter: "sorts_items rd \<Longrightarrow> mset (filter p (rd_sort rd xs)) = mset (filter p xs)"
  by (simp add: sorts_mset)

lemma sorts_empty: "sorts_items rd \<Longrightarrow> rd_sort rd [] = []"
  using sorts_mset [of rd "[]"] by simp

lemma length_filter_all: "length (filter P xs) = length xs \<longleftrightarrow> (\<forall>x \<in> set xs. P x)"
  by (metis filter_True length_filter_less less_irrefl)

lemma not_before: "\<not> item_before j i \<longleftrightarrow>
    zero_date (gi_date j) \<or> \<not> zero_date (gi_date i) \<and> date_day (gi_date j) \<le> date_day (gi_date i)"
  by (simp add: item_before_def date_after_def not_less)

text \<open>A sort that meets the contract: the dated items by day, then the others.\<close>

definition plain_sort :: "go_item list \<Rightarrow> go_item list" where
  "plain_sort xs = sort_key (\<lambda>i. - date_day (gi_date i)) (filter (\<lambda>i. \<not> zero_date (gi_date i)) xs)
     @ filter (\<lambda>i. zero_date (gi_date i)) xs"

lemma plain_sort_ok: "sorts_items \<lparr>rd_config = c, rd_libs = ls, rd_sort = plain_sort\<rparr>"
proof -
  have "sorted_wrt (\<lambda>i j. \<not> item_before j i)
      (sort_key (\<lambda>i. - date_day (gi_date i)) (filter (\<lambda>i. \<not> zero_date (gi_date i)) xs))" for xs
  proof (rule sorted_wrt_mono_rel)
    show "sorted_wrt (\<lambda>i j. - date_day (gi_date i) \<le> - date_day (gi_date j))
        (sort_key (\<lambda>i. - date_day (gi_date i)) (filter (\<lambda>i. \<not> zero_date (gi_date i)) xs))"
      using sorted_sort_key [of "\<lambda>i. - date_day (gi_date i)"] by (simp add: sorted_map)
  qed (simp add: not_before)
  moreover have "sorted_wrt (\<lambda>i j. \<not> item_before j i) (filter (\<lambda>i. zero_date (gi_date i)) xs)" for xs
    by (induction xs) (simp_all add: not_before)
  moreover have "mset (plain_sort xs) = mset xs" for xs
    by (simp add: plain_sort_def)
  ultimately show ?thesis
    by (simp add: sorts_items_def plain_sort_def sorted_wrt_append) (simp add: not_before)
qed

text \<open>Three states of the web: a feed of one entry, no answer, an empty feed; and a reader that meets them.\<close>

definition down_lib :: feed_lib where
  "down_lib = \<lparr>lib_get = (\<lambda>u. NoResponse (lit ''timeout'')), lib_rss = (\<lambda>_. None), lib_atom = (\<lambda>_. None), lib_time = (\<lambda>_ _. None)\<rparr>"

definition sample_lib :: feed_lib where
  "sample_lib = \<lparr>lib_get = (\<lambda>u. Response 200 (lit ''200 OK'') [] None),
     lib_rss = (\<lambda>_. Some ([], [\<lparr>re_title = [], re_link = lit ''l'', re_pub_date = [], re_description = []\<rparr>])),
     lib_atom = (\<lambda>_. None), lib_time = (\<lambda>_ _. None)\<rparr>"

definition empty_lib :: feed_lib where
  "empty_lib = down_lib\<lparr>lib_get := (\<lambda>u. Response 200 (lit ''200 OK'') [] None), lib_rss := (\<lambda>_. Some ([], []))\<rparr>"

definition plain_reader :: reader where
  "plain_reader = \<lparr>rd_config = new_reader [], rd_libs = {sample_lib, down_lib, empty_lib}, rd_sort = plain_sort\<rparr>"

lemma plain_reader_ok: "sorts_items plain_reader"
  unfolding plain_reader_def by (rule plain_sort_ok)

lemma plain_reader_simps [simp]:
  "rd_config plain_reader = new_reader []" "rd_sort plain_reader = plain_sort"
  "sample_lib \<in> rd_libs plain_reader" "down_lib \<in> rd_libs plain_reader" "empty_lib \<in> rd_libs plain_reader"
  by (simp_all add: plain_reader_def)

section \<open>Where items come from\<close>

text \<open>What a feed says: the item shows an entry of the document that its URL delivers, under the title of that feed.
  The date is one that the library reads from the entry, if there is any.\<close>

definition dated_from :: "feed_lib \<Rightarrow> jsstr \<Rightarrow> go_date \<Rightarrow> bool" where
  "dated_from lib s d \<longleftrightarrow> d = (0, 0, 0) \<or> (\<exists>layout. lib_time lib layout s = Some (d, False))"

definition shows_rss :: "feed_lib \<Rightarrow> rss_entry \<Rightarrow> go_item \<Rightarrow> bool" where
  "shows_rss lib e i \<longleftrightarrow> gi_title i = re_title e \<and> gi_link i = re_link e \<and> gi_description i = re_description e \<and>
     dated_from lib (re_pub_date e) (gi_date i)"

definition shows_atom :: "feed_lib \<Rightarrow> atom_entry \<Rightarrow> go_item \<Rightarrow> bool" where
  "shows_atom lib e i \<longleftrightarrow> gi_title i = ae_title e \<and>
     (if ae_links e = [] then gi_link i = [] else gi_link i \<in> al_href ` set (ae_links e)) \<and>
     gi_description i \<in> {ae_summary e, ae_content e} \<and>
     (dated_from lib (ae_published e) (gi_date i) \<or> dated_from lib (ae_updated e) (gi_date i))"

definition in_feed :: "feed_lib \<Rightarrow> go_item \<Rightarrow> bool" where
  "in_feed lib i \<longleftrightarrow> (\<exists>st body. lib_get lib (gi_source_url i) = Response 200 st body None \<and>
     (case lib_rss lib body of
        Some (t, es) \<Rightarrow> gi_source i = t \<and> (\<exists>e \<in> set es. shows_rss lib e i)
      | None \<Rightarrow>
          (case lib_atom lib body of
             Some (t, es) \<Rightarrow> gi_source i = t \<and> (\<exists>e \<in> set es. shows_atom lib e i)
           | None \<Rightarrow> False)))"

lemma publish_date_from: "dated_from lib s (publish_date (lib_time lib) ls s)"
  by (induction "lib_time lib" ls s rule: publish_date.induct) (auto simp: dated_from_def split: option.split)

lemma rss_item_shows: "shows_rss lib e (rss_item lib u t e)"
  by (simp add: shows_rss_def rss_item_def publish_date_from)

lemma atom_entry_link_of: "ls \<noteq> [] \<Longrightarrow> atom_entry_link ls \<in> al_href ` set ls"
  by (cases ls) (auto simp: atom_entry_link_def find_Some_iff split: option.split)

lemma atom_item_shows: "shows_atom lib e (atom_item lib u t e)"
  by (auto simp: shows_atom_def atom_item_def publish_date_from atom_entry_link_of)
    (simp_all add: atom_entry_link_def)

lemma item_feed: "gi_source (rss_item lib u t e) = t" "gi_source (atom_item lib u t a) = t"
  by (simp_all add: rss_item_def atom_item_def)

lemma fetch_url_body: "fetch_url c dl = Inr body \<Longrightarrow> \<exists>st. dl = Response 200 st body None"
  by (cases dl) (auto simp: fetch_url_def Let_def split: if_splits option.splits)

lemma fetched_from:
  assumes "fetch_and_parse c lib u = Inr is" "i \<in> set is"
  shows "gi_source_url i = u" "in_feed lib i"
proof -
  obtain body where b: "fetch_url c (lib_get lib u) = Inr body"
    using assms(1) by (auto simp: fetch_and_parse_def split: sum.splits)
  obtain st where st: "lib_get lib u = Response 200 st body None" using fetch_url_body [OF b] by blast
  show u: "gi_source_url i = u"
    using assms by (auto simp: fetch_and_parse_def rss_item_def atom_item_def split: sum.splits option.splits)
  have "(\<exists>t es e. lib_rss lib body = Some (t, es) \<and> e \<in> set es \<and> i = rss_item lib u t e) \<or>
      (\<exists>t es e. lib_rss lib body = None \<and> lib_atom lib body = Some (t, es) \<and> e \<in> set es \<and> i = atom_item lib u t e)"
    using assms b by (auto simp: fetch_and_parse_def split: option.splits)
  then have "case lib_rss lib body of
      Some (t, es) \<Rightarrow> gi_source i = t \<and> (\<exists>e \<in> set es. shows_rss lib e i)
    | None \<Rightarrow> (case lib_atom lib body of
        Some (t, es) \<Rightarrow> gi_source i = t \<and> (\<exists>e \<in> set es. shows_atom lib e i) | None \<Rightarrow> False)"
    by (elim disjE exE) (auto intro!: bexI rss_item_shows atom_item_shows simp: item_feed)
  with st show "in_feed lib i" unfolding in_feed_def u by blast
qed

abbreviation fed :: "reader \<Rightarrow> go_item \<Rightarrow> bool" where
  "fed rd i \<equiv> \<exists>lib \<in> rd_libs rd. in_feed lib i"

lemma arrival_source:
  assumes "arrivals rd urls rs" "(u, Inr is) \<in> set rs" "i \<in> set is"
  shows "gi_source_url i = u \<and> u \<in> set urls \<and> fed rd i"
proof -
  obtain lib where l: "lib \<in> rd_libs rd" "fetch_and_parse (rd_config rd) lib u = Inr is"
    using assms(1,2) by (auto simp: arrivals_def outcome_of_def)
  have "mset (map fst rs) = mset urls" using assms(1) by (simp add: arrivals_def)
  then have "set (map fst rs) = set urls" by (rule mset_eq_setD)
  then have "u \<in> set urls" using assms(2) by force
  with l fetched_from [OF l(2) assms(3)] show ?thesis by blast
qed

lemma arrived_source: "arrivals rd urls rs \<Longrightarrow> i \<in> set (arrived_items rs) \<Longrightarrow> gi_source_url i \<in> set urls \<and> fed rd i"
  using arrival_source by (fastforce simp: arrived_items_def split: sum.splits)

lemma parsed_source:
  "sorts_items rd \<Longrightarrow> arrivals rd urls rs \<Longrightarrow> i \<in> set (fst (reader_parse rd rs)) \<Longrightarrow> gi_source_url i \<in> set urls \<and> fed rd i"
  using arrived_source set_dedup by (fastforce simp: reader_parse_def deduplicate_def sorts_set)

lemma errors_urls: "map fst (arrived_errors rs) = map fst (filter (\<lambda>(u, r). isl r) rs)"
  by (induction rs) (auto simp: arrived_errors_def split: sum.splits)

lemma arrivals_length: "arrivals rd urls rs \<Longrightarrow> length rs = length urls"
  by (metis arrivals_def length_map size_mset)

lemma job_item_fields [simp]:
  "field ''source_url'' (job_item i) = Some (gi_source_url i)" "field ''link'' (job_item i) = Some (gi_link i)"
  by (simp_all add: field_def job_item_def)

text \<open>An item message of an entry in the feed of a URL that satisfies \<open>ok\<close>, and a cache that holds under each URL
  only items of its feed.\<close>

definition item_from :: "reader \<Rightarrow> (jsstr \<Rightarrow> bool) \<Rightarrow> item_msg \<Rightarrow> bool" where
  "item_from rd ok m \<longleftrightarrow> (\<exists>i. m = job_item i \<and> ok (gi_source_url i) \<and> fed rd i)"

definition cache_ok :: "reader \<Rightarrow> url_cache \<Rightarrow> bool" where
  "cache_ok rd c \<longleftrightarrow> (\<forall>u ms m. c u = Some ms \<longrightarrow> m \<in> set ms \<longrightarrow> item_from rd ((=) u) m)"

lemma hydrate_at:
  "hydrate wr items errs urls c u =
     (if u \<in> set urls \<and> u \<notin> set (map fst errs) \<and> wr u
      then Some (map job_item (filter (\<lambda>i. gi_source_url i = u) items)) else c u)"
  unfolding hydrate_def by (induction urls arbitrary: c) auto

lemma hydrate_cache_ok:
  "cache_ok rd c \<Longrightarrow> \<forall>i \<in> set items. fed rd i \<Longrightarrow> cache_ok rd (hydrate wr items errs urls c)"
  by (auto simp: cache_ok_def hydrate_at item_from_def)

lemma run_job_cache:
  assumes "cache_ok rd c" "sorts_items rd" "arrivals rd (urls_to_fetch c urls) rs"
  shows "cache_ok rd (snd (run_job (\<lambda>_. reader_parse rd rs) wr c urls))"
  using hydrate_cache_ok [OF assms(1)] parsed_source [OF assms(2,3)] assms(1) by (simp add: run_job_def Let_def)

lemma run_job_final: "final_status (jr_status (fst (run_job parse wr c urls)))"
  by (simp add: run_job_def Let_def final_status_def)

lemma run_job_items:
  assumes "cache_ok rd c" "sorts_items rd" "arrivals rd (urls_to_fetch c urls) rs" "\<forall>u \<in> set urls. ok u"
    and "m \<in> set (jr_items (fst (run_job (\<lambda>_. reader_parse rd rs) wr c urls)))"
  shows "item_from rd ok m"
proof -
  from assms(5) consider (cached) "m \<in> set (cached_items c urls)"
    | (parsed) i where "m = job_item i" "i \<in> set (fst (reader_parse rd rs))"
    by (auto simp: run_job_def Let_def split: if_splits)
  then show ?thesis
  proof cases
    case cached
    then have "\<exists>u ms. u \<in> set urls \<and> c u = Some ms \<and> m \<in> set ms"
      unfolding cached_items_def by (auto split: option.splits) (metis option.inject)
    then obtain u ms where "u \<in> set urls" "c u = Some ms" "m \<in> set ms" by blast
    with assms(1,4) show ?thesis by (fastforce simp: cache_ok_def item_from_def)
  next
    case parsed
    with parsed_source [OF assms(2,3), of i] assms(4) show ?thesis
      by (auto simp: item_from_def urls_to_fetch_def)
  qed
qed

section \<open>The service\<close>

text \<open>The service processes commands and answers requests, in any order; cache entries and jobs may expire.
  Every URL it is given satisfies \<open>ok\<close>.\<close>

inductive go_step :: "reader \<Rightarrow> (jsstr \<Rightarrow> bool) \<Rightarrow> service \<Rightarrow> service \<Rightarrow> bool"
  for rd ok where
  gs_command: "\<forall>u \<in> set urls. ok u \<Longrightarrow> arrivals rd (urls_to_fetch (sv_cache s) urls) rs \<Longrightarrow>
    go_step rd ok s (snd (process_job (\<lambda>_. reader_parse rd rs) wr up job urls s))"
| gs_request: "\<forall>u \<in> set urls. ok u \<Longrightarrow> arrivals rd (urls_to_fetch (sv_cache s) urls) rs \<Longrightarrow>
    go_step rd ok s (snd (serve_parse valid header (\<lambda>_. reader_parse rd rs) wr hup ulid (Some (jid, urls)) s))"
| gs_cache_expires: "go_step rd ok s (s\<lparr>sv_cache := (sv_cache s)(u := None)\<rparr>)"
| gs_job_expires: "go_step rd ok s (s\<lparr>sv_store := (sv_store s)(job := None)\<rparr>)"

definition result_from :: "reader \<Rightarrow> (jsstr \<Rightarrow> bool) \<Rightarrow> result_msg \<Rightarrow> bool" where
  "result_from rd ok m \<longleftrightarrow> msg_final m \<and> (\<forall>item \<in> set (or_empty (rm_items m)). item_from rd ok item)"

definition service_ok :: "reader \<Rightarrow> (jsstr \<Rightarrow> bool) \<Rightarrow> service \<Rightarrow> bool" where
  "service_ok rd ok s \<longleftrightarrow> cache_ok rd (sv_cache s) \<and> (\<forall>m \<in> set (sv_results s). result_from rd ok m)"

lemma or_empty_or_null [simp]: "or_empty (or_null xs) = xs"
  by (simp add: or_empty_def or_null_def)

lemma result_message_from:
  assumes "cache_ok rd c" "sorts_items rd" "arrivals rd (urls_to_fetch c urls) rs" "\<forall>u \<in> set urls. ok u"
  shows "result_from rd ok (result_message job (fst (run_job (\<lambda>_. reader_parse rd rs) wr c urls)))"
  using run_job_items [OF assms] run_job_final
  by (simp add: result_from_def result_message_def msg_final_def)

lemma process_job_effect:
  fixes parse wr up job urls s
  defines "t \<equiv> snd (process_job parse wr up job urls s)"
  shows "sv_cache t = sv_cache s \<and> sv_results t = sv_results s \<or>
    sv_cache t = snd (run_job parse wr (sv_cache s) urls) \<and>
    (sv_results t = sv_results s \<or>
     sv_results t = sv_results s @ [result_message job (fst (run_job parse wr (sv_cache s) urls))])"
proof -
  obtain r cache where "run_job parse wr (sv_cache s) urls = (r, cache)" by fastforce
  then show ?thesis
    by (cases "up_publish up") (simp_all add: t_def process_job_def set_job_def Let_def split: bool.split)
qed

lemma process_job_ok:
  assumes "sorts_items rd" "service_ok rd ok s" "\<forall>u \<in> set urls. ok u" "arrivals rd (urls_to_fetch (sv_cache s) urls) rs"
  shows "service_ok rd ok (snd (process_job (\<lambda>_. reader_parse rd rs) wr up job urls s))"
proof -
  have c: "cache_ok rd (sv_cache s)" using assms(2) by (simp add: service_ok_def)
  show ?thesis
    using process_job_effect [of "\<lambda>_. reader_parse rd rs" wr up job urls s] assms(2) run_job_cache [OF c assms(1,4)]
      result_message_from [OF c assms(1,4,3)]
    by (auto simp: service_ok_def)
qed

lemma serve_parse_frame:
  "sv_results (snd (serve_parse valid header parse wr hup ulid req s)) = sv_results s"
  "sv_cache (snd (serve_parse valid header parse wr hup ulid (Some (jid, urls)) s)) \<in>
     {sv_cache s, snd (run_job parse wr (sv_cache s) urls)}"
  by (auto simp: serve_parse_def parse_request_def set_job_def Let_def split: option.split prod.split)

lemma go_step_ok:
  assumes "sorts_items rd" "service_ok rd ok s" "go_step rd ok s t"
  shows "service_ok rd ok t"
  using assms(3)
proof (cases rule: go_step.cases)
  case (gs_command urls rs wr up job)
  then show ?thesis using process_job_ok [OF assms(1,2)] by simp
next
  case (gs_request urls rs valid header wr hup ulid jid)
  have "cache_ok rd (sv_cache s)" using assms(2) by (simp add: service_ok_def)
  then have "cache_ok rd (sv_cache t)"
    using serve_parse_frame(2) [of valid header "\<lambda>_. reader_parse rd rs" wr hup ulid jid urls s] gs_request(1) run_job_cache [OF _ assms(1) gs_request(3)] by auto
  with assms(2) gs_request(1) show ?thesis by (simp add: service_ok_def serve_parse_frame(1))
qed (use assms(2) in \<open>auto simp: service_ok_def cache_ok_def\<close>)

interpretation go: inductive_invariant "\<lambda>s. s = service_init"
    "\<lambda>s t. sorts_items rd \<and> go_step rd ok s t" "service_ok rd ok"
proof unfold_locales
  show "service_ok rd ok s" if "s = service_init" for s
    using that by (simp add: service_ok_def service_init_def cache_ok_def)
qed (use go_step_ok in blast)

definition go_reach :: "reader \<Rightarrow> (jsstr \<Rightarrow> bool) \<Rightarrow> service \<Rightarrow> bool" where
  "go_reach rd ok s \<longleftrightarrow> reach (\<lambda>s. s = service_init) (go_step rd ok) s"

lemma go_reach_ok:
  assumes "sorts_items rd" "go_reach rd ok s"
  shows "service_ok rd ok s"
proof (rule go.reachable_inv [of rd ok])
  show "reach (\<lambda>s. s = service_init) (\<lambda>s t. sorts_items rd \<and> go_step rd ok s t) s"
    using assms(2) unfolding go_reach_def by (rule reach_mono) (use assms(1) in blast)
qed

text \<open>The job store: a job is open and has no result, or has ended with the result whose status it shows.\<close>

definition job_sound :: "stored_job \<Rightarrow> bool" where
  "job_sound j \<longleftrightarrow> (case sj_result j of None \<Rightarrow> open_status (sj_status j)
     | Some r \<Rightarrow> final_status (sj_status j) \<and> jr_status r = sj_status j)"

definition store_sound :: "service \<Rightarrow> bool" where
  "store_sound s \<longleftrightarrow> (\<forall>j \<in> ran (sv_store s). job_sound j)"

lemma store_sound_set:
  "store_sound s \<Longrightarrow> job_sound \<lparr>sj_status = st, sj_result = r\<rparr> \<Longrightarrow> store_sound (set_job job st r s)"
  by (auto simp: store_sound_def set_job_def ran_def)

lemma store_sound_frame: "store_sound (s\<lparr>sv_cache := c\<rparr>) = store_sound s" "store_sound (s\<lparr>sv_results := rs\<rparr>) = store_sound s"
    "store_sound (s\<lparr>sv_commands := cs\<rparr>) = store_sound s"
  by (simp_all add: store_sound_def)

lemma job_sound_simps:
  "job_sound \<lparr>sj_status = lit ''processing'', sj_result = None\<rparr>" "job_sound \<lparr>sj_status = lit ''pending'', sj_result = None\<rparr>"
  "job_sound \<lparr>sj_status = jr_status (fst (run_job parse wr c us)), sj_result = Some (fst (run_job parse wr c us))\<rparr>"
  using run_job_final by (simp_all add: job_sound_def open_status_def)

lemma process_job_sound: "store_sound s \<Longrightarrow> store_sound (snd (process_job parse wr up job us s))"
  by (auto simp: process_job_def Let_def case_prod_unfold store_sound_frame store_sound_set job_sound_simps
      split: option.split bool.split)

lemma serve_parse_sound: "store_sound s \<Longrightarrow> store_sound (snd (serve_parse valid header parse wr hup ulid req s))"
  by (auto simp: serve_parse_def parse_request_def Let_def case_prod_unfold store_sound_frame store_sound_set job_sound_simps
      split: option.split)

interpretation jobs: inductive_invariant "\<lambda>s. s = service_init" "go_step rd ok" store_sound
proof unfold_locales
  show "store_sound s" if "s = service_init" for s using that by (simp add: store_sound_def service_init_def)
  show "store_sound t" if "store_sound s" "go_step rd ok s t" for s t
    using that(2,1)
  proof cases
    case (gs_job_expires job)
    with that(1) show ?thesis by (auto simp: store_sound_def ran_def split: if_splits)
  qed (auto simp: process_job_sound serve_parse_sound store_sound_frame)
qed

text \<open>What the service publishes, and what it answers to the fallback of a request, which has a job id.\<close>

definition go_messages :: "reader \<Rightarrow> (jsstr \<Rightarrow> bool) \<Rightarrow> result_msg \<Rightarrow> bool" where
  "go_messages rd ok m \<longleftrightarrow> (\<exists>s. go_reach rd ok s \<and> m \<in> set (sv_results s))"

definition go_replies ::
    "reader \<Rightarrow> (jsstr \<Rightarrow> bool) \<Rightarrow> feed_request \<Rightarrow> service_reply \<Rightarrow> bool" where
  "go_replies rd ok r reply \<longleftrightarrow>
     (\<exists>e. reply = NoReply e) \<or>
     (\<exists>s rs valid header wr hup ulid j. go_reach rd ok s \<and> rq_job r = Some j \<and> j \<noteq> [] \<and>
        arrivals rd (urls_to_fetch (sv_cache s) (rq_urls r)) rs \<and>
        reply = fst (serve_parse valid header (\<lambda>_. reader_parse rd rs) wr hup ulid (Some (j, rq_urls r)) s))"

lemma serve_parse_reply:
  assumes "fst (serve_parse valid header parse wr hup ulid (Some (j, urls)) s) = Reply 200 (Some m)" "j \<noteq> []"
  shows "m = result_message j (fst (run_job parse wr (sv_cache s) urls))"
  using assms by (auto simp: serve_parse_def parse_request_def set_job_def Let_def split: if_splits prod.splits)

lemma go_contract:
  assumes "sorts_items rd"
  shows "service_contract (go_messages rd ok) (go_replies rd ok)"
proof -
  have "msg_final m" if m: "go_messages rd ok m" for m
  proof -
    obtain s where "go_reach rd ok s" "m \<in> set (sv_results s)" using m by (auto simp: go_messages_def)
    with go_reach_ok [OF assms, of ok s] show ?thesis by (simp add: service_ok_def result_from_def)
  qed
  moreover have "rm_job m = rq_job r \<and> msg_final m" if r: "go_replies rd ok r (Reply 200 (Some m))" for r m
    using r unfolding go_replies_def
    by (auto dest!: sym [of "Reply 200 _"] serve_parse_reply simp: result_message_def msg_final_def run_job_final)
  ultimately show ?thesis by (simp add: service_contract_def)
qed

text \<open>Its results can be stored.\<close>

lemma go_result_stores:
  assumes "sorts_items rd" "go_messages rd (\<lambda>u. \<not> blank u) m"
  shows "msg_final m" "fst (store_items env (\<lambda>_. True) rid (or_empty (rm_items m)) s) = Inr ()"
proof -
  obtain t where t: "go_reach rd (\<lambda>u. \<not> blank u) t" "m \<in> set (sv_results t)"
    using assms(2) by (auto simp: go_messages_def)
  then have r: "result_from rd (\<lambda>u. \<not> blank u) m" using go_reach_ok [OF assms(1) t(1)] by (simp add: service_ok_def)
  then show "msg_final m" by (simp add: result_from_def)
  show "fst (store_items env (\<lambda>_. True) rid (or_empty (rm_items m)) s) = Inr ()"
    using r by (intro store_items_succeed) (fastforce simp: result_from_def item_from_def)
qed

lemma go_result_processed:
  assumes "sorts_items rd" "go_messages rd (\<lambda>u. \<not> blank u) m"
    and "work_find m t = Some r" "open_status (rq_status r)"
  shows "fst (work env (\<lambda>_. True) (Some m) t) = Inr Ack \<and>
    casts (snd (work env (\<lambda>_. True) (Some m) t)) = casts t @
      [(rq_user r, \<lparr>bc_request = rq_id r, bc_status = the (rm_status m), bc_items = or_empty (rm_items m),
         bc_errors = or_empty (rm_errors m)\<rparr>)]"
proof -
  obtain st where st: "rm_status m = Some st" using go_result_stores(1) [OF assms(1,2)] by (auto simp: msg_final_def)
  have c: "casts (snd (store_items env (\<lambda>_. True) (rq_id r) its s)) = casts s" for its s
    using store_items_view [of env "\<lambda>_. True" "rq_id r" its s] by (simp add: request_view_def)
  obtain v where v: "store_items env (\<lambda>_. True) (rq_id r) (or_empty (rm_items m)) (claimed m st t) = (Inr (), v)"
    using go_result_stores(2) [OF assms(1,2), of env "rq_id r" "claimed m st t"]
    by (cases "store_items env (\<lambda>_. True) (rq_id r) (or_empty (rm_items m)) (claimed m st t)") simp
  have "casts v = casts t" using c [of "or_empty (rm_items m)" "claimed m st t"] v by (simp add: claimed_def set_request_def)
  then show ?thesis
    using v st by (auto simp: work_some [OF assms(3,4) st] work_finish_def act_simps claimed_def)
qed

lemmas go_result_acked = go_result_processed [THEN conjunct1]

text \<open>The reader as an interface: with any sort that meets its contract the service is a feed
  service for Rails.\<close>

locale item_sort =
  fixes rd :: reader
  assumes sorts: "sorts_items rd"

sublocale item_sort \<subseteq> service: feed_service "go_messages rd ok" "go_replies rd ok" for ok
  by unfold_locales (rule go_contract [OF sorts])

interpretation plain: item_sort plain_reader
  by unfold_locales (rule plain_reader_ok)

end
