(* ===== verification/BrokerClient.thy ===== *)
theory BrokerClient
  imports Machine
begin

text \<open>
  The connection of the Go service to the broker (\<open>rabbitmq/client.go\<close>): the client, what closes and
  opens its channel, and the recovery loop with its growing delays. Dialling and the callback that
  declares the topology are outcomes.
\<close>

section \<open>The client\<close>

text \<open>\<open>cl_open\<close>: the channel is not \<open>nil\<close>; \<open>cl_signal\<close>: a signal waits in \<open>reconnectChan\<close>, which holds one.\<close>

record broker_client =
  cl_open :: bool
  cl_closed :: bool
  cl_signal :: bool

definition new_client :: broker_client where
  "new_client = \<lparr>cl_open = False, cl_closed = False, cl_signal = False\<rparr>"

text \<open>\<open>Connect\<close>: \<open>dialled\<close> says that the connection, its channel and its quality of service could be set up.\<close>

definition connect :: "bool \<Rightarrow> broker_client \<Rightarrow> bool \<times> broker_client" where
  "connect dialled c =
     (if cl_closed c then (False, c)
      else if dialled then (True, c\<lparr>cl_open := True\<rparr>)
      else (False, c))"

text \<open>\<open>handleDisconnects\<close> after the connection or the channel was closed.\<close>

definition handle_disconnect :: "broker_client \<Rightarrow> broker_client" where
  "handle_disconnect c = (if cl_closed c then c else c\<lparr>cl_open := False, cl_signal := True\<rparr>)"

definition trigger_recovery :: "broker_client \<Rightarrow> broker_client" where
  "trigger_recovery c = c\<lparr>cl_signal := True\<rparr>"

definition close_client :: "broker_client \<Rightarrow> broker_client" where
  "close_client c = c\<lparr>cl_open := False, cl_closed := True\<rparr>"

section \<open>The recovery loop\<close>

definition next_backoff :: "nat \<Rightarrow> nat" where
  "next_backoff b = min (b * 2) 60"

text \<open>The attempts of one recovery: for each, whether dialling and the callback succeed. The result says
  whether the loop has ended, the delay in seconds that comes next, the delays slept, and the client.\<close>

fun recover :: "(bool \<times> bool) list \<Rightarrow> nat \<Rightarrow> broker_client \<Rightarrow> bool \<times> nat \<times> nat list \<times> broker_client" where
  "recover [] backoff c = (False, backoff, [], c)"
| "recover ((dialled, declared) # outcomes) backoff c =
     (case connect dialled c of
        (True, c') \<Rightarrow>
          if declared then (True, 1, [], c')
          else (case recover outcomes (next_backoff 1) (close_client c') of (e, b, ds, t) \<Rightarrow> (e, b, 1 # ds, t))
      | (False, c') \<Rightarrow>
          (case recover outcomes (next_backoff backoff) c' of (e, b, ds, t) \<Rightarrow> (e, b, backoff # ds, t)))"

text \<open>The loop waits for a signal and takes it.\<close>

definition recovery :: "(bool \<times> bool) list \<Rightarrow> nat \<Rightarrow> broker_client \<Rightarrow> bool \<times> nat \<times> nat list \<times> broker_client" where
  "recovery outcomes backoff c =
     (if cl_signal c then recover outcomes backoff (c\<lparr>cl_signal := False\<rparr>) else (True, backoff, [], c))"

section \<open>What the loop does\<close>

text \<open>A closed client stays closed and without a channel.\<close>

lemma recover_closed:
  "cl_closed c \<Longrightarrow> \<not> cl_open c \<Longrightarrow>
   \<not> fst (recover os b c) \<and> snd (snd (snd (recover os b c))) = c"
  by (induction os b c rule: recover.induct) (auto simp: connect_def split: prod.split)

lemma next_backoff_bounds: "0 < b \<Longrightarrow> 0 < next_backoff b \<and> next_backoff b \<le> 60"
  by (simp add: next_backoff_def)

lemma recover_delays:
  "0 < b \<Longrightarrow> b \<le> 60 \<Longrightarrow> set (fst (snd (snd (recover os b c)))) \<subseteq> {1..60}"
proof (induction os b c rule: recover.induct)
  case (2 dialled declared os b c)
  have n: "0 < next_backoff b \<and> next_backoff b \<le> 60" "0 < next_backoff 1 \<and> next_backoff 1 \<le> 60"
    using 2(3) by (simp_all add: next_backoff_bounds)
  show ?case
  proof (cases "connect dialled c")
    case (Pair ok c')
    show ?thesis
      using 2 Pair n by (cases ok; cases declared) (auto simp: case_prod_unfold)
  qed
qed simp

lemma backoff_power: "(next_backoff ^^ n) 1 = min (2 ^ n) 60"
proof (induction n)
  case (Suc n)
  have "min (min x 60 * 2) 60 = min (2 * x) (60::nat)" for x by (simp add: min_def)
  with Suc show ?case by (simp add: next_backoff_def)
qed simp

lemma recover_failures:
  "\<not> cl_closed c \<Longrightarrow>
   recover (replicate n (False, k) @ os) b c =
    (case recover os ((next_backoff ^^ n) b) c of
       (e, b', ds, t) \<Rightarrow> (e, b', map (\<lambda>i. (next_backoff ^^ i) b) [0..<n] @ ds, t))"
proof (induction n arbitrary: b)
  case (Suc n)
  have "map (\<lambda>i. (next_backoff ^^ i) b) [0..<Suc n] = b # map (\<lambda>i. (next_backoff ^^ i) (next_backoff b)) [0..<n]"
    by (simp add: map_upt_Suc funpow_swap1 del: upt_Suc)
  with Suc show ?case by (simp add: connect_def case_prod_unfold funpow_swap1 del: upt_Suc)
qed (simp add: case_prod_unfold)

section \<open>The client over time\<close>

text \<open>\<open>main.go\<close> connects once and asks for a recovery when that fails. When it works and the channel is still there
  (\<open>kept\<close>) it declares the topology; a declaration that fails ends the program (\<open>None\<close>).
  Afterwards the connection may be lost, the loop may finish a recovery, and the client may be closed.\<close>

definition boot :: "bool \<Rightarrow> bool \<Rightarrow> bool \<Rightarrow> broker_client option" where
  "boot dialled kept declared =
     (case connect dialled new_client of
        (False, c) \<Rightarrow> Some (trigger_recovery c)
      | (True, c) \<Rightarrow>
          if \<not> kept then Some (handle_disconnect c)
          else if declared then Some c
          else None)"

definition booted :: "broker_client \<Rightarrow> bool" where
  "booted c \<longleftrightarrow> (\<exists>dialled kept declared. boot dialled kept declared = Some c)"

inductive client_step :: "broker_client \<Rightarrow> broker_client \<Rightarrow> bool" where
  cs_lost: "client_step c (handle_disconnect c)"
| cs_recovered: "cl_signal c \<Longrightarrow> recovery os 1 c = (True, b, ds, t) \<Longrightarrow> client_step c t"
| cs_closed: "client_step c (close_client c)"

definition client_ok :: "broker_client \<Rightarrow> bool" where
  "client_ok c \<longleftrightarrow> (if cl_closed c then \<not> cl_open c else cl_open c \<or> cl_signal c)"

lemma recover_ended:
  "\<not> cl_closed c \<Longrightarrow> recover os b c = (True, b', ds, t) \<Longrightarrow> b' = 1 \<and> t = c\<lparr>cl_open := True\<rparr>"
proof (induction os b c arbitrary: b' ds t rule: recover.induct)
  case (2 dialled declared os b c)
  have closed: "\<not> fst (recover os x (close_client d))" for x d
    using recover_closed [of "close_client d"] by (simp add: close_client_def)
  show ?case
  proof (cases dialled)
    case True
    with 2(3,4) closed [of "next_backoff 1" "c\<lparr>cl_open := True\<rparr>"] show ?thesis
      by (cases declared) (auto simp: connect_def split: prod.splits)
  next
    case False
    with 2(3,4) obtain ds' where "recover os (next_backoff b) c = (True, b', ds', t)"
      by (auto simp: connect_def split: prod.splits)
    with 2(2) [of False c] 2(3) False show ?thesis by (simp add: connect_def)
  qed
qed simp

interpretation client: inductive_invariant booted client_step client_ok
proof unfold_locales
  show "client_ok c" if "booted c" for c
    using that by (auto simp: booted_def boot_def connect_def new_client_def trigger_recovery_def handle_disconnect_def
        client_ok_def split: if_splits)
  show "client_ok t" if "client_ok c" "client_step c t" for c t
    using that(2,1)
  proof cases
    case (cs_recovered os b ds)
    show ?thesis
    proof (cases "cl_closed c")
      case True
      with cs_recovered that(1) recover_closed [of "c\<lparr>cl_signal := False\<rparr>" os 1] show ?thesis
        by (simp add: recovery_def client_ok_def)
    next
      case False
      with cs_recovered recover_ended [of "c\<lparr>cl_signal := False\<rparr>" os 1 b ds t] show ?thesis
        by (simp add: recovery_def client_ok_def)
    qed
  qed (auto simp: client_ok_def handle_disconnect_def close_client_def)
qed

end
