(* ===== verification/PropsGo.thy ===== *)
theory PropsGo
  imports GoFacts BrokerClient PropsData PropsRails
begin

text \<open>
  Properties of the feed service, and of the service and the Rails side together: the service keeps
  the contract that the bounds of the Rails side rest on, and its results can be stored.
\<close>

section \<open>The reader\<close>

text \<open>C20. The reader keeps exactly the first item that arrived with each link and every item without one, orders
  the items newest first with the undated ones last, and reports one error for each URL that failed.\<close>

theorem reader_merges:
  assumes "sorts_items rd"
  shows "(\<forall>l. mset (filter (\<lambda>i. gi_link i = l) (fst (reader_parse rd rs))) =
      mset ((if l = [] then id else take 1) (filter (\<lambda>i. gi_link i = l) (arrived_items rs)))) \<and>
    sorted_wrt (\<lambda>i j. zero_date (gi_date j) \<or> \<not> zero_date (gi_date i) \<and> date_day (gi_date j) \<le> date_day (gi_date i))
      (fst (reader_parse rd rs)) \<and>
    map fst (snd (reader_parse rd rs)) = map fst (filter (\<lambda>(u, r). isl r) rs)"
proof -
  have "sorted_wrt (\<lambda>i j. \<not> item_before j i) (rd_sort rd xs)" for xs
    using assms by (simp add: sorts_items_def)
  then show ?thesis
    by (simp add: reader_parse_def deduplicate_def filter_dedup_seen errors_urls not_before sorts_filter [OF assms]
        del: mset_filter)
qed

definition go_sample :: "string \<Rightarrow> string \<Rightarrow> go_date \<Rightarrow> go_item" where
  "go_sample u l d = \<lparr>gi_title = [], gi_source = [], gi_source_url = lit u, gi_link = lit l, gi_date = d, gi_description = []\<rparr>"

lemma reader_merges_witness:
  "length (filter (\<lambda>i. gi_link i = lit ''l'')
     (fst (reader_parse plain_reader [(lit ''u'', Inr [go_sample ''u'' ''l'' (2024, 2, 29), go_sample ''u'' ''l'' (2024, 3, 1)])]))) = 1"
  using reader_merges [OF plain_reader_ok,
      of "[(lit ''u'', Inr [go_sample ''u'' ''l'' (2024, 2, 29), go_sample ''u'' ''l'' (2024, 3, 1)])]", THEN conjunct1,
      THEN spec [of _ "lit ''l''"], THEN arg_cong [of _ _ size]]
  by (simp add: arrived_items_def go_sample_def lit_def del: mset_filter)

section \<open>A job\<close>

text \<open>C21. A job fails exactly when it has URLs, none of them is cached and none could be read; every other job is
  done, also when some URLs failed.\<close>

theorem job_status:
  assumes "sorts_items rd" "arrivals rd (urls_to_fetch cache us) rs"
  shows "jr_status (fst (run_job (\<lambda>_. reader_parse rd rs) wr cache us)) = lit ''failed'' \<longleftrightarrow>
    us \<noteq> [] \<and> (\<forall>u \<in> set us. cache u = None) \<and> (\<forall>a \<in> set rs. isl (snd a))"
proof -
  have e: "length (arrived_errors rs) = length (filter (\<lambda>a. isl (snd a)) rs)"
    using errors_urls [of rs, THEN arg_cong [of _ _ length]] by (simp add: case_prod_unfold)
  have l: "length rs = length (urls_to_fetch cache us)" by (rule arrivals_length [OF assms(2)])
  have m: "length (urls_to_fetch cache us) = length us \<longleftrightarrow> (\<forall>u \<in> set us. cache u = None)"
    "length (urls_to_fetch cache us) \<le> length us"
    by (simp_all add: urls_to_fetch_def length_filter_all)
  have f: "length (filter (\<lambda>a. isl (snd a)) rs) = length rs \<longleftrightarrow> (\<forall>a \<in> set rs. isl (snd a))"
    "length (filter (\<lambda>a. isl (snd a)) rs) \<le> length rs"
    by (simp_all add: length_filter_all)
  have none: "fst (reader_parse rd rs) = []" if "\<forall>a \<in> set rs. isl (snd a)"
  proof -
    have "arrived_items rs = []" using that by (fastforce simp: arrived_items_def split: sum.splits)
    then show ?thesis using sorts_empty [OF assms(1)] by (simp add: reader_parse_def deduplicate_def)
  qed
  have cached: "cached_items cache us = []" if "\<forall>u \<in> set us. cache u = None"
    using that by (auto simp: cached_items_def)
  have "jr_status (fst (run_job (\<lambda>_. reader_parse rd rs) wr cache us)) = lit ''failed'' \<longleftrightarrow>
      cached_items cache us @ map job_item (fst (reader_parse rd rs)) = [] \<and>
      length us \<le> length (arrived_errors rs) \<and> us \<noteq> []"
    using l by (cases "urls_to_fetch cache us = []") (auto simp: run_job_def Let_def reader_parse_def arrived_errors_def
        deduplicate_def arrived_items_def sorts_empty [OF assms(1)])
  then show ?thesis using e l m f none cached by auto
qed

lemma job_status_witness:
  "jr_status (fst (run_job (\<lambda>_. reader_parse plain_reader [(lit ''u'', Inl (lit ''failed to fetch: timeout''))]) (\<lambda>_. True) (\<lambda>_. None) [lit ''u''])) =
     lit ''failed''"
proof -
  have "fetch_and_parse (new_reader []) down_lib (lit ''u'') = Inl (lit ''failed to fetch: timeout'')"
    by (simp add: fetch_and_parse_def down_lib_def fetch_url_def lit_def)
  then have "arrivals plain_reader (urls_to_fetch (\<lambda>_. None) [lit ''u'']) [(lit ''u'', Inl (lit ''failed to fetch: timeout''))]"
    by (intro arrivalsI [of _ _ down_lib]) (simp_all add: urls_to_fetch_def)
  from job_status [OF plain_reader_ok this] show ?thesis by simp
qed

text \<open>C22. What a job fetched is in the cache: a URL that was a miss and did not fail is answered from the cache by a
  later job, whatever its feed says by then, with the items of the merge that came from it; the entries
  of all other URLs are unchanged.\<close>

theorem job_cached:
  assumes "u \<in> set us" "cache u = None" "wr u" "\<forall>e. (u, Inl e) \<notin> set rs"
  shows "run_job parse' wr' (snd (run_job (\<lambda>_. reader_parse rd rs) wr cache us)) [u] =
      (\<lparr>jr_items = map job_item (filter (\<lambda>i. gi_source_url i = u) (fst (reader_parse rd rs))),
        jr_errors = [], jr_status = lit ''done''\<rparr>,
       snd (run_job (\<lambda>_. reader_parse rd rs) wr cache us)) \<and>
    (\<forall>v. v \<notin> set us \<or> cache v \<noteq> None \<longrightarrow> snd (run_job (\<lambda>_. reader_parse rd rs) wr cache us) v = cache v)"
proof -
  have misses: "v \<in> set (urls_to_fetch cache us) \<longleftrightarrow> v \<in> set us \<and> cache v = None" for v
    by (auto simp: urls_to_fetch_def)
  have "u \<notin> set (map fst (snd (reader_parse rd rs)))"
    using assms(4) by (auto simp: reader_parse_def arrived_errors_def split: sum.splits)
  moreover have "urls_to_fetch cache us \<noteq> []" using misses [of u] assms(1,2) by force
  ultimately have new: "snd (run_job (\<lambda>_. reader_parse rd rs) wr cache us) v =
      (if v = u then Some (map job_item (filter (\<lambda>i. gi_source_url i = u) (fst (reader_parse rd rs))))
       else if v \<in> set us \<and> cache v = None \<and> v \<notin> set (map fst (snd (reader_parse rd rs))) \<and> wr v
         then Some (map job_item (filter (\<lambda>i. gi_source_url i = v) (fst (reader_parse rd rs)))) else cache v)" for v
    using assms(1-3) by (auto simp: run_job_def Let_def hydrate_at misses simp del: set_map)
  have hit: "c u = Some ms \<Longrightarrow> run_job parse' wr' c [u] = (\<lparr>jr_items = ms, jr_errors = [], jr_status = lit ''done''\<rparr>, c)"
    for c ms
    by (simp add: run_job_def urls_to_fetch_def cached_items_def)
  have "snd (run_job (\<lambda>_. reader_parse rd rs) wr cache us) u =
      Some (map job_item (filter (\<lambda>i. gi_source_url i = u) (fst (reader_parse rd rs))))"
    by (simp only: new simp_thms if_True)
  then show ?thesis by (intro conjI hit allI impI) (use new assms(1,2) in auto)
qed

lemma job_cached_witness:
  "run_job (\<lambda>_. ([], [])) (\<lambda>_. True)
     (snd (run_job (\<lambda>_. reader_parse plain_reader [(lit ''u'', Inr [])]) (\<lambda>_. True) (\<lambda>_. None) [lit ''u''])) [lit ''u''] =
   (\<lparr>jr_items = [], jr_errors = [], jr_status = lit ''done''\<rparr>,
    snd (run_job (\<lambda>_. reader_parse plain_reader [(lit ''u'', Inr [])]) (\<lambda>_. True) (\<lambda>_. None) [lit ''u'']))"
  using job_cached [of "lit ''u''" "[lit ''u'']" "\<lambda>_. None" "\<lambda>_. True" "[(lit ''u'', Inr [])]" "\<lambda>_. ([], [])"
      "\<lambda>_. True" plain_reader]
  by (simp add: reader_parse_def deduplicate_def arrived_items_def plain_sort_def)

text \<open>C37. An item that two feeds of a job share is lost for the later one: its cache entry is made from the merged
  items, so a job for that feed alone is answered without the item as long as the entry lives.\<close>

theorem shared_item_lost:
  assumes "sorts_items rd" "arrivals rd [a, b] [(a, Inr is), (b, Inr js)]" "a \<noteq> b" "wr b"
    and "i \<in> set is" "j \<in> set js" "gi_link i = l" "gi_link j = l" "l \<noteq> []"
  shows "Some l \<notin> set (map (field ''link'') (jr_items (fst (run_job parse wr'
    (snd (run_job (\<lambda>_. reader_parse rd [(a, Inr is), (b, Inr js)]) wr (\<lambda>_. None) [a, b])) [b]))))"
proof -
  let ?out = "fst (reader_parse rd [(a, Inr is), (b, Inr js)])"
  have src: "gi_source_url x = a" if "x \<in> set ?out" "gi_link x = l" for x
  proof -
    have "filter (\<lambda>i. gi_link i = l) is \<noteq> []" using assms(5,7) by (auto simp: filter_empty_conv)
    then have f: "filter (\<lambda>i. gi_link i = l) (dedup_seen [] (is @ js)) = [hd (filter (\<lambda>i. gi_link i = l) is)]"
      using assms(9) by (cases "filter (\<lambda>i. gi_link i = l) is") (simp_all add: filter_dedup_seen)
    have "x \<in> set (dedup_seen [] (is @ js))"
      using that(1) by (simp add: reader_parse_def deduplicate_def arrived_items_def sorts_set [OF assms(1)])
    with that(2) have "x \<in> set (filter (\<lambda>i. gi_link i = l) (dedup_seen [] (is @ js)))" by simp
    with f have "x \<in> set (filter (\<lambda>i. gi_link i = l) is)"
      using \<open>filter (\<lambda>i. gi_link i = l) is \<noteq> []\<close> by (metis hd_in_set list.set_intros(1) set_ConsD empty_iff list.set(1))
    with arrival_source [OF assms(2), of a "is" x] show ?thesis by simp
  qed
  have "Some l \<notin> set (map (field ''link'') (map job_item (filter (\<lambda>i. gi_source_url i = b) ?out)))"
  proof
    assume "Some l \<in> set (map (field ''link'') (map job_item (filter (\<lambda>i. gi_source_url i = b) ?out)))"
    then obtain x where "x \<in> set ?out" "gi_source_url x = b" "gi_link x = l" by auto
    with src [of x] assms(3) show False by simp
  qed
  moreover have "snd (run_job (\<lambda>_. reader_parse rd [(a, Inr is), (b, Inr js)]) wr (\<lambda>_. None) [a, b]) b =
      Some (map job_item (filter (\<lambda>i. gi_source_url i = b) ?out))"
    using assms(4) by (simp add: run_job_def Let_def urls_to_fetch_def hydrate_at)
      (simp add: reader_parse_def arrived_errors_def)
  ultimately show ?thesis
    by (simp add: run_job_def [of parse] urls_to_fetch_def cached_items_def)
qed

lemma sample_fetch: "fetch_and_parse (new_reader []) sample_lib (lit u) = Inr [go_sample u ''l'' (0, 0, 0)]"
  by (simp add: fetch_and_parse_def fetch_url_def new_reader_def sample_lib_def rss_item_def go_sample_def rss_layouts_def)

lemma sample_arrivals:
  "arrivals plain_reader [lit ''u''] [(lit ''u'', Inr [go_sample ''u'' ''l'' (0, 0, 0)])]"
  "arrivals plain_reader [lit ''a'', lit ''b''] [(lit ''a'', Inr [go_sample ''a'' ''l'' (0, 0, 0)]), (lit ''b'', Inr [go_sample ''b'' ''l'' (0, 0, 0)])]"
  by (intro arrivalsI [of _ _ sample_lib]; simp add: sample_fetch)+

lemma shared_item_lost_witness:
  "Some (lit ''l'') \<notin> set (map (field ''link'') (jr_items (fst (run_job (\<lambda>_. ([], [])) (\<lambda>_. True)
      (snd (run_job (\<lambda>_. reader_parse plain_reader [(lit ''a'', Inr [go_sample ''a'' ''l'' (0, 0, 0)]),
          (lit ''b'', Inr [go_sample ''b'' ''l'' (0, 0, 0)])]) (\<lambda>_. True) (\<lambda>_. None) [lit ''a'', lit ''b''])) [lit ''b'']))))"
  by (rule shared_item_lost [OF plain_reader_ok sample_arrivals(2), of "\<lambda>_. True" "go_sample ''a'' ''l'' (0, 0, 0)"
        "go_sample ''b'' ''l'' (0, 0, 0)"]) (simp_all add: go_sample_def lit_def cu_def)

section \<open>Deliveries of a command\<close>

text \<open>C16. A command gets three attempts: it is acknowledged at the first that succeeds; when all three have failed it is
  not tried again but moved to the failed queue, once, at the first delivery at which that can be
  written (\<open>fq n\<close>), however often it is requeued before. It is never settled exactly when the attempts fail
  and the failed queue can never be written.\<close>

theorem command_settles:
  fixes h :: "jsstr \<Rightarrow> jsstr list \<Rightarrow> 's \<Rightarrow> bool \<times> 's"
  defines "attempt \<equiv> \<lambda>c s. snd (h (fst c) (snd c) s)" and "ok \<equiv> \<lambda>c s. fst (h (fst c) (snd c) s)"
  shows "command_life fq h c 0 0 (s, f) =
    (if ok c s then Some (attempt c s, f)
     else if ok c (attempt c s) then Some (attempt c (attempt c s), f)
     else if ok c (attempt c (attempt c s)) then Some (attempt c (attempt c (attempt c s)), f)
     else if \<exists>n \<ge> 3. fq n then Some (attempt c (attempt c (attempt c s)), f @ [c])
     else None)"
proof -
  have tried: "command_life fq h c n k (t, f) =
      (if ok c t then Some (attempt c t, f) else command_life fq h c (Suc n) (Suc k) (attempt c t, f))" if "k < 3" for n k t
    using command_life_tried [OF that, of fq h c n t f] by (simp add: ok_def attempt_def case_prod_unfold)
  have last: "command_life fq h c 3 3 (t, f) = (if \<exists>n \<ge> 3. fq n then Some (t, f @ [c]) else None)" for t
    using command_life_waits [of fq _ 3 h c t f] command_life_stuck [of fq h c 3 3 "(t, f)"]
    by (cases "command_life fq h c 3 3 (t, f)") auto
  show ?thesis
    using last by (simp add: tried eval_nat_numeral)
qed

text \<open>C24. Whoever asks for a job sees a sound state: in every reachable state of the service a job that is found is
  either open and without a result, or ended and with the result of that status.\<close>

theorem job_page_sound:
  assumes "go_reach rd ok s" "job_page up job s = (200, Some j)"
  shows "case sj_result j of
      None \<Rightarrow> sj_status j \<in> {lit ''pending'', lit ''processing''}
    | Some r \<Rightarrow> sj_status j \<in> {lit ''done'', lit ''failed''} \<and> jr_status r = sj_status j"
proof -
  have "store_sound s" using assms(1) unfolding go_reach_def by (rule jobs.reachable_inv)
  moreover have "sv_store s job = Some j" using assms(2) by (auto simp: job_page_def split: if_splits option.splits)
  ultimately have "job_sound j" by (auto simp: store_sound_def ran_def)
  then show ?thesis by (cases "sj_result j") (simp_all add: job_sound_def open_status_def final_status_def)
qed

section \<open>The service and Rails\<close>

text \<open>C12. With this service on the other side of the broker a request is broadcast at most twice, in every state the
  Rails side can reach: its results are final, and its answers to the fallback are for the job that asked.\<close>

theorem go_broadcasts_bounded:
  assumes "sorts_items rd" "rails_reach env (go_messages rd ok) (go_replies rd ok) s"
  shows "length (filter (\<lambda>c. bc_request (snd c) = rid) (casts s)) \<le> 2"
  by (rule feed_service.at_most_two [OF feed_service.intro [OF go_contract [OF assms(1)]] assms(2)])

definition go_up :: service_up where
  "go_up = \<lparr>up_start = True, up_finish = True, up_publish = Some True\<rparr>"

text \<open>A feed without items: the service publishes the result of the run in \<open>PropsRails\<close>, whose states are
  therefore reachable with this service.\<close>

lemma go_done_msg: "go_messages plain_reader ok done_msg" if "ok (lit ''u'')"
proof -
  let ?t = "snd (process_job (\<lambda>_. reader_parse plain_reader [(lit ''u'', Inr [])]) (\<lambda>_. True) go_up (lit ''j'') [lit ''u''] service_init)"
  have "fetch_and_parse (new_reader []) empty_lib (lit ''u'') = Inr []"
    by (simp add: fetch_and_parse_def fetch_url_def new_reader_def empty_lib_def)
  then have "arrivals plain_reader [lit ''u''] [(lit ''u'', Inr [])]" by (intro arrivalsI [of _ _ empty_lib]) simp_all
  then have "go_step plain_reader ok service_init ?t"
    using that by (intro gs_command) (simp_all add: urls_to_fetch_def service_init_def)
  with reach_start have "go_reach plain_reader ok ?t" unfolding go_reach_def by (rule reach_step) simp
  moreover have "done_msg \<in> set (sv_results ?t)"
    by (simp add: process_job_def go_up_def service_init_def set_job_def run_job_def urls_to_fetch_def
        reader_parse_def arrived_items_def deduplicate_def plain_sort_def cached_items_def arrived_errors_def
        Let_def done_msg_def result_message_def or_null_def)
  ultimately show ?thesis by (auto simp: go_messages_def)
qed

lemma go_broadcasts_bounded_witness:
  "length (filter (\<lambda>c. bc_request (snd c) = 1) (casts (run_at ''done'' [done_cast, done_cast] []))) \<le> 2"
proof (rule go_broadcasts_bounded [OF plain_reader_ok, of plain_env "\<lambda>_. True"])
  show "rails_reach plain_env (go_messages plain_reader (\<lambda>_. True)) (go_replies plain_reader (\<lambda>_. True))
      (run_at ''done'' [done_cast, done_cast] [])"
    using run_late(2) [of plain_env] unfolding rails_reach_def
  proof (rule reach_mono)
    show "rails_step plain_env (go_messages plain_reader (\<lambda>_. True)) (go_replies plain_reader (\<lambda>_. True)) s t"
      if "rails_step plain_env only_done no_reply s t" for s t
      using that by (rule rails_step_mono) (auto simp: only_done_def no_reply_def go_replies_def intro: go_done_msg)
  qed
qed

definition go_done :: service where
  "go_done = snd (process_job (\<lambda>_. reader_parse plain_reader [(lit ''u'', Inr [go_sample ''u'' ''l'' (0, 0, 0)])])
     (\<lambda>_. True) go_up (lit ''j'') [lit ''u''] service_init)"

definition go_result :: result_msg where
  "go_result = result_message (lit ''j'') \<lparr>jr_items = [job_item (go_sample ''u'' ''l'' (0, 0, 0))], jr_errors = [],
     jr_status = lit ''done''\<rparr>"

lemma lit_u: "\<not> blank (lit ''u'')"
  by (simp add: blank_def lit_def ruby_space_def unat_cu)

lemma go_done_reach: "go_reach plain_reader (\<lambda>u. \<not> blank u) go_done"
  unfolding go_reach_def
proof (rule reach_step [OF reach_start])
  show "go_step plain_reader (\<lambda>u. \<not> blank u) service_init go_done"
    unfolding go_done_def
    by (rule gs_command) (simp_all add: lit_u urls_to_fetch_def service_init_def sample_arrivals)
qed simp

lemma go_done_results: "sv_results go_done = [go_result]"
  by (simp add: go_done_def process_job_def go_up_def service_init_def set_job_def run_job_def urls_to_fetch_def
      reader_parse_def arrived_items_def deduplicate_def plain_sort_def zero_date_def go_sample_def lit_def
      cached_items_def arrived_errors_def go_result_def Let_def)

lemma job_page_sound_witness:
  "\<exists>j. job_page True (lit ''j'') go_done = (200, Some j) \<and> sj_status j \<in> {lit ''done'', lit ''failed''}"
proof -
  obtain j r where j: "job_page True (lit ''j'') go_done = (200, Some j)" "sj_result j = Some r"
    by (simp add: job_page_def go_done_def process_job_def go_up_def set_job_def case_prod_unfold Let_def lit_def)
  with job_page_sound [OF go_done_reach j(1)] show ?thesis by auto
qed

lemma go_done_message: "go_messages plain_reader (\<lambda>u. \<not> blank u) go_result"
  unfolding go_messages_def using go_done_reach go_done_results by (intro exI [of _ go_done]) simp

text \<open>A result of this service is never rejected while the database is up: for an open request the delivery is
  acknowledged, and the items and errors are broadcast once to the owner, provided no URL is blank.\<close>

theorem go_results_processed:
  assumes "sorts_items rd" "go_messages rd (\<lambda>u. \<not> blank u) m"
    and "work_find m t = Some r" "open_status (rq_status r)"
  shows "fst (work env (\<lambda>_. True) (Some m) t) = Inr Ack \<and>
    casts (snd (work env (\<lambda>_. True) (Some m) t)) = casts t @
      [(rq_user r, \<lparr>bc_request = rq_id r, bc_status = the (rm_status m), bc_items = or_empty (rm_items m),
         bc_errors = or_empty (rm_errors m)\<rparr>)]"
  using assms by (rule go_result_processed)

lemma go_results_processed_witness:
  "map (bc_items \<circ> snd) (casts (snd (work plain_env (\<lambda>_. True) (Some go_result) open_run))) =
     [[job_item (go_sample ''u'' ''l'' (0, 0, 0))]]"
proof -
  have "work_find go_result open_run = Some (asked ''processing'')"
    using open_run(2) by (simp add: work_find_def go_result_def result_message_def done_msg_def)
  from go_results_processed [OF plain_reader_ok go_done_message this open_run(3)] show ?thesis
    by (simp add: go_result_def result_message_def or_null_def or_empty_def)
      (simp add: open_run_def run_at_def rails_init_def)
qed

text \<open>A fallback call can be wrong about a job that succeeds: when the service reaches the broker that Rails could
  not reach, it accepts the job with 202 and queues it; Rails reports the request as failed, and the
  result that comes later is acknowledged and dropped.\<close>

theorem accepted_job_reported_failed:
  assumes "hu_async hup" "hu_create hup" "hu_command hup" "rq_job r = Some j" "j \<noteq> []" "rq_urls r \<noteq> []"
    and "orderly s" "r \<in> set (requests s)"
  shows "(case parse_request parse wr hup ulid (Some (j, rq_urls r)) svc of
      (reply, svc') \<Rightarrow>
        sv_commands svc' = sv_commands svc @ [(j, rq_urls r)] \<and>
        casts (snd (execute_fallback env up reply r s)) = casts s @ [(rq_user r,
          \<lparr>bc_request = rq_id r, bc_status = lit ''failed'', bc_items = [],
           bc_errors = [Str (lit ''Go RSS parser fallback failed with HTTP 202'')]\<rparr>)] \<and>
        (\<forall>res. work env up (Some (result_message j res)) (snd (execute_fallback env up reply r s)) =
          (Inr Ack, snd (execute_fallback env up reply r s))))"
proof -
  define reply where "reply = Reply 202 (Some (accepted_body j))"
  define t where "t = snd (execute_fallback env up reply r s)"
  have p: "fst (parse_request parse wr hup ulid (Some (j, rq_urls r)) svc) = reply"
    "sv_commands (snd (parse_request parse wr hup ulid (Some (j, rq_urls r)) svc)) = sv_commands svc @ [(j, rq_urls r)]"
    using assms(1-6) by (simp_all add: parse_request_def set_job_def reply_def)
  have d: "lit ''Go RSS parser fallback failed with HTTP '' @ digits 202 = lit ''Go RSS parser fallback failed with HTTP 202''"
    by (simp add: digits.simps lit_def cu_def)
  have t: "requests t = rewritten (rq_id r) (Some j) (lit ''failed'') (requests s)"
    "casts t = casts s @ [(rq_user r, \<lparr>bc_request = rq_id r, bc_status = lit ''failed'', bc_items = [],
       bc_errors = [Str (lit ''Go RSS parser fallback failed with HTTP 202'')]\<rparr>)]"
    using assms(4)
    by (simp_all add: t_def fallback_eq try_catch_def reply_def throw_def update_request_def reply_job_def act_simps
        rewritten_def flip: d)
  have "work_find (result_message j res) t = None" for res
  proof -
    have "rq_status x = lit ''failed''" if x: "x \<in> set (requests t)" "rq_job x = Some j" for x
    proof -
      obtain y where y: "y \<in> set (requests s)"
          "x = (if rq_id y = rq_id r then y\<lparr>rq_job := Some j, rq_status := lit ''failed''\<rparr> else y)"
        using x(1) by (auto simp: t(1) rewritten_def)
      then have "rq_job y = rq_job r \<Longrightarrow> y = r" using orderly_job [OF assms(7,8)] by blast
      with y x(2) assms(4) show ?thesis by (auto split: if_splits)
    qed
    then show ?thesis
      by (auto simp: work_find_def result_message_def find_Some_iff split: option.split)
  qed
  then show ?thesis using p t by (simp add: case_prod_unfold work_ignored flip: t_def)
qed

lemma accepted_job_reported_failed_witness:
  "map (bc_status \<circ> snd) (casts (snd (execute_fallback plain_env (\<lambda>_. True)
     (fst (parse_request (\<lambda>_. ([], [])) (\<lambda>_. True) \<lparr>hu_async = True, hu_create = True, hu_command = True, hu_record = True\<rparr>
        (lit ''x'') (Some (lit ''j'', [lit ''u''])) service_init)) (asked ''processing'') open_run))) = [lit ''failed'']"
proof -
  have "asked ''processing'' \<in> set (requests open_run)" by (simp add: open_run_def run_at_def)
  then show ?thesis
    using accepted_job_reported_failed [where hup = "\<lparr>hu_async = True, hu_create = True, hu_command = True, hu_record = True\<rparr>"
        and r = "asked ''processing''" and j = "lit ''j''" and s = open_run and parse = "\<lambda>_. ([], [])" and wr = "\<lambda>_. True"
        and ulid = "lit ''x''" and svc = service_init and env = plain_env and up = "\<lambda>_. True"]
      open_run(1)
    by (simp add: case_prod_unfold asked_def lit_def) (simp add: open_run_def run_at_def rails_init_def)
qed

section \<open>The service and the page\<close>

text \<open>C29. The dates of the service reach the page: an item with a calendar date is shown with that date in every time
  zone and takes part in the order by date.\<close>

theorem go_dates_shown:
  assumes "gi_date i = (y, m, d)" "y \<le> 9999" "valid_date (int y) (int m) (int d)"
  shows "get_prop (item_msg_value (job_item i)) ''publish_date'' = Inr (Str (date_string (gi_date i))) \<and>
    formatDate en (Str (date_string (gi_date i))) = Str (date_string (gi_date i)) \<and>
    publish_time en (item_msg_value (job_item i)) = Some (ms_per_day * date_day (gi_date i))"
proof -
  have s: "date_string (gi_date i) = iso_date (int y) (int m) (int d)"
    using assms(1,2) by (simp add: iso_date_def iso_year_def)
  have day: "date_day (gi_date i) = day_number (int y) (int m) (int d)" by (simp add: assms(1))
  have g: "get_prop (item_msg_value (job_item i)) ''publish_date'' = Inr (Str (date_string (gi_date i)))"
    by (simp add: item_msg_value_def job_item_def text_value_def lit_eq_iff)
  have "publish_time en (item_msg_value (job_item i)) = Some (ms_per_day * date_day (gi_date i))"
    using date_parse_iso_date [of "int y" "int m" "int d" en] assms(2,3)
    by (simp add: publish_time_def g day) (simp only: s)
  with g show ?thesis using formatDate_iso [of "int y" "int m" "int d" en] assms(2,3) by (simp add: s)
qed

lemma go_dates_shown_witness:
  "formatDate plain_engine (Str (lit ''2024-02-29'')) = Str (lit ''2024-02-29'')"
proof -
  have "date_string (2024, 2, 29) = lit ''2024-02-29''"
    by (simp add: pad_to_def digits.simps lit_def cu_def)
  with go_dates_shown [of "go_sample ''u'' ''l'' (2024, 2, 29)" 2024 2 29 plain_engine] show ?thesis
    by (simp add: go_sample_def valid_date_def leap_def)
qed

text \<open>An item without a date spoils the order on the page: the service sends \<open>0000-00-00\<close>, which is no date, so the
  comparator takes it as equal to every story; the language leaves the order open then, and a sort by
  insertion leaves an older story before a newer one when the item stands between them.\<close>

theorem undated_item_unordered:
  assumes "legacy_date en (lit ''0000-00-00'') = None" "zero_date (gi_date i)"
    and "by_date_desc en new old < 0" "dated en new" "dated en old"
  shows "(\<forall>x. by_date_desc en x (item_msg_value (job_item i)) = 0 \<and> by_date_desc en (item_msg_value (job_item i)) x = 0) \<and>
    sortedItems en (Arr [old, new]) = Inr [new, old] \<and>
    sortedItems en (Arr [old, item_msg_value (job_item i), new]) = Inr [old, item_msg_value (job_item i), new]"
proof -
  define u where "u = item_msg_value (job_item i)"
  have "gi_date i = (0, 0, 0)" using assms(2) by (simp add: zero_date_def)
  then have z: "date_string (gi_date i) = lit ''0000-00-00''"
    by (simp add: pad_to_def digits.simps lit_def cu_def numeral_3_eq_3)
  have g: "get_prop u ''publish_date'' = Inr (Str (lit ''0000-00-00''))"
    by (simp add: u_def item_msg_value_def job_item_def text_value_def lit_eq_iff z)
  have "lit ''0000-00-00'' = iso_year 0 @ lit ''-'' @ pad_to 2 0 @ lit ''-'' @ pad_to 2 0"
    by (simp add: iso_year_def pad_to_def digits.simps lit_def cu_def numeral_3_eq_3)
  then have "parse_ymd (lit ''0000-00-00'') = None"
    using take_number_pad_to [of 2 0] take_number_pad_to [of 2 0 "[]"]
    by (simp add: parse_ymd_def parse_year_iso valid_date_def)
  then have "parse_iso en (lit ''0000-00-00'') = None" by (simp add: parse_iso_def)
  then have "publish_time en u = None" using assms(1) by (simp add: publish_time_def g date_parse_def)
  then have tie: "by_date_desc en x u = 0" "by_date_desc en u x = 0" for x
    by (simp_all add: by_date_desc_def split: option.split)
  have "\<exists>v. get_prop x ''publish_date'' = Inr v" if "x \<in> {old, new, u}" for x
    using that g dated_get_prop [OF assms(4)] dated_get_prop [OF assms(5)] by blast
  then have "sortedItems en (Arr xs) = Inr (sort_by (by_date_desc en) xs)" if "set xs \<subseteq> {old, new, u}" for xs
    using that by (intro sortedItems_Arr) blast
  moreover have "by_date_desc en old new > 0" using assms(3) by (auto simp: by_date_desc_def split: option.splits)
  ultimately show ?thesis
    using tie by (simp add: sort_by_def flip: u_def)
qed

lemma undated_item_unordered_witness:
  "sortedItems plain_engine (Arr [sample_story ''a'' ''k'' ''2024-02-29'',
       item_msg_value (job_item (go_sample ''u'' ''l'' (0, 0, 0))), sample_story ''b'' ''l'' ''2024-03-01'']) =
     Inr [sample_story ''a'' ''k'' ''2024-02-29'', item_msg_value (job_item (go_sample ''u'' ''l'' (0, 0, 0))),
       sample_story ''b'' ''l'' ''2024-03-01'']"
proof -
  have t: "publish_time plain_engine (sample_story ''a'' ''k'' ''2024-02-29'') = Some (ms_per_day * day_number 2024 2 29)"
    "publish_time plain_engine (sample_story ''b'' ''l'' ''2024-03-01'') = Some (ms_per_day * day_number 2024 3 1)"
    by (rule story_date_time [OF sample_story_date [OF sample_dates(1)]], simp, simp, rule sample_dates(3))
      (rule story_date_time [OF sample_story_date [OF sample_dates(2)]], simp, simp, rule sample_dates(4))
  have "day_number 2024 2 29 < day_number 2024 3 1" using day_number_less [OF sample_dates(3,4)] by simp
  then have "by_date_desc plain_engine (sample_story ''b'' ''l'' ''2024-03-01'') (sample_story ''a'' ''k'' ''2024-02-29'') < 0"
    by (simp add: by_date_desc_def t ms_per_day_def)
  from undated_item_unordered [of plain_engine "go_sample ''u'' ''l'' (0, 0, 0)", OF _ _ this] show ?thesis
    by (simp add: plain_engine_def [THEN arg_cong, of legacy_date] go_sample_def zero_date_def dated_def t)
qed

text \<open>Of the items of a feed that have no link the reader keeps all, but the table keeps one: the empty link is a
  link like any other there, so all but the first are taken for copies and never listed.\<close>

theorem linkless_items_lost:
  assumes "\<forall>i \<in> set is. gi_link i = []" "is \<noteq> []"
  shows "deduplicate is = is \<and>
    insert_all (map (item_attributes env fid) (map job_item is)) [] = [item_attributes env fid (job_item (hd is))]"
proof -
  have same: "dedup_seen seen js = js" if "\<forall>i \<in> set js. gi_link i = []" for seen js
    using that by (induction js) simp_all
  have key: "si_feed (item_attributes env fid (job_item i)) = fid"
    "si_link (item_attributes env fid (job_item i)) = Some (gi_link i)" for i
    by (simp_all add: item_attributes_def)
  have stay: "fold insert_item (map (item_attributes env fid) (map job_item js)) [x] = [x]"
    if "si_feed x = fid" "si_link x = Some []" "\<forall>i \<in> set js. gi_link i = []" for x js
    using that by (induction js) (simp_all add: insert_item_def key)
  obtain i js where "is = i # js" using assms(2) by (cases "is") auto
  with assms(1) stay [of "item_attributes env fid (job_item i)" js] same [of "is" "[]"] show ?thesis
    by (simp add: deduplicate_def insert_all_def insert_item_def key)
qed

lemma linkless_items_lost_witness:
  "insert_all (map (item_attributes plain_env 1) (map job_item [go_sample ''u'' [] (0, 0, 0), go_sample ''u'' [] (2024, 2, 29)])) [] =
     [item_attributes plain_env 1 (job_item (go_sample ''u'' [] (0, 0, 0)))]"
  using linkless_items_lost [of "[go_sample ''u'' [] (0, 0, 0), go_sample ''u'' [] (2024, 2, 29)]" plain_env 1]
  by (simp add: go_sample_def lit_def)

section \<open>The connection to the broker\<close>

text \<open>C33. A lost connection comes back: in every reachable state without a channel, unless the client was closed, the
  recovery is under way, and however many attempts fail it ends with the first that works, after
  delays that double from one second up to a minute.\<close>

theorem recovery_reconnects:
  assumes "reach booted client_step c" "\<not> cl_open c" "\<not> cl_closed c"
  shows "recovery (replicate n (False, k) @ (True, True) # os) 1 c =
    (True, 1, map (\<lambda>i. min (2 ^ i) 60) [0..<n], c\<lparr>cl_open := True, cl_signal := False\<rparr>)"
proof -
  have "cl_signal c" using client.reachable_inv [OF assms(1)] assms(2,3) by (simp add: client_ok_def)
  moreover have "map (\<lambda>i. (next_backoff ^^ i) 1) [0..<n] = map (\<lambda>i. min (2 ^ i) 60) [0..<n]"
    by (simp only: backoff_power)
  ultimately show ?thesis
    using assms(3) recover_failures [of "c\<lparr>cl_signal := False\<rparr>" n k "(True, True) # os" 1]
    by (simp add: recovery_def connect_def)
qed

lemma recovery_reconnects_witness:
  "fst (snd (snd (recovery (replicate 7 (False, True) @ [(True, True)]) 1 (trigger_recovery new_client)))) = [1, 2, 4, 8, 16, 32, 60]"
proof -
  have "booted (trigger_recovery new_client)"
    unfolding booted_def by (intro exI [of _ False]) (simp add: boot_def connect_def new_client_def)
  then have "reach booted client_step (trigger_recovery new_client)" by (rule reach_start)
  from recovery_reconnects [OF this, of 7 True "[]"] show ?thesis
    by (simp add: new_client_def trigger_recovery_def upt_rec eval_nat_numeral)
qed

text \<open>C38. A recovery does not survive a failed declaration of the topology: the client is closed before the next
  attempt, so no attempt connects any more, whatever the broker does, and the loop never ends.\<close>

theorem failed_declaration_final:
  assumes "cl_signal c" "\<not> cl_closed c"
  shows "case recovery (replicate n (False, k) @ (True, False) # os) b c of
    (ended, b', ds, t) \<Rightarrow> \<not> ended \<and> \<not> cl_open t \<and> (\<forall>dialled. \<not> fst (connect dialled t))"
proof -
  let ?d = "close_client (c\<lparr>cl_open := True, cl_signal := False\<rparr>)"
  have "\<not> fst (recover os x ?d) \<and> snd (snd (snd (recover os x ?d))) = ?d" for x
    by (rule recover_closed) (simp_all add: close_client_def)
  then show ?thesis
    using assms recover_failures [of "c\<lparr>cl_signal := False\<rparr>" n k "(True, False) # os" b]
    by (simp add: recovery_def connect_def case_prod_unfold) (simp add: close_client_def)
qed

lemma failed_declaration_final_witness:
  "\<not> fst (recovery ([(True, False)] @ replicate 100 (True, True)) 1 (trigger_recovery new_client))"
  using failed_declaration_final [of "trigger_recovery new_client" 0 undefined "replicate 100 (True, True)" 1]
  by (simp add: new_client_def trigger_recovery_def case_prod_unfold)

end
