(* ===== verification/MainApp.thy ===== *)
theory MainApp
  imports Dashboard FeedChannel
begin

text \<open>
  \<open>MainApp\<close> and \<open>Navigation\<close> of \<open>components/App.jsx\<close>: the state of the application, the
  bootstrap, login and logout handlers cut at their \<open>await\<close>s, routing, mounting, and what is
  rendered. \<open>react-router-dom\<close> is a parameter: which route matches a path.
\<close>

section \<open>State\<close>

text \<open>The calls that may be in flight, with what runs when they settle: the number is the
  instance of the component that started the call.\<close>

datatype call =
    CBootItems
  | CBootHealth
  | CLogin nat jsstr
  | CLoginItems nat
  | CLoginHealth nat
  | CLogout
  | CDashItems nat
  | CDashHealth
  | CSubmit nat "jsstr list"

text \<open>The three routes of \<open>Routes\<close>: \<open>/login\<close>, \<open>/feeds\<close> and \<open>*\<close>.\<close>

datatype route = RLogin | RFeeds | ROther

record platform =
  p_engine :: engine
  p_strict :: bool
  p_route :: "jsstr \<Rightarrow> route"

record main_app = page +
  authenticated :: "bool option"
  userEmail :: jsstr
  flashMessage :: jsstr
  path :: jsstr
  login_view :: "(nat \<times> login_form) option"
  channel :: "nat hook"
  next_inst :: nat
  calls :: "(http_request \<times> call) list"

type_synonym 'a app_act = "(js_error, main_app, 'a) act"

definition send :: "http_request \<Rightarrow> call \<Rightarrow> unit app_act" where
  "send q k = modify (\<lambda>s. s\<lparr>calls := calls s @ [(q, k)]\<rparr>)"

definition setAuthenticated :: "bool \<Rightarrow> unit app_act" where
  "setAuthenticated b = modify (\<lambda>s. s\<lparr>authenticated := Some b\<rparr>)"

definition setUserEmail :: "jsstr \<Rightarrow> unit app_act" where
  "setUserEmail e = modify (\<lambda>s. s\<lparr>userEmail := e\<rparr>)"

definition setFlashMessage :: "jsstr \<Rightarrow> unit app_act" where
  "setFlashMessage m = modify (\<lambda>s. s\<lparr>flashMessage := m\<rparr>)"

definition navigate :: "jsstr \<Rightarrow> unit app_act" where
  "navigate p = modify (\<lambda>s. s\<lparr>path := p\<rparr>)"

declare send_def [act_simps] setAuthenticated_def [act_simps] setUserEmail_def [act_simps]
  setFlashMessage_def [act_simps] navigate_def [act_simps]

section \<open>Bootstrap\<close>

definition boot_items :: "jsval result \<Rightarrow> unit app_act" where
  "boot_items answer =
     try_catch
       (bind_a (lift_r answer) (\<lambda>data.
        bind_a (lift_r (get_prop data ''items'')) (\<lambda>items.
        seq_a (setFeedItems (\<lambda>_. Inr (js_or items (Arr []))))
        (seq_a (setAuthenticated True)
        (seq_a (setUserEmail (lit ''user@example.com''))
          (send api_getHealth CBootHealth))))))
       (\<lambda>_. setAuthenticated False)"

section \<open>Login\<close>

text \<open>\<open>handleLogin\<close> after each of its three \<open>await\<close>s.\<close>

definition login_done :: "nat \<Rightarrow> jsstr \<Rightarrow> jsval result \<Rightarrow> unit app_act" where
  "login_done inst email answer =
     bind_a (lift_r answer) (\<lambda>_.
     seq_a (setUserEmail email)
     (seq_a (setAuthenticated True)
     (seq_a (setFlashMessage (lit ''Signed in successfully''))
       (send api_getFeedItems (CLoginItems inst)))))"

definition login_items :: "nat \<Rightarrow> jsval result \<Rightarrow> unit app_act" where
  "login_items inst answer =
     bind_a (lift_r answer) (\<lambda>feedData.
     bind_a (lift_r (get_prop feedData ''items'')) (\<lambda>items.
     seq_a (setFeedItems (\<lambda>_. Inr (js_or items (Arr []))))
       (send api_getHealth (CLoginHealth inst))))"

definition login_health :: "jsval result \<Rightarrow> unit app_act" where
  "login_health answer =
     bind_a (lift_r answer) (\<lambda>health.
     bind_a (lift_r (get_prop health ''mode'')) (\<lambda>m.
     seq_a (setMode m)
     (seq_a (navigate (lit ''/feeds''))
       (setTimeout TFlash 4000))))"

text \<open>The promise of \<open>onLoginSuccess\<close> settles: the login form of that instance goes on, if it is
  still mounted.\<close>

definition resolve_login :: "engine \<Rightarrow> nat \<Rightarrow> unit result \<Rightarrow> unit app_act" where
  "resolve_login en inst outcome = modify (\<lambda>s.
     case login_view s of
       Some (i, f) \<Rightarrow> if i = inst then s\<lparr>login_view := Some (i, snd (lf_settle en outcome f))\<rparr> else s
     | None \<Rightarrow> s)"

text \<open>A step of \<open>handleLogin\<close>: a throw rejects the promise, the end of the last step fulfils it.\<close>

definition await_login :: "engine \<Rightarrow> nat \<Rightarrow> bool \<Rightarrow> unit app_act \<Rightarrow> unit app_act" where
  "await_login en inst last_step m =
     try_catch (seq_a m (when_a last_step (resolve_login en inst (Inr ()))))
       (\<lambda>e. resolve_login en inst (Inl e))"

section \<open>Logout\<close>

text \<open>\<open>handleLogout\<close> after its \<open>await\<close>; a failed call is ignored.\<close>

definition logout_done :: "jsval result \<Rightarrow> unit app_act" where
  "logout_done answer =
     seq_a (try_catch (bind_a (lift_r answer) (\<lambda>_. ret ())) (\<lambda>_. ret ()))
     (seq_a (setAuthenticated False)
     (seq_a (setUserEmail [])
     (seq_a (setFeedItems (\<lambda>_. Inr (Arr [])))
     (seq_a (setFlashMessage [])
       (navigate (lit ''/login''))))))"

section \<open>What runs when a call settles\<close>

fun settle :: "engine \<Rightarrow> call \<Rightarrow> jsval result \<Rightarrow> unit app_act" where
  "settle en CBootItems answer = boot_items answer"
| "settle en CBootHealth answer = load_health answer"
| "settle en (CLogin inst email) answer = await_login en inst False (login_done inst email answer)"
| "settle en (CLoginItems inst) answer = await_login en inst False (login_items inst answer)"
| "settle en (CLoginHealth inst) answer = await_login en inst True (login_health answer)"
| "settle en CLogout answer = logout_done answer"
| "settle en (CDashItems inst) answer = load_items inst answer"
| "settle en CDashHealth answer = load_health answer"
| "settle en (CSubmit inst us) answer = submit_settle en inst us answer"

fun run_timer :: "timer \<Rightarrow> unit app_act" where
  "run_timer (TCleanup inst i) = run_cleanup_timer inst i"
| "run_timer TFlash = setFlashMessage []"

section \<open>Rendering\<close>

datatype app_handler = AhLogout | AhCloseFlash | AhLogin lf_handler | AhDash dash_handler

text \<open>What \<open>MainApp\<close> shows: nothing after a crash, the spinner before the bootstrap is answered,
  a form, the dashboard, or a \<open>Navigate\<close> to another path.\<close>

datatype screen = SBlank | SWait | SLogin | SDash | SMove jsstr

definition routed :: "platform \<Rightarrow> bool \<Rightarrow> jsstr \<Rightarrow> screen" where
  "routed pl auth p =
     (case p_route pl p of
        RLogin \<Rightarrow> if auth then SMove (lit ''/feeds'') else SLogin
      | RFeeds \<Rightarrow> if auth then SDash else SMove (lit ''/login'')
      | ROther \<Rightarrow> SMove (if auth then lit ''/feeds'' else lit ''/login''))"

definition screen_of :: "platform \<Rightarrow> main_app \<Rightarrow> screen" where
  "screen_of pl s =
     (if crashed s \<noteq> None then SBlank
      else (case authenticated s of None \<Rightarrow> SWait | Some auth \<Rightarrow> routed pl auth (path s)))"

definition Navigation :: "jsstr \<Rightarrow> jsval \<Rightarrow> app_handler node result" where
  "Navigation email m =
     bind_r
       (if truthy m then
          Inr [el ''span''
            [(''className'', AVal (Str (lit ''badge me-3 px-3 py-2 rounded-pill '' @
               (if strict_eq m (Str (lit ''full'')) then lit ''bg-success-subtle text-success''
                else lit ''bg-warning-subtle text-warning'')))),
             (''data-mode'', AVal m),
             (''style'', AStyle [(''fontSize'', ''0.8rem''), (''border'', ''1px solid currentColor'')])]
            [if strict_eq m (Str (lit ''full'')) then tx ''Live Mode'' else tx ''Fallback Mode'']]
        else child_of m) (\<lambda>badge.
     Inr (el ''nav'' [class_s ''navbar navbar-expand-lg navbar-dark shadow-sm mb-4'',
            (''style'', AStyle [(''background'', gradient)])]
       [el ''div'' [class_s ''container'']
          [el ''a'' [class_s ''navbar-brand fw-bold d-flex align-items-center'', attr_s ''href'' ''/'']
             [tx ''RSS Reader''],
           el ''div'' [class_s ''d-flex align-items-center ms-auto'']
             (badge @
              (if email \<noteq> [] then
                 [el ''span'' [class_s ''text-white-50 me-3 small d-none d-sm-inline''] [Text email],
                  el ''button'' [(''onClick'', AOn AhLogout),
                      class_s ''btn btn-outline-light btn-sm rounded-2 fw-semibold px-3''] [tx ''Sign out'']]
               else []))]]))"

definition flash_alert :: "jsstr \<Rightarrow> app_handler node list" where
  "flash_alert m =
     (if m \<noteq> [] then
        [el ''div'' [class_s ''container mt-3'']
           [el ''div'' [class_s ''alert alert-success alert-dismissible fade show'', attr_s ''role'' ''alert'']
              [Text m,
               el ''button'' [attr_s ''type'' ''button'', class_s ''btn-close'',
                 attr_s ''data-bs-dismiss'' ''alert'', attr_s ''aria-label'' ''Close'',
                 (''onClick'', AOn AhCloseFlash)] []]]]
      else [])"

definition wait_view :: "app_handler node" where
  "wait_view =
     el ''div'' [class_s ''d-flex align-items-center justify-content-center min-vh-100'']
       [el ''div'' [class_s ''spinner-border text-primary'', attr_s ''role'' ''status'']
          [el ''span'' [class_s ''visually-hidden''] [tx ''Loading...'']]]"

text \<open>The element of the route that matches.\<close>

definition outlet :: "platform \<Rightarrow> main_app \<Rightarrow> app_handler node list result" where
  "outlet pl s =
     (case screen_of pl s of
        SLogin \<Rightarrow>
          Inr (case login_view s of None \<Rightarrow> [] | Some (_, f) \<Rightarrow> [map_node AhLogin (LoginForm f)])
      | SDash \<Rightarrow> bind_r (Dashboard (p_engine pl) s) (\<lambda>n. Inr [map_node AhDash n])
      | _ \<Rightarrow> Inr [])"

definition MainApp :: "platform \<Rightarrow> main_app \<Rightarrow> app_handler node list result" where
  "MainApp pl s =
     (if crashed s \<noteq> None then Inr []
      else if authenticated s = None then Inr [wait_view]
      else
        bind_r (if authenticated s = Some True
                then bind_r (Navigation (userEmail s) (mode s)) (\<lambda>n. Inr [n]) else Inr []) (\<lambda>nav.
        bind_r (outlet pl s) (\<lambda>out.
          Inr [el ''div'' [class_s ''min-vh-100 bg-light''] (nav @ flash_alert (flashMessage s) @ out)])))"

section \<open>Committing a render\<close>

text \<open>A rendered \<open>Navigate\<close> changes the path in its effect, and \<open>MainApp\<close> renders again.
  Two rounds are enough when the router matches the paths of the routes to their routes.\<close>

fun redirects :: "platform \<Rightarrow> nat \<Rightarrow> main_app \<Rightarrow> main_app" where
  "redirects pl 0 s = s"
| "redirects pl (Suc n) s =
     (case screen_of pl s of SMove p \<Rightarrow> redirects pl n (s\<lparr>path := p\<rparr>) | _ \<Rightarrow> s)"

definition leave_login :: "main_app \<Rightarrow> main_app" where
  "leave_login s = s\<lparr>login_view := None\<rparr>"

definition leave_dash :: "main_app \<Rightarrow> main_app" where
  "leave_dash s = s\<lparr>dash := None, channel := hook_unmount (channel s)\<rparr>"

definition enter_login :: "main_app \<Rightarrow> main_app" where
  "enter_login s =
     (if login_view s = None
      then s\<lparr>login_view := Some (next_inst s, lf_init), next_inst := Suc (next_inst s)\<rparr> else s)"

definition enter_dash :: "main_app \<Rightarrow> main_app" where
  "enter_dash s =
     (if dash s = None
      then s\<lparr>dash := Some (next_inst s), loading := False, error := [], pendingRequests := [],
             form_urls := ff_init, next_inst := Suc (next_inst s)\<rparr> else s)"

text \<open>The component of the screen is mounted, or kept when it is mounted already.\<close>

definition place :: "platform \<Rightarrow> main_app \<Rightarrow> main_app" where
  "place pl s =
     (case screen_of pl s of
        SLogin \<Rightarrow> enter_login (leave_dash s)
      | SDash \<Rightarrow> enter_dash (leave_login s)
      | _ \<Rightarrow> leave_login (leave_dash s))"

text \<open>The effects of a mount, run a second time under \<open>StrictMode\<close>.\<close>

definition twice :: "bool \<Rightarrow> 'a list \<Rightarrow> 'a list" where
  "twice strict xs = (if strict then xs @ xs else xs)"

definition dash_effects :: "platform \<Rightarrow> nat \<Rightarrow> main_app \<Rightarrow> main_app" where
  "dash_effects pl inst s =
     s\<lparr>channel := hook_mount (p_strict pl) (Some inst) (channel s),
       calls := calls s @ twice (p_strict pl)
         [(api_getFeedItems, CDashItems inst), (api_getHealth, CDashHealth)]\<rparr>"

definition mount_effects :: "platform \<Rightarrow> nat option \<Rightarrow> main_app \<Rightarrow> main_app" where
  "mount_effects pl before s =
     (case dash s of None \<Rightarrow> s | Some inst \<Rightarrow> if before = Some inst then s else dash_effects pl inst s)"

text \<open>An error thrown while rendering unmounts everything.\<close>

definition take_down :: "main_app \<Rightarrow> main_app" where
  "take_down s = leave_login (leave_dash s)"

definition commit :: "platform \<Rightarrow> main_app \<Rightarrow> main_app" where
  "commit pl s =
     (let t = place pl (redirects pl 2 s) in
      case MainApp pl t of
        Inl e \<Rightarrow> take_down (t\<lparr>crashed := Some e\<rparr>)
      | Inr _ \<Rightarrow> mount_effects pl (dash s) t)"

text \<open>The page is opened at a path: the first render and the bootstrap effect.\<close>

definition app_init :: "platform \<Rightarrow> jsstr \<Rightarrow> main_app" where
  "app_init pl p =
     \<lparr>dash = None, loading = False, error = [], pendingRequests = [], form_urls = ff_init,
      feedItems = Arr [], mode = Str (lit ''full''), clock = 0, timers = [], crashed = None,
      authenticated = None, userEmail = [], flashMessage = [], path = p, login_view = None,
      channel = hook_init, next_inst = 0, calls = twice (p_strict pl) [(api_getFeedItems, CBootItems)]\<rparr>"

text \<open>\<open>entrypoints/application.jsx\<close>: \<open>App\<close> is rendered when the page has an element \<open>root\<close>.\<close>

definition render_root :: "platform \<Rightarrow> bool \<Rightarrow> jsstr \<Rightarrow> main_app option" where
  "render_root pl container p = (if container then Some (app_init pl p) else None)"

lemma render_root_simps [simp]:
  "render_root pl True p = Some (app_init pl p)"
  "render_root pl False p = None"
  by (simp_all add: render_root_def)

section \<open>User events\<close>

definition in_login :: "(nat \<Rightarrow> login_form \<Rightarrow> main_app \<Rightarrow> main_app) \<Rightarrow> main_app \<Rightarrow> main_app" where
  "in_login f s = (case login_view s of None \<Rightarrow> s | Some (i, l) \<Rightarrow> f i l s)"

fun login_event :: "lf_handler \<Rightarrow> jsstr \<Rightarrow> main_app \<Rightarrow> main_app" where
  "login_event LfCloseError v s = in_login (\<lambda>i l s. s\<lparr>login_view := Some (i, lf_close_error l)\<rparr>) s"
| "login_event LfEmail v s = in_login (\<lambda>i l s. s\<lparr>login_view := Some (i, lf_set_email v l)\<rparr>) s"
| "login_event LfPassword v s = in_login (\<lambda>i l s. s\<lparr>login_view := Some (i, lf_set_password v l)\<rparr>) s"
| "login_event LfSubmit v s = in_login (\<lambda>i l s.
     case lf_submit l of (l', email, password) \<Rightarrow>
       s\<lparr>login_view := Some (i, l'), calls := calls s @ [(api_login email password, CLogin i email)]\<rparr>) s"

definition submit_event :: "main_app \<Rightarrow> main_app" where
  "submit_event s =
     (case (ff_submit (form_urls s), dash s) of
        (Some us, Some inst) \<Rightarrow>
          snd (bind_a (submit_start inst us) (\<lambda>q. send q (CSubmit inst us)) s)
      | _ \<Rightarrow> s)"

fun dash_event :: "dash_handler \<Rightarrow> jsstr \<Rightarrow> main_app \<Rightarrow> main_app" where
  "dash_event DhCloseError v s =
     (case dash s of None \<Rightarrow> s | Some inst \<Rightarrow> snd (setError inst [] s))"
| "dash_event (DhForm FfSubmit) v s = submit_event s"
| "dash_event (DhForm h) v s = s\<lparr>form_urls := ff_apply h v (form_urls s)\<rparr>"

fun user_event :: "app_handler \<Rightarrow> jsstr \<Rightarrow> main_app \<Rightarrow> main_app" where
  "user_event AhLogout v s = snd (send api_logout CLogout s)"
| "user_event AhCloseFlash v s = snd (setFlashMessage [] s)"
| "user_event (AhLogin h) v s = login_event h v s"
| "user_event (AhDash h) v s = dash_event h v s"

text \<open>The events the screen offers.\<close>

definition offered :: "platform \<Rightarrow> main_app \<Rightarrow> app_handler list" where
  "offered pl s = (case MainApp pl s of Inl _ \<Rightarrow> [] | Inr ns \<Rightarrow> concat (map events ns))"

end
