(* ===== verification/World.thy ===== *)
theory World
  imports MainApp
begin

text \<open>
  The application in its environment, as a step relation: the user raises an event the screen
  offers, a call in flight is answered, the server broadcasts, time passes, a timer fires, the
  browser moves to another path. What the server may answer to a call and broadcast are
  parameters, so that a property says which contract it needs.
\<close>

section \<open>Steps\<close>

definition receive :: "jsval \<Rightarrow> main_app \<Rightarrow> main_app" where
  "receive data s = fold (\<lambda>inst s. snd (handleBroadcastMessage inst data s)) (deliver (cable (channel s))) s"

definition answer_call :: "platform \<Rightarrow> nat \<Rightarrow> outcome \<Rightarrow> main_app \<Rightarrow> main_app" where
  "answer_call pl i a s =
     snd (settle (p_engine pl) (snd (calls s ! i)) (finish_request a) (s\<lparr>calls := drop_nth i (calls s)\<rparr>))"

definition fire_timer :: "nat \<Rightarrow> main_app \<Rightarrow> main_app" where
  "fire_timer i s = snd (run_timer (snd (timers s ! i)) (s\<lparr>timers := drop_nth i (timers s)\<rparr>))"

inductive app_step ::
    "platform \<Rightarrow> (call \<Rightarrow> outcome \<Rightarrow> bool) \<Rightarrow> (jsval \<Rightarrow> bool) \<Rightarrow> main_app \<Rightarrow> main_app \<Rightarrow> bool"
  for pl answers feeds where
  as_user: "h \<in> set (offered pl s) \<Longrightarrow> app_step pl answers feeds s (commit pl (user_event h v s))"
| as_answer: "i < length (calls s) \<Longrightarrow> answers (snd (calls s ! i)) a \<Longrightarrow>
    app_step pl answers feeds s (commit pl (answer_call pl i a s))"
| as_broadcast: "feeds data \<Longrightarrow> app_step pl answers feeds s (commit pl (receive data s))"
| as_timer: "i < length (timers s) \<Longrightarrow> fst (timers s ! i) \<le> clock s \<Longrightarrow>
    app_step pl answers feeds s (commit pl (fire_timer i s))"
| as_tick: "app_step pl answers feeds s (s\<lparr>clock := Suc (clock s)\<rparr>)"
| as_browse: "app_step pl answers feeds s (commit pl (s\<lparr>path := p\<rparr>))"

inductive_cases app_stepE: "app_step pl answers feeds s t"

definition app_start :: "platform \<Rightarrow> main_app \<Rightarrow> bool" where
  "app_start pl s \<longleftrightarrow> (\<exists>p. render_root pl True p = Some s)"

text \<open>What the code relies on from the router: the paths it navigates to match their routes.\<close>

definition routes_ok :: "platform \<Rightarrow> bool" where
  "routes_ok pl \<longleftrightarrow> p_route pl (lit ''/login'') = RLogin \<and> p_route pl (lit ''/feeds'') = RFeeds"

section \<open>Committing\<close>

lemma screen_of_path: "screen_of pl (s\<lparr>path := p\<rparr>) =
    (if crashed s \<noteq> None then SBlank else (case authenticated s of None \<Rightarrow> SWait | Some a \<Rightarrow> routed pl a p))"
  by (cases "authenticated s") (simp_all add: screen_of_def)

lemma routed_target: "routes_ok pl \<Longrightarrow> routed pl a p = SMove q \<Longrightarrow> routed pl a q = (if a then SDash else SLogin)"
  by (auto simp: routed_def routes_ok_def split: route.splits if_splits)

lemma redirects_done:
  assumes "routes_ok pl"
  shows "screen_of pl (redirects pl (Suc n) s) \<noteq> SMove p"
proof (cases "screen_of pl s")
  case (SMove q)
  then obtain a where a: "authenticated s = Some a" "crashed s = None" "routed pl a (path s) = SMove q"
    by (auto simp: screen_of_def split: if_splits option.splits)
  from routed_target [OF assms a(3)] have r: "routed pl a q = (if a then SDash else SLogin)" .
  have sc: "screen_of pl (s\<lparr>path := q\<rparr>) = (if a then SDash else SLogin)"
    using a r by (simp add: screen_of_path)
  then have "redirects pl n (s\<lparr>path := q\<rparr>) = s\<lparr>path := q\<rparr>"
    by (cases n) simp_all
  with SMove sc show ?thesis by simp
qed simp_all

text \<open>More rounds change nothing: the redirects end.\<close>

lemma redirects_enough: "routes_ok pl \<Longrightarrow> redirects pl (Suc n) s = redirects pl 1 s"
proof -
  assume ok: "routes_ok pl"
  show ?thesis
  proof (cases "screen_of pl s")
    case (SMove q)
    have "screen_of pl (s\<lparr>path := q\<rparr>) \<noteq> SMove p" for p
      using redirects_done [OF ok, of 0 s p] SMove by simp
    then have "redirects pl n (s\<lparr>path := q\<rparr>) = s\<lparr>path := q\<rparr>"
      by (cases n) (auto split: screen.split)
    with SMove show ?thesis by simp
  qed simp_all
qed

lemma same_path: "\<exists>p. s = s\<lparr>path := p\<rparr>"
  by (rule exI [of _ "path s"]) simp

lemma redirects_path: "\<exists>p. redirects pl n s = s\<lparr>path := p\<rparr>"
proof (induction n arbitrary: s)
  case 0
  show ?case using same_path by simp
next
  case (Suc n)
  show ?case
  proof (cases "screen_of pl s")
    case (SMove q)
    from Suc [of "s\<lparr>path := q\<rparr>"] SMove show ?thesis by simp
  qed (use same_path [of s] in simp_all)
qed

end
