(* ===== verification/WorldInv.thy ===== *)
theory WorldInv
  imports World
begin

text \<open>
  The invariants of the application: which component is mounted, its subscription, the freshness
  of instance numbers, and the flags that say a call is in flight.
\<close>

section \<open>Frames of the dashboard's handlers\<close>

text \<open>A handler of an instance of the dashboard leaves the rest of the application as it is, adds
  only clean-up timers of its own instance, and when that instance is no longer mounted it does
  not touch the local state of the one that is.\<close>

definition page_frame :: "nat \<Rightarrow> 'z page_scheme \<Rightarrow> 'z page_scheme \<Rightarrow> bool" where
  "page_frame inst s t \<longleftrightarrow>
     page.more t = page.more s \<and> dash t = dash s \<and> clock t = clock s \<and> form_urls t = form_urls s \<and>
     (\<exists>ts. timers t = timers s @ ts \<and> (\<forall>x \<in> set ts. \<exists>i. x = (clock s + 3000, TCleanup inst i))) \<and>
     (dash s \<noteq> Some inst \<longrightarrow>
        loading t = loading s \<and> error t = error s \<and> pendingRequests t = pendingRequests s)"

lemma page_frame_refl: "page_frame inst s s"
  by (simp add: page_frame_def)

lemma page_frame_primitives [keeps_rules]:
  "keeps (page_frame inst s) (setLoading inst b)"
  "keeps (page_frame inst s) (setError inst m)"
  "keeps (page_frame inst s) (setPendingRequests inst f)"
  "keeps (page_frame inst s) (setFeedItems g)"
  "keeps (page_frame inst s) (setMode v)"
  by (auto simp: keeps_def page_frame_def act_simps split: sum.split)

lemma page_frame_timeout [keeps_rules]:
  "keeps (page_frame inst s) (setTimeout (TCleanup inst i) 3000)"
proof -
  have "page_frame inst s (t\<lparr>timers := timers t @ [(clock t + 3000, TCleanup inst i)]\<rparr>)"
    if t: "page_frame inst s t" for t
  proof -
    from t obtain ts where ts: "timers t = timers s @ ts"
        "\<forall>x \<in> set ts. \<exists>i. x = (clock s + 3000, TCleanup inst i)"
      by (auto simp: page_frame_def)
    with t show ?thesis
      by (auto simp: page_frame_def intro!: exI [of _ "ts @ [(clock s + 3000, TCleanup inst i)]"])
  qed
  then show ?thesis by (simp add: keeps_def act_simps)
qed

lemma broadcast_keeps: "keeps (page_frame inst s) (handleBroadcastMessage inst data)"
  unfolding handleBroadcastMessage_def by (intro keeps_rules)

lemma submit_settle_keeps: "keeps (page_frame inst s) (submit_settle en inst us answer)"
  unfolding submit_settle_def submit_full_def submit_fallback_def add_request_def
  by (intro keeps_rules)

lemma submit_start_keeps: "keeps (page_frame inst s) (submit_start inst us)"
  unfolding submit_start_def by (intro keeps_rules)

lemma load_items_keeps: "keeps (page_frame inst s) (load_items inst answer)"
  unfolding load_items_def by (intro keeps_rules)

lemma load_health_keeps: "keeps (page_frame inst s) (load_health answer)"
  unfolding load_health_def by (intro keeps_rules)

lemma cleanup_keeps: "keeps (page_frame inst s) (run_cleanup_timer inst i)"
  unfolding run_cleanup_timer_def by (intro keeps_rules)

lemmas page_frames =
  broadcast_keeps [THEN keepsD, OF page_frame_refl]
  submit_settle_keeps [THEN keepsD, OF page_frame_refl]
  submit_start_keeps [THEN keepsD, OF page_frame_refl]
  load_items_keeps [THEN keepsD, OF page_frame_refl]
  load_health_keeps [THEN keepsD, OF page_frame_refl]
  cleanup_keeps [THEN keepsD, OF page_frame_refl]

lemma page_more_eq:
  fixes s t :: main_app
  assumes "page.more t = page.more s"
  shows "authenticated t = authenticated s" "userEmail t = userEmail s" "flashMessage t = flashMessage s"
    "path t = path s" "login_view t = login_view s" "channel t = channel s"
    "next_inst t = next_inst s" "calls t = calls s"
  using assms by (cases s; cases t; simp)+

section \<open>Instances\<close>

fun call_inst :: "call \<Rightarrow> nat option" where
  "call_inst (CLogin i email) = Some i"
| "call_inst (CLoginItems i) = Some i"
| "call_inst (CLoginHealth i) = Some i"
| "call_inst (CDashItems i) = Some i"
| "call_inst (CSubmit i us) = Some i"
| "call_inst _ = None"

fun timer_inst :: "timer \<Rightarrow> nat option" where
  "timer_inst (TCleanup i v) = Some i"
| "timer_inst TFlash = None"

definition older :: "nat \<Rightarrow> nat option \<Rightarrow> bool" where
  "older n i \<longleftrightarrow> (case i of None \<Rightarrow> True | Some k \<Rightarrow> k < n)"

lemma older_simps [simp]: "older n None" "older n (Some k) \<longleftrightarrow> k < n"
  by (simp_all add: older_def)

text \<open>Every instance mentioned anywhere has been mounted, and the hook is subscribed for the
  instance of the dashboard that is mounted.\<close>

definition linked :: "main_app \<Rightarrow> bool" where
  "linked s \<longleftrightarrow>
     older (next_inst s) (dash s) \<and> older (next_inst s) (map_option fst (login_view s)) \<and>
     (\<forall>c \<in> set (calls s). older (next_inst s) (call_inst (snd c))) \<and>
     (\<forall>x \<in> set (timers s). older (next_inst s) (timer_inst (snd x))) \<and>
     hook_inv (channel s) \<and> map_option fst (mounted (channel s)) = map_option Some (dash s)"

lemma linked_frame:
  assumes "page_frame inst s t" "linked s" "inst < next_inst s"
  shows "linked t"
proof -
  from assms(1) obtain ts where ts: "timers t = timers s @ ts"
      "\<forall>x \<in> set ts. \<exists>i. x = (clock s + 3000, TCleanup inst i)"
    and m: "page.more t = page.more s" "dash t = dash s"
    by (auto simp: page_frame_def)
  have "\<forall>x \<in> set ts. older (next_inst s) (timer_inst (snd x))" using ts(2) assms(3) by auto
  with assms(2) ts(1) m show ?thesis by (auto simp: linked_def page_more_eq [OF m(1)])
qed

lemma linked_more:
  "linked s \<Longrightarrow> linked (s\<lparr>calls := drop_nth i (calls s)\<rparr>)"
  "linked s \<Longrightarrow> linked (s\<lparr>timers := drop_nth i (timers s)\<rparr>)"
  "linked s \<Longrightarrow> linked (s\<lparr>clock := n\<rparr>)"
  "linked s \<Longrightarrow> linked (s\<lparr>path := p\<rparr>)"
  by (simp_all add: linked_def) (meson set_drop_nth subsetD)+

definition linked_for :: "nat \<Rightarrow> main_app \<Rightarrow> bool" where
  "linked_for inst s \<longleftrightarrow> linked s \<and> inst < next_inst s"

lemma linked_primitives [keeps_rules]:
  "keeps linked (setAuthenticated b)" "keeps linked (setUserEmail e)" "keeps linked (setFlashMessage m)"
  "keeps linked (navigate p)" "keeps linked (setFeedItems f)" "keeps linked (setMode v)"
  "keeps linked (setTimeout TFlash n)" "call_inst k = None \<Longrightarrow> keeps linked (send q k)"
  by (auto simp: keeps_def act_simps linked_def split: sum.split)

lemma linked_for_primitives [keeps_rules]:
  "keeps (linked_for i) (setAuthenticated b)" "keeps (linked_for i) (setUserEmail e)"
  "keeps (linked_for i) (setFlashMessage m)" "keeps (linked_for i) (navigate p)"
  "keeps (linked_for i) (setFeedItems f)" "keeps (linked_for i) (setMode v)"
  "keeps (linked_for i) (setTimeout TFlash n)"
  "call_inst k = Some i \<Longrightarrow> keeps (linked_for i) (send q k)"
  "keeps (linked_for i) (resolve_login en j outcome)"
  by (auto simp: keeps_def act_simps linked_def linked_for_def resolve_login_def split: sum.split option.split)

lemma boot_items_linked: "keeps linked (boot_items answer)"
  unfolding boot_items_def by (intro keeps_rules) simp

lemma logout_linked: "keeps linked (logout_done answer)"
  unfolding logout_done_def by (intro keeps_rules)

lemma login_linked:
  "keeps (linked_for i) (await_login en i False (login_done i email answer))"
  "keeps (linked_for i) (await_login en i False (login_items i answer))"
  "keeps (linked_for i) (await_login en i True (login_health answer))"
  unfolding await_login_def login_done_def login_items_def login_health_def
  by (intro keeps_rules; simp)+

lemma load_health_linked: "keeps linked (load_health answer)"
  unfolding load_health_def by (intro keeps_rules)

lemma settle_linked:
  assumes "linked s" "older (next_inst s) (call_inst c)"
  shows "linked (snd (settle en c answer s))"
proof (cases c)
  case CBootItems
  then show ?thesis using boot_items_linked [THEN keepsD, OF assms(1)] by simp
next
  case CBootHealth
  then show ?thesis using load_health_linked [THEN keepsD, OF assms(1)] by simp
next
  case (CLogin i email)
  with assms have "linked_for i s" by (simp add: linked_for_def)
  with CLogin login_linked(1) [THEN keepsD, of i s] show ?thesis by (simp add: linked_for_def)
next
  case (CLoginItems i)
  with assms have "linked_for i s" by (simp add: linked_for_def)
  with CLoginItems login_linked(2) [THEN keepsD, of i s] show ?thesis by (simp add: linked_for_def)
next
  case (CLoginHealth i)
  with assms have "linked_for i s" by (simp add: linked_for_def)
  with CLoginHealth login_linked(3) [THEN keepsD, of i s] show ?thesis by (simp add: linked_for_def)
next
  case CLogout
  then show ?thesis using logout_linked [THEN keepsD, OF assms(1)] by simp
next
  case (CDashItems i)
  with assms show ?thesis using linked_frame [OF page_frames(4)] by simp
next
  case CDashHealth
  then show ?thesis using load_health_linked [THEN keepsD, OF assms(1)] by simp
next
  case (CSubmit i us)
  with assms show ?thesis using linked_frame [OF page_frames(2)] by simp
qed

lemma deliver_linked: "linked s \<Longrightarrow> deliver (cable (channel s)) = (case dash s of None \<Rightarrow> [] | Some i \<Rightarrow> [i])"
  by (cases "dash s"; cases "mounted (channel s)")
    (auto simp: linked_def hook_inv_deliver received_def)

lemma receive_eq:
  "linked s \<Longrightarrow> receive data s =
     (case dash s of None \<Rightarrow> s | Some i \<Rightarrow> snd (handleBroadcastMessage i data s))"
  by (simp add: receive_def deliver_linked split: option.split)

lemma receive_linked:
  assumes "linked s"
  shows "linked (receive data s)"
proof (cases "dash s")
  case None
  with assms show ?thesis by (simp add: receive_eq)
next
  case (Some i)
  with assms have "i < next_inst s" by (simp add: linked_def)
  from linked_frame [OF page_frames(1) assms this] Some assms show ?thesis by (simp add: receive_eq)
qed

lemma fire_timer_linked:
  assumes "linked s" "i < length (timers s)"
  shows "linked (fire_timer i s)"
proof (cases "snd (timers s ! i)")
  case (TCleanup inst v)
  from assms have "older (next_inst s) (timer_inst (snd (timers s ! i)))" by (simp add: linked_def)
  with TCleanup have "inst < next_inst s" by simp
  with TCleanup linked_frame [OF page_frames(6) linked_more(2) [OF assms(1)]] show ?thesis
    by (simp add: fire_timer_def)
next
  case TFlash
  with linked_more(2) [OF assms(1)] show ?thesis
    using linked_primitives(3) [THEN keepsD] by (simp add: fire_timer_def)
qed

lemma answer_linked:
  assumes "linked s" "i < length (calls s)"
  shows "linked (answer_call pl i a s)"
proof -
  from assms have "older (next_inst s) (call_inst (snd (calls s ! i)))" by (simp add: linked_def)
  then show ?thesis
    unfolding answer_call_def by (intro settle_linked linked_more assms(1)) simp
qed

lemma login_event_linked: "linked s \<Longrightarrow> linked (login_event h v s)"
  by (cases h) (auto simp: linked_def in_login_def lf_submit_def split: option.split)

lemma submit_event_linked: "linked s \<Longrightarrow> linked (submit_event s)"
  by (auto simp: linked_def submit_event_def submit_start_def act_simps split: option.split)

lemma dash_event_linked:
  assumes "linked s"
  shows "linked (dash_event h v s)"
proof (cases h)
  case DhCloseError
  with assms show ?thesis by (auto simp: linked_def act_simps split: option.split)
next
  case (DhForm f)
  from assms have "linked (s\<lparr>form_urls := us\<rparr>)" for us by (simp add: linked_def)
  with DhForm submit_event_linked [OF assms] show ?thesis by (cases f) simp_all
qed

lemma user_event_linked: "linked s \<Longrightarrow> linked (user_event h v s)"
  using login_event_linked dash_event_linked
  by (cases h) (auto simp: linked_def act_simps)

section \<open>Committing keeps the screen and the mounted components together\<close>

lemma hook_mount_ok:
  assumes "hook_inv h" "mounted h = None"
  shows "hook_inv (hook_mount strict cb h)" "map_option fst (mounted (hook_mount strict cb h)) = Some cb"
proof -
  have "hook_inv (run_effect cb (run_cleanup (run_effect cb h)))"
    by (intro run_effect_inv run_cleanup_inv assms run_cleanup_mounted)
  moreover have "hook_inv (run_effect cb h)" by (intro run_effect_inv assms)
  ultimately show "hook_inv (hook_mount strict cb h)" by (simp add: hook_mount_def)
  show "map_option fst (mounted (hook_mount strict cb h)) = Some cb"
    using mounted_run_effect [of cb h] mounted_run_effect [of cb "run_cleanup (run_effect cb h)"]
    by (auto simp: hook_mount_def)
qed

lemma hook_unmount_ok:
  "hook_inv h \<Longrightarrow> hook_inv (hook_unmount h)" "mounted (hook_unmount h) = None"
  by (simp_all add: hook_unmount_def run_cleanup_inv)

lemma screen_of_cong:
  "crashed s = crashed t \<Longrightarrow> authenticated s = authenticated t \<Longrightarrow> path s = path t \<Longrightarrow>
   screen_of pl s = screen_of pl t"
  by (cases "authenticated t") (simp_all add: screen_of_def)

lemmas place_defs = place_def enter_login_def enter_dash_def leave_login_def leave_dash_def

lemma place_keeps [simp]:
  "timers (place pl s) = timers s" "clock (place pl s) = clock s" "calls (place pl s) = calls s"
  "feedItems (place pl s) = feedItems s" "mode (place pl s) = mode s" "crashed (place pl s) = crashed s"
  "authenticated (place pl s) = authenticated s" "userEmail (place pl s) = userEmail s"
  "flashMessage (place pl s) = flashMessage s" "path (place pl s) = path s"
  by (simp_all add: place_defs split: screen.split)

lemma screen_of_place [simp]: "screen_of pl (place pl s) = screen_of pl s"
  by (rule screen_of_cong) simp_all

lemma place_dash:
  "dash (place pl s) =
     (if screen_of pl s = SDash then Some (case dash s of None \<Rightarrow> next_inst s | Some i \<Rightarrow> i) else None)"
  by (simp add: place_defs split: screen.split option.split)

lemma place_login:
  "login_view (place pl s) =
     (if screen_of pl s = SLogin
      then Some (case login_view s of None \<Rightarrow> (next_inst s, lf_init) | Some x \<Rightarrow> x) else None)"
  by (simp add: place_defs split: screen.split option.split)

lemma place_channel:
  "channel (place pl s) = (if screen_of pl s = SDash then channel s else hook_unmount (channel s))"
  by (simp add: place_defs split: screen.split)

lemma place_next: "next_inst s \<le> next_inst (place pl s)"
    "older (next_inst s) i \<Longrightarrow> older (next_inst (place pl s)) i"
    "next_inst (place pl s) =
       (if (screen_of pl s = SDash \<and> dash s = None) \<or> (screen_of pl s = SLogin \<and> login_view s = None)
        then Suc (next_inst s) else next_inst s)"
  by (auto simp: place_defs older_def split: screen.split option.splits)

lemma place_local:
  assumes "dash (place pl s) \<noteq> None"
  shows "dash s = None \<Longrightarrow> loading (place pl s) = False \<and> error (place pl s) = [] \<and>
      pendingRequests (place pl s) = [] \<and> form_urls (place pl s) = ff_init"
    "dash s \<noteq> None \<Longrightarrow> loading (place pl s) = loading s \<and> error (place pl s) = error s \<and>
      pendingRequests (place pl s) = pendingRequests s \<and> form_urls (place pl s) = form_urls s"
  using assms by (auto simp: place_defs split: screen.splits)

text \<open>\<open>place\<close> and the effects of a mount, or the take-down after an error, from a state whose
  instances are in order.\<close>

lemma place_older:
  assumes "linked s"
  shows "older (next_inst (place pl s)) (dash (place pl s))"
    "older (next_inst (place pl s)) (map_option fst (login_view (place pl s)))"
    "\<forall>c \<in> set (calls s). older (next_inst (place pl s)) (call_inst (snd c))"
    "\<forall>x \<in> set (timers s). older (next_inst (place pl s)) (timer_inst (snd x))"
proof -
  show "older (next_inst (place pl s)) (dash (place pl s))"
    using assms by (auto simp: place_dash place_next(3) linked_def split: option.split)
  show "older (next_inst (place pl s)) (map_option fst (login_view (place pl s)))"
    using assms by (auto simp: place_login place_next(3) linked_def split: option.split)
  show "\<forall>c \<in> set (calls s). older (next_inst (place pl s)) (call_inst (snd c))"
    "\<forall>x \<in> set (timers s). older (next_inst (place pl s)) (timer_inst (snd x))"
    using assms place_next(2) by (auto simp: linked_def)
qed

lemma down_linked:
  assumes "linked s"
  shows "linked (take_down ((place pl s)\<lparr>crashed := e\<rparr>))"
  using place_older [OF assms, of pl] assms
  by (auto simp: linked_def take_down_def leave_login_def leave_dash_def hook_unmount_ok place_channel)

lemma mount_linked:
  assumes "linked s"
  shows "linked (mount_effects pl (dash s) (place pl s))"
proof -
  note o = place_older [OF assms, of pl]
  have h: "hook_inv (channel s)" "map_option fst (mounted (channel s)) = map_option Some (dash s)"
    using assms by (simp_all add: linked_def)
  show ?thesis
  proof (cases "screen_of pl s = SDash")
    case False
    with o h show ?thesis
      by (simp add: linked_def mount_effects_def place_dash place_channel hook_unmount_ok)
  next
    case True
    show ?thesis
    proof (cases "dash s")
      case None
      with h have m: "mounted (channel s) = None" by simp
      with True None o h(1) hook_mount_ok [OF h(1) m] show ?thesis
        by (auto simp: linked_def mount_effects_def place_dash place_channel dash_effects_def twice_def)
    next
      case (Some i)
      with True o h show ?thesis
        by (simp add: linked_def mount_effects_def place_dash place_channel)
    qed
  qed
qed

definition placed :: "platform \<Rightarrow> main_app \<Rightarrow> bool" where
  "placed pl s \<longleftrightarrow>
     linked s \<and> (dash s \<noteq> None \<longleftrightarrow> screen_of pl s = SDash) \<and>
     (login_view s \<noteq> None \<longleftrightarrow> screen_of pl s = SLogin) \<and> (\<forall>p. screen_of pl s \<noteq> SMove p)"

lemma commit_shape:
  obtains p where "redirects pl 2 s = s\<lparr>path := p\<rparr>"
    "(\<exists>e. MainApp pl (place pl (s\<lparr>path := p\<rparr>)) = Inl e \<and>
        commit pl s = take_down ((place pl (s\<lparr>path := p\<rparr>))\<lparr>crashed := Some e\<rparr>)) \<or>
     (\<exists>ns. MainApp pl (place pl (s\<lparr>path := p\<rparr>)) = Inr ns \<and>
        commit pl s = mount_effects pl (dash (s\<lparr>path := p\<rparr>)) (place pl (s\<lparr>path := p\<rparr>)))"
proof -
  obtain p where p: "redirects pl 2 s = s\<lparr>path := p\<rparr>" using redirects_path by blast
  show ?thesis
    by (rule that [of p])
      (use p in \<open>auto simp: commit_def Let_def split: sum.split\<close>)
qed

lemma mount_effects_screen [simp]: "screen_of pl (mount_effects pl b s) = screen_of pl s"
  by (rule screen_of_cong) (auto simp: mount_effects_def dash_effects_def split: option.split)

lemma mount_effects_keeps [simp]:
  "dash (mount_effects pl b s) = dash s" "login_view (mount_effects pl b s) = login_view s"
  "timers (mount_effects pl b s) = timers s" "clock (mount_effects pl b s) = clock s"
  "feedItems (mount_effects pl b s) = feedItems s" "mode (mount_effects pl b s) = mode s"
  "crashed (mount_effects pl b s) = crashed s" "authenticated (mount_effects pl b s) = authenticated s"
  "loading (mount_effects pl b s) = loading s" "error (mount_effects pl b s) = error s"
  "pendingRequests (mount_effects pl b s) = pendingRequests s"
  "form_urls (mount_effects pl b s) = form_urls s" "flashMessage (mount_effects pl b s) = flashMessage s"
  "userEmail (mount_effects pl b s) = userEmail s"
  by (auto simp: mount_effects_def dash_effects_def split: option.split)

lemma commit_placed:
  assumes "routes_ok pl" "linked s"
  shows "placed pl (commit pl s)"
proof (rule commit_shape [of pl s])
  fix p
  let ?s = "s\<lparr>path := p\<rparr>"
  assume r: "redirects pl 2 s = ?s"
    and c: "(\<exists>e. MainApp pl (place pl ?s) = Inl e \<and> commit pl s = take_down ((place pl ?s)\<lparr>crashed := Some e\<rparr>)) \<or>
      (\<exists>ns. MainApp pl (place pl ?s) = Inr ns \<and> commit pl s = mount_effects pl (dash ?s) (place pl ?s))"
  have l: "linked ?s" by (rule linked_more(4) [OF assms(2)])
  have m: "screen_of pl ?s \<noteq> SMove q" for q
    using redirects_done [OF assms(1), of 1 s q] r by (simp add: numeral_2_eq_2)
  from c show ?thesis
  proof
    assume "\<exists>e. MainApp pl (place pl ?s) = Inl e \<and> commit pl s = take_down ((place pl ?s)\<lparr>crashed := Some e\<rparr>)"
    then obtain e where e: "commit pl s = take_down ((place pl ?s)\<lparr>crashed := Some e\<rparr>)" by blast
    have "screen_of pl (commit pl s) = SBlank"
      by (simp add: e screen_of_def take_down_def leave_login_def leave_dash_def)
    with down_linked [OF l] show ?thesis
      by (simp add: placed_def e take_down_def leave_login_def leave_dash_def)
  next
    assume "\<exists>ns. MainApp pl (place pl ?s) = Inr ns \<and> commit pl s = mount_effects pl (dash ?s) (place pl ?s)"
    then have e: "commit pl s = mount_effects pl (dash ?s) (place pl ?s)" by blast
    show ?thesis
      using mount_linked [OF l] m by (simp add: placed_def e place_dash place_login)
  qed
qed

end
