(* ===== verification/WorldFlags.thy ===== *)
theory WorldFlags
  imports WorldInv
begin

text \<open>
  The flags that say a call is in flight: the dashboard shows \<open>loading\<close> exactly while its submit
  is unanswered, the login form exactly while one of the calls of its login is, and the spinner
  is shown only while a bootstrap call is.
\<close>

section \<open>Which events the screen offers\<close>

lemma Navigation_events: "Navigation email m = Inr n \<Longrightarrow> set (events n) \<subseteq> {AhLogout}"
proof -
  assume a: "Navigation email m = Inr n"
  have no: "concat (map events ns) = []" if "child_of m = Inr ns" for ns :: "app_handler node list"
    using child_of_no_events [OF that] by (force simp: concat_eq_Nil_conv)
  from a show ?thesis
    by (auto simp: Navigation_def bind_r_Inr_iff ui_simps split: if_splits dest!: no)
qed

lemma flash_events: "set (concat (map events (flash_alert m))) \<subseteq> {AhCloseFlash}"
  by (simp add: flash_alert_def ui_simps)

lemma offered_cases:
  assumes "h \<in> set (offered pl s)"
  obtains "h = AhLogout" | "h = AhCloseFlash"
    | i f l where "screen_of pl s = SLogin" "login_view s = Some (i, f)" "h = AhLogin l" "l \<in> set (events (LoginForm f))"
    | d n where "screen_of pl s = SDash" "Dashboard (p_engine pl) s = Inr n" "h = AhDash d" "d \<in> set (events n)"
proof -
  from assms obtain ns where ns: "MainApp pl s = Inr ns" "h \<in> set (concat (map events ns))"
    by (cases "MainApp pl s") (auto simp: offered_def)
  show ?thesis
  proof (cases "crashed s \<noteq> None \<or> authenticated s = None")
    case True
    with ns show ?thesis by (auto simp: MainApp_def wait_view_def ui_simps split: if_splits)
  next
    case False
    with ns obtain nav out where
      nav: "(if authenticated s = Some True then bind_r (Navigation (userEmail s) (mode s)) (\<lambda>n. Inr [n]) else Inr []) = Inr nav"
      and out: "outlet pl s = Inr out"
      and h: "h \<in> set (concat (map events nav)) \<union> set (concat (map events (flash_alert (flashMessage s))))
          \<union> set (concat (map events out))"
      by (auto simp: MainApp_def bind_r_Inr_iff is_disabled_def attr_events_def)
    have "set (concat (map events nav)) \<subseteq> {AhLogout}"
      using nav by (auto simp: bind_r_Inr_iff split: if_splits dest!: Navigation_events)
    with h flash_events consider "h = AhLogout" | "h = AhCloseFlash" | "h \<in> set (concat (map events out))"
      by blast
    then show ?thesis
    proof cases
      case 3
      with out that(3,4) show ?thesis
        by (auto simp: outlet_def bind_r_Inr_iff events_map split: screen.splits option.splits)
    qed (use that in auto)
  qed
qed

lemma offered_login:
  "AhLogin LfSubmit \<in> set (offered pl s) \<Longrightarrow> \<exists>i f. login_view s = Some (i, f) \<and> \<not> lf_loading f"
  by (erule offered_cases) (auto simp: LoginForm_events split: if_splits)

lemma offered_submit:
  assumes "AhDash (DhForm FfSubmit) \<in> set (offered pl s)"
  shows "screen_of pl s = SDash" "\<not> loading s" "active_urls (form_urls s) \<noteq> []"
  using assms
  by (auto elim!: offered_cases dest!: Dashboard_events
      simp: FeedForm_events isSubmitDisabled_def split: if_splits)

section \<open>Calls in flight\<close>

definition in_flight :: "(call \<Rightarrow> bool) \<Rightarrow> main_app \<Rightarrow> nat" where
  "in_flight p s = length (filter (\<lambda>c. p (snd c)) (calls s))"

fun submits :: "nat \<Rightarrow> call \<Rightarrow> bool" where
  "submits i (CSubmit j us) = (i = j)"
| "submits i _ = False"

fun logs_in :: "nat \<Rightarrow> call \<Rightarrow> bool" where
  "logs_in i (CLogin j email) = (i = j)"
| "logs_in i (CLoginItems j) = (i = j)"
| "logs_in i (CLoginHealth j) = (i = j)"
| "logs_in i _ = False"

fun boots :: "call \<Rightarrow> bool" where
  "boots CBootItems = True"
| "boots _ = False"

lemma submits_inst: "submits i c \<Longrightarrow> call_inst c = Some i"
  by (cases c) auto

lemma logs_in_inst: "logs_in i c \<Longrightarrow> call_inst c = Some i"
  by (cases c) auto

lemma in_flight_drop:
  "i < length (calls s) \<Longrightarrow>
   in_flight p s = in_flight p (s\<lparr>calls := drop_nth i (calls s)\<rparr>) + of_bool (p (snd (calls s ! i)))"
proof -
  assume i: "i < length (calls s)"
  have "in_flight p t = size (filter_mset (\<lambda>c. p (snd c)) (mset (calls t)))" for t
    by (simp add: in_flight_def flip: mset_filter)
  with drop_nth_mset [OF i] show ?thesis by simp
qed

lemma in_flight_append: "in_flight p (s\<lparr>calls := calls s @ cs\<rparr>) = in_flight p s + length (filter (p \<circ> snd) cs)"
  by (simp add: in_flight_def comp_def)

lemma in_flight_fresh:
  assumes "linked s" "\<And>c. p c \<Longrightarrow> call_inst c = Some (next_inst s)"
  shows "in_flight p s = 0"
  using assms by (fastforce simp: in_flight_def linked_def filter_empty_conv)

definition flags :: "main_app \<Rightarrow> bool" where
  "flags s \<longleftrightarrow>
     (\<forall>i. dash s = Some i \<longrightarrow> in_flight (submits i) s = of_bool (loading s)) \<and>
     (\<forall>i f. login_view s = Some (i, f) \<longrightarrow> in_flight (logs_in i) s = of_bool (lf_loading f)) \<and>
     (authenticated s = None \<longrightarrow> in_flight boots s > 0)"

text \<open>What the flags depend on.\<close>

definition flag_view ::
    "main_app \<Rightarrow> nat option \<times> bool \<times> (nat \<times> login_form) option \<times> bool option \<times> (http_request \<times> call) list" where
  "flag_view s = (dash s, loading s, login_view s, authenticated s, calls s)"

lemma flags_view: "flag_view s = flag_view t \<Longrightarrow> flags s \<Longrightarrow> flags t"
  by (simp add: flags_def flag_view_def in_flight_def)

lemma view_primitives [keeps_rules]:
  "keeps (\<lambda>s. flag_view s = v) (setError i m)" "keeps (\<lambda>s. flag_view s = v) (setPendingRequests i f)"
  "keeps (\<lambda>s. flag_view s = v) (setFeedItems g)" "keeps (\<lambda>s. flag_view s = v) (setMode x)"
  "keeps (\<lambda>s. flag_view s = v) (setTimeout t n)" "keeps (\<lambda>s. flag_view s = v) (setFlashMessage m)"
  by (auto simp: keeps_def flag_view_def act_simps split: sum.split)

lemma keeps_flag_view: "keeps (\<lambda>t. flag_view t = flag_view s) m \<Longrightarrow> flags s \<Longrightarrow> flags (snd (m s))"
  using flags_view [of s "snd (m s)"] by (simp add: keeps_def)

lemma view_handlers:
  "keeps (\<lambda>s. flag_view s = v) (handleBroadcastMessage inst data)"
  "keeps (\<lambda>s. flag_view s = v) (load_items inst answer)"
  "keeps (\<lambda>s. flag_view s = v) (load_health answer)"
  "keeps (\<lambda>s. flag_view s = v) (run_cleanup_timer inst x)"
  unfolding handleBroadcastMessage_def load_items_def load_health_def run_cleanup_timer_def
  by (intro keeps_rules)+

lemma submit_settle_flag_view:
  "flag_view (snd (submit_settle en inst us answer s)) =
     (dash s, if dash s = Some inst then False else loading s, login_view s, authenticated s, calls s)"
proof -
  define body :: "unit app_act" where "body = try_catch
      (bind_a (lift_r answer) (\<lambda>res.
       bind_a (lift_r (get_prop res ''mode'')) (\<lambda>m.
         if strict_eq m (Str (lit ''full'')) then submit_full inst us res
         else submit_fallback inst us res)))
      (\<lambda>err. setError inst (or_text (err_message en err) ''Failed to submit feeds''))"
  have "keeps (\<lambda>t. flag_view t = flag_view s) body"
    unfolding body_def submit_full_def submit_fallback_def add_request_def by (intro keeps_rules)
  then have b: "flag_view (snd (body s)) = flag_view s" by (simp add: keeps_def)
  have "snd (submit_settle en inst us answer s) = snd (setLoading inst False (snd (body s)))"
    by (simp add: submit_settle_def body_def setLoading_def when_mounted_def try_finally_modify modify_def)
  with b show ?thesis by (auto simp: flag_view_def act_simps)
qed

section \<open>Every step keeps the flags\<close>

lemma flagsI:
  assumes "\<And>i. dash s = Some i \<Longrightarrow> in_flight (submits i) s = of_bool (loading s)"
    and "\<And>i f. login_view s = Some (i, f) \<Longrightarrow> in_flight (logs_in i) s = of_bool (lf_loading f)"
    and "authenticated s = None \<Longrightarrow> in_flight boots s > 0"
  shows "flags s"
  using assms by (simp add: flags_def)

lemma flag_viewD:
  assumes "flag_view t = (d, l, v, a, cs)"
  shows "dash t = d" "loading t = l" "login_view t = v" "authenticated t = a" "calls t = cs"
  using assms by (simp_all add: flag_view_def)

text \<open>The states a login call can leave behind.\<close>

lemma boot_items_flags:
  "dash (snd (boot_items answer s)) = dash s \<and> loading (snd (boot_items answer s)) = loading s \<and>
   login_view (snd (boot_items answer s)) = login_view s \<and>
   authenticated (snd (boot_items answer s)) \<noteq> None \<and>
   (\<exists>cs. calls (snd (boot_items answer s)) = calls s @ cs \<and> set (map snd cs) \<subseteq> {CBootHealth})"
  by (cases answer; cases "\<exists>e. get_prop (projr answer) ''items'' = Inl e")
    (auto simp: boot_items_def act_simps split: sum.split)

lemma logout_flags:
  "flag_view (snd (logout_done answer s)) = (dash s, loading s, login_view s, Some False, calls s)"
  by (cases answer) (simp_all add: logout_done_def act_simps flag_view_def)

definition login_after :: "nat \<Rightarrow> bool \<Rightarrow> call list \<Rightarrow> main_app \<Rightarrow> main_app \<Rightarrow> bool" where
  "login_after inst ended ks s t \<longleftrightarrow>
     dash t = dash s \<and> loading t = loading s \<and> (authenticated t = None \<longrightarrow> authenticated s = None) \<and>
     map snd (calls t) = map snd (calls s) @ ks \<and>
     (case login_view s of None \<Rightarrow> login_view t = None
      | Some (i, f) \<Rightarrow> \<exists>g. login_view t = Some (i, g) \<and>
          lf_loading g = (if ended \<and> i = inst then False else lf_loading f))"

lemma login_done_after:
  "\<exists>ended ks. login_after inst ended ks s (snd (await_login en inst False (login_done inst email answer) s)) \<and>
     (ended \<and> ks = [] \<or> \<not> ended \<and> ks = [CLoginItems inst])"
proof (cases answer)
  case (Inl e)
  then show ?thesis
    by (intro exI [of _ True] exI [of _ "[]"])
      (simp add: login_after_def await_login_def login_done_def resolve_login_def act_simps split: option.split if_splits)
next
  case (Inr v)
  then show ?thesis
    by (intro exI [of _ False] exI [of _ "[CLoginItems inst]"])
      (simp add: login_after_def await_login_def login_done_def act_simps split: option.split if_splits)
qed

lemma login_items_after:
  "\<exists>ended ks. login_after inst ended ks s (snd (await_login en inst False (login_items inst answer) s)) \<and>
     (ended \<and> ks = [] \<or> \<not> ended \<and> ks = [CLoginHealth inst])"
proof (cases "bind_r answer (\<lambda>d. get_prop d ''items'')")
  case (Inl e)
  then have "(\<exists>e. answer = Inl e) \<or> (\<exists>d e. answer = Inr d \<and> get_prop d ''items'' = Inl e)"
    by (cases answer) auto
  then show ?thesis
    by (intro exI [of _ True] exI [of _ "[]"])
      (auto simp: login_after_def await_login_def login_items_def resolve_login_def act_simps split: option.split if_splits)
next
  case (Inr v)
  then obtain d where "answer = Inr d" "get_prop d ''items'' = Inr v" by (auto simp: bind_r_Inr_iff)
  then show ?thesis
    by (intro exI [of _ False] exI [of _ "[CLoginHealth inst]"])
      (simp add: login_after_def await_login_def login_items_def act_simps split: option.split if_splits)
qed

lemma login_health_after:
  "login_after inst True [] s (snd (await_login en inst True (login_health answer) s))"
proof (cases "bind_r answer (\<lambda>d. get_prop d ''mode'')")
  case (Inl e)
  then have "(\<exists>e. answer = Inl e) \<or> (\<exists>d e. answer = Inr d \<and> get_prop d ''mode'' = Inl e)"
    by (cases answer) auto
  then show ?thesis
    by (auto simp: login_after_def await_login_def login_health_def resolve_login_def act_simps split: option.split if_splits)
next
  case (Inr v)
  then obtain d where "answer = Inr d" "get_prop d ''mode'' = Inr v" by (auto simp: bind_r_Inr_iff)
  then show ?thesis
    by (simp add: login_after_def await_login_def login_health_def resolve_login_def act_simps split: option.split if_splits)
qed

lemma in_flight_map: "in_flight p s = length (filter p (map snd (calls s)))"
  by (simp add: in_flight_def filter_map comp_def)

lemma login_after_flags:
  assumes "flags s" "i < length (calls s)" "login_after inst ended ks (s\<lparr>calls := drop_nth i (calls s)\<rparr>) t"
    and c: "\<And>j. logs_in j (snd (calls s ! i)) = (j = inst)" "\<And>j. \<not> submits j (snd (calls s ! i))"
      "\<not> boots (snd (calls s ! i))"
    and ks: "ended \<and> ks = [] \<or> \<not> ended \<and> (\<exists>k. ks = [k] \<and> (\<forall>j. logs_in j k = (j = inst) \<and> \<not> submits j k) \<and> \<not> boots k)"
  shows "flags t"
proof -
  let ?s = "s\<lparr>calls := drop_nth i (calls s)\<rparr>"
  have d: "dash t = dash s" "loading t = loading s" "authenticated t = None \<longrightarrow> authenticated s = None"
    and m: "map snd (calls t) = map snd (calls ?s) @ ks"
    and v: "case login_view s of None \<Rightarrow> login_view t = None
      | Some (i, f) \<Rightarrow> \<exists>g. login_view t = Some (i, g) \<and>
          lf_loading g = (if ended \<and> i = inst then False else lf_loading f)"
    using assms(3) by (auto simp: login_after_def)
  have n: "in_flight p t = in_flight p ?s + length (filter p ks)" for p
    using m by (simp add: in_flight_map)
  have o: "in_flight p s = in_flight p ?s + of_bool (p (snd (calls s ! i)))" for p
    by (rule in_flight_drop [OF assms(2)])
  show ?thesis
  proof (rule flagsI)
    fix k assume "dash t = Some k"
    with assms(1) d have "in_flight (submits k) s = of_bool (loading t)" by (simp add: flags_def)
    moreover have "filter (submits k) ks = []" using ks by auto
    ultimately show "in_flight (submits k) t = of_bool (loading t)"
      using o [of "submits k"] n [of "submits k"] c(2) by simp
  next
    fix k g assume t: "login_view t = Some (k, g)"
    with v obtain f where s: "login_view s = Some (k, f)"
      and g: "lf_loading g = (if ended \<and> k = inst then False else lf_loading f)"
      by (cases "login_view s") auto
    from assms(1) s have "in_flight (logs_in k) s = of_bool (lf_loading f)" by (simp add: flags_def)
    then have 1: "in_flight (logs_in k) ?s + of_bool (k = inst) = of_bool (lf_loading f)"
      using o [of "logs_in k"] by (simp only: c(1))
    have 2: "length (filter (logs_in k) ks) = of_bool (k = inst \<and> \<not> ended)"
      using ks
    proof
      assume "\<not> ended \<and> (\<exists>k. ks = [k] \<and> (\<forall>j. logs_in j k = (j = inst) \<and> \<not> submits j k) \<and> \<not> boots k)"
      then obtain x where "\<not> ended" "ks = [x]" "logs_in k x = (k = inst)" by blast
      then show ?thesis by simp
    qed simp
    show "in_flight (logs_in k) t = of_bool (lf_loading g)"
      using 1 2 n [of "logs_in k"] g by (cases "k = inst"; cases ended; cases "lf_loading f") simp_all
  next
    assume "authenticated t = None"
    with d assms(1) have "in_flight boots s > 0" by (simp add: flags_def)
    with o [of boots] n [of boots] c(3) show "in_flight boots t > 0" by simp
  qed
qed

lemma other_call_flags:
  assumes "flags s" "i < length (calls s)"
    and "\<And>j. \<not> logs_in j (snd (calls s ! i))" "\<And>j. \<not> submits j (snd (calls s ! i))"
    and "dash t = dash s" "loading t = loading s" "login_view t = login_view s"
    and "map snd (calls t) = map snd (drop_nth i (calls s)) @ ks" "set ks \<subseteq> {CBootHealth}"
    and "authenticated t = authenticated s \<and> \<not> boots (snd (calls s ! i)) \<or> authenticated t \<noteq> None"
  shows "flags t"
proof -
  let ?s = "s\<lparr>calls := drop_nth i (calls s)\<rparr>"
  have "filter p ks = []" if "\<not> p CBootHealth" for p using that assms(9) by (auto simp: filter_empty_conv)
  then have n: "in_flight p t = in_flight p ?s" if "\<not> p CBootHealth" for p
    using that assms(8) by (simp add: in_flight_map)
  have o: "in_flight p s = in_flight p ?s + of_bool (p (snd (calls s ! i)))" for p
    by (rule in_flight_drop [OF assms(2)])
  show ?thesis
    using assms(1,3-7,10) n o by (intro flagsI) (auto simp: flags_def)
qed

lemma settle_flags:
  assumes "flags s" "i < length (calls s)"
  shows "flags (answer_call pl i a s)"
proof -
  define s1 where "s1 = s\<lparr>calls := drop_nth i (calls s)\<rparr>"
  define r where "r = finish_request a"
  define t where "t = snd (settle (p_engine pl) (snd (calls s ! i)) r s1)"
  have keeps: "flags t" if "keeps (\<lambda>u. flag_view u = flag_view s1) (settle (p_engine pl) (snd (calls s ! i)) r)"
    "\<And>j. \<not> logs_in j (snd (calls s ! i))" "\<And>j. \<not> submits j (snd (calls s ! i))" "\<not> boots (snd (calls s ! i))"
  proof -
    from that(1) have "flag_view t = flag_view s1" by (simp add: keeps_def t_def)
    with that(2-) show ?thesis
      by (intro other_call_flags [OF assms, of t "[]"]) (auto simp: flag_view_def s1_def)
  qed
  have "flags t"
  proof (cases "snd (calls s ! i)")
    case CBootItems
    then have t: "t = snd (boot_items r s1)" by (simp add: t_def)
    then obtain cs where cs: "calls t = drop_nth i (calls s) @ cs" "set (map snd cs) \<subseteq> {CBootHealth}"
      using boot_items_flags [of r s1] by (auto simp: s1_def simp del: set_map)
    show ?thesis
      by (rule other_call_flags [OF assms, of t "map snd cs"])
        (use t cs boot_items_flags [of r s1] CBootItems in \<open>simp_all add: s1_def\<close>)
  next
    case CLogout
    with logout_flags [of r s1] show ?thesis
      by (intro other_call_flags [OF assms, of t "[]"]) (auto simp: t_def s1_def flag_view_def)
  next
    case (CLogin inst email)
    obtain ended ks where "login_after inst ended ks s1 t"
        "ended \<and> ks = [] \<or> \<not> ended \<and> ks = [CLoginItems inst]"
      using login_done_after [of inst s1 "p_engine pl" email r] CLogin by (auto simp: t_def)
    with CLogin show ?thesis by (intro login_after_flags [OF assms]) (auto simp: s1_def)
  next
    case (CLoginItems inst)
    obtain ended ks where "login_after inst ended ks s1 t"
        "ended \<and> ks = [] \<or> \<not> ended \<and> ks = [CLoginHealth inst]"
      using login_items_after [of inst s1 "p_engine pl" r] CLoginItems by (auto simp: t_def)
    with CLoginItems show ?thesis by (intro login_after_flags [OF assms]) (auto simp: s1_def)
  next
    case (CLoginHealth inst)
    with login_health_after [of inst s1 "p_engine pl" r] show ?thesis
      by (intro login_after_flags [OF assms, of inst True "[]"]) (auto simp: s1_def t_def)
  next
    case (CSubmit j us)
    with submit_settle_flag_view [of "p_engine pl" j us r s1] have
      t: "dash t = dash s" "loading t = (if dash s = Some j then False else loading s)"
        "login_view t = login_view s" "authenticated t = authenticated s" "calls t = drop_nth i (calls s)"
      by (auto simp: t_def s1_def flag_view_def)
    then have n: "in_flight p t = in_flight p s1" for p by (simp add: in_flight_def s1_def)
    have o: "in_flight p s = in_flight p s1 + of_bool (p (snd (calls s ! i)))" for p
      unfolding s1_def by (rule in_flight_drop [OF assms(2)])
    show ?thesis
    proof (rule flagsI)
      fix k assume k: "dash t = Some k"
      with assms(1) t(1) have "in_flight (submits k) s = of_bool (loading s)" by (simp add: flags_def)
      with o [of "submits k"] n [of "submits k"] CSubmit k t(1,2)
      show "in_flight (submits k) t = of_bool (loading t)"
        by (cases "k = j"; cases "loading s") simp_all
    next
      fix k f assume "login_view t = Some (k, f)"
      with assms(1) t(3) have "in_flight (logs_in k) s = of_bool (lf_loading f)" by (simp add: flags_def)
      with o [of "logs_in k"] n [of "logs_in k"] CSubmit
      show "in_flight (logs_in k) t = of_bool (lf_loading f)" by simp
    next
      assume "authenticated t = None"
      with assms(1) t(4) have "in_flight boots s > 0" by (simp add: flags_def)
      with o [of boots] n [of boots] CSubmit show "in_flight boots t > 0" by simp
    qed
  qed (use keeps view_handlers in auto)
  then show ?thesis by (simp add: answer_call_def t_def s1_def r_def)
qed

lemma commit_flags:
  assumes "linked s" "flags s"
  shows "flags (commit pl s)"
proof (rule commit_shape [of pl s])
  fix p
  let ?s = "s\<lparr>path := p\<rparr>"
  let ?t = "place pl ?s"
  assume c: "(\<exists>e. MainApp pl ?t = Inl e \<and> commit pl s = take_down (?t\<lparr>crashed := Some e\<rparr>)) \<or>
      (\<exists>ns. MainApp pl ?t = Inr ns \<and> commit pl s = mount_effects pl (dash ?s) ?t)"
  have f: "flags ?s" using assms(2) by (simp add: flags_def in_flight_def)
  from c show ?thesis
  proof
    assume "\<exists>e. MainApp pl ?t = Inl e \<and> commit pl s = take_down (?t\<lparr>crashed := Some e\<rparr>)"
    then obtain e where e: "commit pl s = take_down (?t\<lparr>crashed := Some e\<rparr>)" by blast
    show ?thesis
      using f by (simp add: e take_down_def leave_login_def leave_dash_def flags_def in_flight_def)
  next
    assume "\<exists>ns. MainApp pl ?t = Inr ns \<and> commit pl s = mount_effects pl (dash ?s) ?t"
    then have e: "commit pl s = mount_effects pl (dash ?s) ?t" by blast
    have n: "in_flight q (commit pl s) = in_flight q s"
      if "\<And>i. \<not> q (CDashItems i)" "\<not> q CDashHealth" for q
      by (auto simp: e mount_effects_def dash_effects_def in_flight_def twice_def that split: option.split)
    have fresh: "in_flight (submits (next_inst s)) s = 0" "in_flight (logs_in (next_inst s)) s = 0"
      using in_flight_fresh [OF assms(1), of "submits (next_inst s)"] submits_inst
        in_flight_fresh [OF assms(1), of "logs_in (next_inst s)"] logs_in_inst by auto
    show ?thesis
    proof (rule flagsI)
      fix i assume i: "dash (commit pl s) = Some i"
      then have "dash ?t = Some i" by (simp add: e)
      with place_local [of pl ?s] place_dash [of pl ?s] fresh(1) assms(2) n [of "submits i"]
      show "in_flight (submits i) (commit pl s) = of_bool (loading (commit pl s))"
        by (cases "dash s") (auto simp: e flags_def split: if_splits)
    next
      fix i f assume "login_view (commit pl s) = Some (i, f)"
      then have "login_view ?t = Some (i, f)" by (simp add: e)
      with place_login [of pl ?s] fresh(2) assms(2) n [of "logs_in i"]
      show "in_flight (logs_in i) (commit pl s) = of_bool (lf_loading f)"
        by (cases "login_view s") (auto simp: flags_def lf_init_def split: if_splits)
    next
      assume "authenticated (commit pl s) = None"
      with f n [of boots] show "in_flight boots (commit pl s) > 0" by (auto simp: e flags_def in_flight_def)
    qed
  qed
qed

lemma receive_flags: "linked s \<Longrightarrow> flags s \<Longrightarrow> flags (receive data s)"
  using keeps_flag_view [OF view_handlers(1)] by (simp add: receive_eq split: option.split)

lemma fire_timer_flags: "flags s \<Longrightarrow> flags (fire_timer i s)"
proof -
  assume "flags s"
  then have "flags (s\<lparr>timers := drop_nth i (timers s)\<rparr>)" by (simp add: flags_def in_flight_def)
  then show ?thesis
    unfolding fire_timer_def
    by (cases "snd (timers s ! i)") (simp_all add: keeps_flag_view view_handlers view_primitives)
qed

lemma login_event_flags:
  assumes "flags s" "linked s" "h = LfSubmit \<Longrightarrow> \<exists>i f. login_view s = Some (i, f) \<and> \<not> lf_loading f"
  shows "flags (login_event h v s)"
proof (cases "login_view s")
  case None
  with assms(1) show ?thesis by (cases h) (simp_all add: in_login_def)
next
  case (Some x)
  obtain i f where x: "x = (i, f)" by (cases x)
  have same: "flags (s\<lparr>login_view := Some (i, g)\<rparr>)" if "lf_loading g = lf_loading f" for g
    using assms(1) Some x that by (simp add: flags_def in_flight_def)
  show ?thesis
  proof (cases h)
    case LfSubmit
    with assms(1,3) Some x have "in_flight (logs_in i) s = 0" by (auto simp: flags_def)
    with assms(1) LfSubmit Some x show ?thesis
      by (auto simp: in_login_def lf_submit_def flags_def in_flight_def intro!: flagsI)
  qed (use Some x same in \<open>simp_all add: in_login_def lf_close_error_def lf_set_email_def lf_set_password_def\<close>)
qed

lemma submit_event_flags:
  assumes "flags s" "\<not> loading s"
  shows "flags (submit_event s)"
proof (cases "ff_submit (form_urls s)")
  case None
  with assms(1) show ?thesis by (simp add: submit_event_def)
next
  case us: (Some us)
  show ?thesis
  proof (cases "dash s")
    case None
    with assms(1) show ?thesis by (cases "ff_submit (form_urls s)") (simp_all add: submit_event_def)
  next
    case (Some i)
    with assms have "in_flight (submits i) s = 0" by (simp add: flags_def)
    with us Some assms(1) show ?thesis
      by (auto simp: submit_event_def submit_start_def act_simps flags_def in_flight_def intro!: flagsI)
  qed
qed

lemma user_event_flags:
  assumes "flags s" "linked s" "h \<in> set (offered pl s)"
  shows "flags (user_event h v s)"
proof (cases h)
  case AhLogout
  with assms(1) show ?thesis by (simp add: act_simps flags_def in_flight_append)
next
  case AhCloseFlash
  with assms(1) show ?thesis by (simp add: act_simps flags_def in_flight_def)
next
  case (AhLogin l)
  with login_event_flags [OF assms(1,2), of l v] offered_login [of pl s] assms(3) show ?thesis by auto
next
  case (AhDash d)
  show ?thesis
  proof (cases "d = DhForm FfSubmit")
    case True
    with AhDash submit_event_flags [OF assms(1) offered_submit(2)] assms(3) show ?thesis by auto
  next
    case False
    have "flag_view (dash_event d v s) = flag_view s"
    proof (cases d)
      case DhCloseError
      then show ?thesis by (auto simp: flag_view_def act_simps split: option.split)
    next
      case (DhForm f)
      with False show ?thesis by (cases f) (simp_all add: flag_view_def)
    qed
    with AhDash flags_view [of s] assms(1) show ?thesis by simp
  qed
qed

section \<open>The invariants of the application\<close>

lemma app_start_placed: "app_start pl s \<Longrightarrow> placed pl s \<and> flags s"
proof -
  have "hook_inv hook_init \<and> mounted hook_init = None"
    by (simp add: hook_inv_def hook_init_def createConsumer_def)
  then show "app_start pl s \<Longrightarrow> placed pl s \<and> flags s"
    by (auto simp: app_start_def app_init_def placed_def linked_def screen_of_def flags_def in_flight_def twice_def
        split: if_splits)
qed

lemma app_step_linked:
  assumes "linked s" "app_step pl answers feeds s t"
  shows "(\<exists>u. linked u \<and> t = commit pl u) \<or> (\<exists>n. t = s\<lparr>clock := n\<rparr>)"
  using assms(2)
proof (rule app_stepE)
  fix p assume "t = commit pl (s\<lparr>path := p\<rparr>)"
  with linked_more(4) [OF assms(1)] show ?thesis by blast
qed (use assms(1) user_event_linked answer_linked receive_linked fire_timer_linked in blast)+

lemma app_step_placed:
  assumes "routes_ok pl" "placed pl s" "app_step pl answers feeds s t"
  shows "placed pl t"
proof -
  have "placed pl (s\<lparr>clock := n\<rparr>)" for n
    using assms(2) screen_of_cong [of "s\<lparr>clock := n\<rparr>" s pl] by (simp add: placed_def linked_def)
  moreover have "linked s" using assms(2) by (simp add: placed_def)
  ultimately show ?thesis using app_step_linked [OF _ assms(3)] commit_placed [OF assms(1)] by blast
qed

lemma app_step_flags:
  assumes "linked s" "flags s" "app_step pl answers feeds s t"
  shows "flags t"
  using assms(3)
proof (rule app_stepE)
  fix h v assume "t = commit pl (user_event h v s)" "h \<in> set (offered pl s)"
  with assms show ?thesis by (auto intro: commit_flags user_event_linked user_event_flags)
next
  fix i a assume "t = commit pl (answer_call pl i a s)" "i < length (calls s)"
  with assms show ?thesis by (auto intro: commit_flags answer_linked settle_flags)
next
  fix data assume "t = commit pl (receive data s)"
  with assms show ?thesis by (auto intro: commit_flags receive_linked receive_flags)
next
  fix i assume "t = commit pl (fire_timer i s)" "i < length (timers s)"
  with assms show ?thesis by (auto intro: commit_flags fire_timer_linked fire_timer_flags)
next
  assume "t = s\<lparr>clock := Suc (clock s)\<rparr>"
  with assms(2) show ?thesis by (simp add: flags_def in_flight_def)
next
  fix p assume t: "t = commit pl (s\<lparr>path := p\<rparr>)"
  have "flags (s\<lparr>path := p\<rparr>)" using assms(2) by (simp add: flags_def in_flight_def)
  with t assms(1) show ?thesis by (auto intro: commit_flags linked_more)
qed

interpretation placed: inductive_invariant "app_start pl"
    "\<lambda>s t. routes_ok pl \<and> app_step pl answers feeds s t" "placed pl"
  using app_start_placed app_step_placed by unfold_locales blast+

interpretation flags: strengthened_invariant "app_start pl"
    "\<lambda>s t. routes_ok pl \<and> app_step pl answers feeds s t" "placed pl" flags
  using app_start_placed app_step_flags by unfold_locales (auto simp: placed_def)

end
