(* ===== verification/WorldRows.thy ===== *)
theory WorldRows
  imports WorldFlags DashFacts
begin

text \<open>
  A finished request does not stay in the table: every row whose status is \<open>done\<close> or \<open>failed\<close> has
  a clean-up timer that is due within three seconds, and when it fires the row is gone.
\<close>

section \<open>The contract of the submit call\<close>

text \<open>In full mode the server answers before the work is finished; in fallback mode the id of the
  request is a value that can be compared.\<close>

definition submit_contract :: "(call \<Rightarrow> outcome \<Rightarrow> bool) \<Rightarrow> bool" where
  "submit_contract answers \<longleftrightarrow>
     (\<forall>i us a res. answers (CSubmit i us) a \<longrightarrow> finish_request a = Inr res \<longrightarrow>
        (if prop_of res ''mode'' = Str (lit ''full'') then \<not> finished (prop_of res ''status'')
         else primitive (prop_of res ''feed_request_id'')))"

section \<open>The invariant\<close>

definition timed :: "'z page_scheme \<Rightarrow> nat \<Rightarrow> pending_request \<Rightarrow> bool" where
  "timed s i r \<longleftrightarrow>
     (\<exists>d v. (d, TCleanup i v) \<in> set (timers s) \<and> strict_eq (feed_request_id r) v \<and> d \<le> clock s + 3000)"

definition rows_timed :: "'z page_scheme \<Rightarrow> bool" where
  "rows_timed s \<longleftrightarrow>
     (\<forall>i. dash s = Some i \<longrightarrow> (\<forall>r \<in> set (pendingRequests s). finished (status r) \<longrightarrow> timed s i r))"

text \<open>A step that keeps the table and only adds timers.\<close>

definition grows :: "'z page_scheme \<Rightarrow> 'z page_scheme \<Rightarrow> bool" where
  "grows s t \<longleftrightarrow> dash t = dash s \<and> pendingRequests t = pendingRequests s \<and> clock t = clock s \<and>
     set (timers s) \<subseteq> set (timers t)"

lemma grows_refl: "grows s s"
  by (simp add: grows_def)

lemma grows_rows: "rows_timed s \<Longrightarrow> grows s t \<Longrightarrow> rows_timed t"
  unfolding rows_timed_def grows_def timed_def by (metis subsetD)

lemma grows_page [keeps_rules]:
  "keeps (grows s) (setLoading i b)" "keeps (grows s) (setError i m)" "keeps (grows s) (setFeedItems g)"
  "keeps (grows s) (setMode v)" "keeps (grows s) (setTimeout x n)"
  by (auto simp: keeps_def grows_def act_simps split: sum.split)

lemma grows_app [keeps_rules]:
  "keeps (grows s) (setAuthenticated b)" "keeps (grows s) (setUserEmail e)" "keeps (grows s) (setFlashMessage m)"
  "keeps (grows s) (navigate p)" "keeps (grows s) (send q k)" "keeps (grows s) (resolve_login en i outcome)"
  by (auto simp: keeps_def grows_def act_simps resolve_login_def split: option.split)

lemma grows_settle:
  assumes "\<And>i us. c \<noteq> CSubmit i us"
  shows "grows s (snd (settle en c answer s))"
proof -
  have "keeps (grows s) (settle en c answer)"
  proof (cases c)
    case (CSubmit i us)
    with assms [of i us] show ?thesis by simp
  qed (simp_all add: boot_items_def load_health_def await_login_def login_done_def login_items_def
      login_health_def logout_done_def load_items_def; intro keeps_rules)+
  from keepsD [OF this grows_refl] show ?thesis .
qed

lemma rows_timed_append:
  assumes "rows_timed s" "dash s = Some i"
    and "dash t = Some i" "pendingRequests t = pendingRequests s @ [r]" "clock t = clock s"
    and "set (timers s) \<subseteq> set (timers t)" "finished (status r) \<Longrightarrow> timed t i r"
  shows "rows_timed t"
  using assms unfolding rows_timed_def timed_def
  by (auto simp: subset_iff) blast

lemma submit_rows:
  assumes "rows_timed s" "submit_contract answers" "answers (CSubmit i us) a"
  shows "rows_timed (snd (submit_settle en i us (finish_request a) s))"
proof (cases "dash s = Some i")
  case False
  have "keeps (\<lambda>t. dash t \<noteq> Some i \<and> grows s t) (submit_settle en i us (finish_request a))"
    unfolding submit_settle_def submit_full_def submit_fallback_def add_request_def
    by (intro keeps_rules; auto simp: keeps_def grows_def act_simps split: sum.split)
  with False grows_refl [of s] grows_rows [OF assms(1)] show ?thesis by (simp add: keeps_def)
next
  case True
  show ?thesis
  proof (cases "finish_request a")
    case (Inl e)
    with grows_rows [OF assms(1)] show ?thesis
      by (simp add: submit_settle_error [OF True] grows_def)
  next
    case (Inr res)
    show ?thesis
    proof (cases "nullish res")
      case null: True
      then obtain e where "get_prop res ''mode'' = Inl e" using get_prop_Inl_iff [of res "''mode''"] by blast
      with Inr True grows_rows [OF assms(1)] show ?thesis
        by (simp add: submit_settle_def act_simps grows_def)
    next
      case nn: False
      show ?thesis
      proof (cases "prop_of res ''mode'' = Str (lit ''full'')")
        case full: True
        with assms(2,3) Inr have "\<not> finished (prop_of res ''status'')" by (auto simp: submit_contract_def)
        with Inr full True show ?thesis
          by (intro rows_timed_append [OF assms(1) True, where r = "\<lparr>feed_request_id = prop_of res ''feed_request_id'',
              job_id = prop_of res ''job_id'', urls = us, status = prop_of res ''status''\<rparr>"])
            (simp_all add: submit_settle_full)
      next
        case no: False
        then have m: "\<not> strict_eq (prop_of res ''mode'') (Str (lit ''full''))" by (simp add: strict_eq_primitive)
        have p: "primitive (prop_of res ''feed_request_id'')"
          using assms(2,3) Inr no by (auto simp: submit_contract_def)
        from True nn show ?thesis
        proof (cases rule: submit_fallback_cases [of s i res us])
          case (thrown e)
          with Inr m True grows_rows [OF assms(1)] show ?thesis
            by (simp add: submit_settle_def act_simps get_prop_of [OF nn] grows_def)
        next
          case (added v c)
          with Inr m True p show ?thesis
            by (intro rows_timed_append [OF assms(1) True, where r = "\<lparr>feed_request_id = prop_of res ''feed_request_id'',
                job_id = prop_of res ''job_id'', urls = us, status = Str (lit ''done'')\<rparr>"])
              (auto simp: submit_settle_def act_simps get_prop_of [OF nn] timed_def strict_eq_primitive)
        qed
      qed
    qed
  qed
qed

section \<open>Every step keeps it\<close>

lemma rows_timed_calls: "rows_timed (s\<lparr>calls := cs\<rparr>) = rows_timed s" "rows_timed (s\<lparr>path := p\<rparr>) = rows_timed s"
  by (simp_all add: rows_timed_def timed_def)

lemma answer_rows:
  assumes "rows_timed s" "submit_contract answers" "answers (snd (calls s ! i)) a"
  shows "rows_timed (answer_call pl i a s)"
proof (cases "\<exists>j us. snd (calls s ! i) = CSubmit j us")
  case True
  then obtain j us where c: "snd (calls s ! i) = CSubmit j us" by blast
  have "rows_timed (s\<lparr>calls := drop_nth i (calls s)\<rparr>)" using assms(1) by (simp add: rows_timed_calls)
  from submit_rows [OF this assms(2), of j us a] assms(3) c show ?thesis
    by (simp add: answer_call_def)
next
  case False
  then have "\<And>j us. snd (calls s ! i) \<noteq> CSubmit j us" by blast
  from grows_settle [OF this] grows_rows assms(1) show ?thesis
    unfolding answer_call_def by (metis rows_timed_calls(1))
qed

lemma broadcast_rows:
  assumes "rows_timed s" "dash s = Some i"
  shows "rows_timed (snd (handleBroadcastMessage i data s))"
proof (cases "nullish data")
  case True
  then obtain e c where "handleBroadcastMessage i data s = (Inl e, s\<lparr>crashed := c\<rparr>)"
    using broadcast_nullish by blast
  with assms(1) show ?thesis by (simp add: rows_timed_def timed_def)
next
  case False
  define t where "t = snd (handleBroadcastMessage i data s)"
  define new where "new = (if finished (prop_of data ''status'')
      then [(clock s + 3000, TCleanup i (prop_of data ''feed_request_id''))] else [])"
  have t: "pendingRequests t = map (mark data) (pendingRequests s)" "timers t = timers s @ new"
    using broadcast_table [OF False, of i s] assms(2)
    by (simp_all add: t_def new_def after_timer_def Let_def)
  have d: "dash t = Some i" "clock t = clock s"
    using page_frames(1) [of i s data] assms(2) by (simp_all add: page_frame_def t_def)
  have "timed t i (mark data r)" if r: "r \<in> set (pendingRequests s)" "finished (status (mark data r))" for r
  proof (cases "strict_eq (feed_request_id r) (prop_of data ''feed_request_id'')")
    case True
    with r(2) t(2) d show ?thesis by (auto simp: mark_def timed_def new_def)
  next
    case False
    with r assms have "timed s i r" by (simp add: mark_def rows_timed_def)
    with False t(2) d show ?thesis by (auto simp: mark_def timed_def)
  qed
  with t(1) d show ?thesis by (auto simp: rows_timed_def simp flip: t_def)
qed

lemma receive_rows: "linked s \<Longrightarrow> rows_timed s \<Longrightarrow> rows_timed (receive data s)"
  by (simp add: receive_eq broadcast_rows split: option.split)

lemma timed_drop:
  assumes "timed s k r" "\<And>v. snd (timers s ! i) = TCleanup k v \<Longrightarrow> \<not> strict_eq (feed_request_id r) v"
  shows "timed (s\<lparr>timers := drop_nth i (timers s)\<rparr>) k r"
proof -
  from assms(1) obtain d w where w: "(d, TCleanup k w) \<in> set (timers s)"
      "strict_eq (feed_request_id r) w" "d \<le> clock s + 3000"
    by (auto simp: timed_def)
  have "(d, TCleanup k w) \<noteq> timers s ! i" using assms(2) [of w] w(2) by (metis snd_conv)
  from drop_nth_other [OF w(1) this] w(2,3) show ?thesis by (auto simp: timed_def)
qed

lemma fire_timer_rows:
  assumes "rows_timed s"
  shows "rows_timed (fire_timer i s)"
proof (cases "snd (timers s ! i)")
  case TFlash
  then have "fire_timer i s = s\<lparr>timers := drop_nth i (timers s), flashMessage := []\<rparr>"
    by (simp add: fire_timer_def setFlashMessage_def modify_def)
  moreover have "timed (s\<lparr>timers := drop_nth i (timers s)\<rparr>) k r" if "timed s k r" for k r
    by (rule timed_drop [OF that]) (simp add: TFlash)
  ultimately show ?thesis using assms by (simp add: rows_timed_def timed_def)
next
  case (TCleanup j v)
  then have f: "fire_timer i s = (if dash s = Some j
      then s\<lparr>timers := drop_nth i (timers s), pendingRequests := remove_request v (pendingRequests s)\<rparr>
      else s\<lparr>timers := drop_nth i (timers s)\<rparr>)"
    by (simp add: fire_timer_def run_cleanup_timer_def setPendingRequests_def when_mounted_def modify_def)
  have "timed (s\<lparr>timers := drop_nth i (timers s)\<rparr>) k r"
    if "timed s k r" "j = k \<Longrightarrow> \<not> strict_eq (feed_request_id r) v" for k r
    by (rule timed_drop [OF that(1)]) (use that(2) TCleanup in auto)
  then show ?thesis
    using assms by (auto simp: f rows_timed_def timed_def remove_request_def)
qed

lemma user_event_rows: "rows_timed s \<Longrightarrow> rows_timed (user_event h v s)"
proof -
  have "grows s (user_event h v s)"
  proof (cases h)
    case (AhLogin l)
    then show ?thesis by (cases l) (auto simp: grows_def in_login_def lf_submit_def split: option.split)
  next
    case (AhDash d)
    show ?thesis
    proof (cases d)
      case DhCloseError
      with AhDash show ?thesis by (auto simp: grows_def act_simps split: option.split)
    next
      case (DhForm f)
      with AhDash show ?thesis
        by (cases f) (auto simp: grows_def submit_event_def submit_start_def act_simps split: option.split)
    qed
  qed (simp_all add: grows_def act_simps)
  then show "rows_timed s \<Longrightarrow> rows_timed (user_event h v s)" using grows_rows by blast
qed

lemma commit_local:
  "timers (commit pl s) = timers s" "clock (commit pl s) = clock s"
  "dash (commit pl s) = Some i \<Longrightarrow>
     (dash s = Some i \<and> pendingRequests (commit pl s) = pendingRequests s) \<or>
     (dash s = None \<and> pendingRequests (commit pl s) = [])"
  by (rule commit_shape [of pl s];
      auto simp: take_down_def leave_login_def leave_dash_def place_dash place_local split: if_splits option.splits)+

lemma commit_rows: "rows_timed s \<Longrightarrow> rows_timed (commit pl s)"
  using commit_local [of pl s] unfolding rows_timed_def timed_def by fastforce

lemma app_step_rows:
  assumes "submit_contract answers" "linked s" "rows_timed s" "app_step pl answers feeds s t"
  shows "rows_timed t"
  using assms(4)
proof (rule app_stepE)
  assume "t = s\<lparr>clock := Suc (clock s)\<rparr>"
  with assms(3) show ?thesis unfolding rows_timed_def timed_def by fastforce
next
  fix p assume "t = commit pl (s\<lparr>path := p\<rparr>)"
  with assms(3) commit_rows [of "s\<lparr>path := p\<rparr>"] show ?thesis by (simp add: rows_timed_calls)
next
  fix h v assume "t = commit pl (user_event h v s)"
  with commit_rows [OF user_event_rows [OF assms(3)]] show ?thesis by simp
next
  fix i a assume "t = commit pl (answer_call pl i a s)" "answers (snd (calls s ! i)) a"
  with commit_rows [OF answer_rows [OF assms(3,1)]] show ?thesis by simp
next
  fix data assume "t = commit pl (receive data s)"
  with commit_rows [OF receive_rows [OF assms(2,3)]] show ?thesis by simp
next
  fix i assume "t = commit pl (fire_timer i s)"
  with commit_rows [OF fire_timer_rows [OF assms(3)]] show ?thesis by simp
qed

interpretation rows: strengthened_invariant "app_start pl"
    "\<lambda>s t. (routes_ok pl \<and> submit_contract answers) \<and> app_step pl answers feeds s t" "placed pl" rows_timed
proof unfold_locales
  show "app_start pl s \<Longrightarrow> placed pl s" for s by (simp add: app_start_placed)
  show "app_start pl s \<Longrightarrow> rows_timed s" for s
    by (auto simp: app_start_def app_init_def rows_timed_def)
  show "placed pl s \<Longrightarrow> (routes_ok pl \<and> submit_contract answers) \<and> app_step pl answers feeds s t \<Longrightarrow> placed pl t"
    for s t using app_step_placed by blast
  fix s t
  assume "placed pl s" "rows_timed s" "(routes_ok pl \<and> submit_contract answers) \<and> app_step pl answers feeds s t"
  then show "rows_timed t" using app_step_rows [of answers s pl feeds t] by (simp add: placed_def)
qed

section \<open>The timer fires\<close>

lemma ticks: "(app_step pl answers feeds)\<^sup>*\<^sup>* s (s\<lparr>clock := clock s + n\<rparr>)"
proof (induction n)
  case (Suc n)
  have "app_step pl answers feeds (s\<lparr>clock := clock s + n\<rparr>) (s\<lparr>clock := clock s + Suc n\<rparr>)"
    using as_tick [of pl answers feeds "s\<lparr>clock := clock s + n\<rparr>"] by simp
  with Suc show ?case by (rule rtranclp.rtrancl_into_rtrancl)
qed simp

lemma fire_removes:
  assumes "dash s = Some k" "snd (timers s ! i) = TCleanup k v"
  shows "fire_timer i s = s\<lparr>timers := drop_nth i (timers s), pendingRequests := remove_request v (pendingRequests s)\<rparr>"
  using assms by (simp add: fire_timer_def run_cleanup_timer_def setPendingRequests_def when_mounted_def modify_def)

text \<open>Waiting for a clean-up and letting it fire, up to the commit of its render.\<close>

lemma finished_row_leaves:
  assumes "rows_timed s" "dash s = Some k" "r \<in> set (pendingRequests s)" "finished (status r)"
  obtains n ts u where "u = s\<lparr>clock := n, timers := ts,
      pendingRequests := filter (\<lambda>r'. feed_request_id r' \<noteq> feed_request_id r) (pendingRequests s)\<rparr>"
    "n \<le> clock s + 3000" "(app_step pl answers feeds)\<^sup>*\<^sup>* s (commit pl u)"
proof -
  from assms obtain d v where v: "(d, TCleanup k v) \<in> set (timers s)" "strict_eq (feed_request_id r) v"
      "d \<le> clock s + 3000"
    by (auto simp: rows_timed_def timed_def)
  then obtain i where i: "i < length (timers s)" "timers s ! i = (d, TCleanup k v)"
    by (auto simp: in_set_conv_nth)
  define w where "w = s\<lparr>clock := clock s + (d - clock s)\<rparr>"
  have "app_step pl answers feeds w (commit pl (fire_timer i w))"
    using i by (intro as_timer) (simp_all add: w_def)
  with ticks [of pl answers feeds s "d - clock s"]
  have "(app_step pl answers feeds)\<^sup>*\<^sup>* s (commit pl (fire_timer i w))"
    unfolding w_def by (rule rtranclp.rtrancl_into_rtrancl)
  moreover have "remove_request v rs = filter (\<lambda>r'. feed_request_id r' \<noteq> feed_request_id r) rs" for rs
    using v(2) by (auto simp: remove_request_def strict_eq_primitive intro!: filter_cong)
  ultimately show ?thesis
    using v(3) i(2) assms(2)
    by (intro that [where u = "fire_timer i w" and n = "clock w" and ts = "drop_nth i (timers s)"]) (simp_all add: fire_removes w_def)
qed

end
