(* ===== verification/PageData.thy ===== *)
theory PageData
  imports WorldFlags DashFacts
begin

text \<open>
  The data the page holds, as a contract: when every story it is given has a property and every row it
  adds another, the stories and rows it holds have them, whatever the handlers do, and no update
  or render throws. The two properties are the parameters of a locale.
\<close>

section \<open>Stories and rows\<close>

definition all_of :: "(jsval \<Rightarrow> bool) \<Rightarrow> jsval \<Rightarrow> bool" where
  "all_of S v \<longleftrightarrow> (\<exists>xs. v = Arr xs \<and> list_all S xs)"

text \<open>An \<open>items\<close> member: missing, empty or an array of such stories.\<close>

definition items_fit :: "(jsval \<Rightarrow> bool) \<Rightarrow> jsval \<Rightarrow> bool" where
  "items_fit S data \<longleftrightarrow> \<not> truthy (prop_of data ''items'') \<or> all_of S (prop_of data ''items'')"

text \<open>The row that the answer of a submit adds.\<close>

definition answer_row :: "jsstr list \<Rightarrow> jsval \<Rightarrow> pending_request" where
  "answer_row us res =
     \<lparr>feed_request_id = prop_of res ''feed_request_id'', job_id = prop_of res ''job_id'', urls = us,
      status = (if prop_of res ''mode'' = Str (lit ''full'') then prop_of res ''status'' else Str (lit ''done''))\<rparr>"

definition fits :: "(jsval \<Rightarrow> bool) \<Rightarrow> (pending_request \<Rightarrow> bool) \<Rightarrow> call \<Rightarrow> jsval \<Rightarrow> bool" where
  "fits S R k v \<longleftrightarrow> items_fit S v \<and> (case k of CSubmit i us \<Rightarrow> R (answer_row us v) | _ \<Rightarrow> True)"

text \<open>Broadcast data: its stories, and the rows it marks.\<close>

definition cast_fits :: "(jsval \<Rightarrow> bool) \<Rightarrow> (pending_request \<Rightarrow> bool) \<Rightarrow> jsval \<Rightarrow> bool" where
  "cast_fits S R data \<longleftrightarrow> \<not> nullish data \<and> items_fit S data \<and> (\<forall>r. R r \<longrightarrow> R (mark data r))"

definition page_sound :: "(jsval \<Rightarrow> bool) \<Rightarrow> (pending_request \<Rightarrow> bool) \<Rightarrow> 'z page_scheme \<Rightarrow> bool" where
  "page_sound S R s \<longleftrightarrow> crashed s = None \<and> all_of S (feedItems s) \<and> (\<forall>r \<in> set (pendingRequests s). R r)"

lemma page_sound_mono:
  "page_sound S R s \<Longrightarrow> (\<And>x. S x \<Longrightarrow> S' x) \<Longrightarrow> (\<And>r. R r \<Longrightarrow> R' r) \<Longrightarrow> page_sound S' R' s"
  by (auto simp: page_sound_def all_of_def list_all_iff)

lemma Navigation_total: "\<exists>n. Navigation email m = Inr n"
proof -
  have c: "\<exists>ns. (child_of m :: app_handler node list result) = Inr ns" if "\<not> truthy m"
    using that by (cases m) auto
  show ?thesis
  proof (cases "truthy m")
    case False
    then obtain ns where "(child_of m :: app_handler node list result) = Inr ns" using c by blast
    with False show ?thesis by (simp add: Navigation_def)
  qed (simp add: Navigation_def)
qed

section \<open>The contract\<close>

locale page_data =
  fixes S :: "jsval \<Rightarrow> bool" and R :: "pending_request \<Rightarrow> bool"
  assumes S_story: "S x \<Longrightarrow> story x"
    and R_row: "R r \<Longrightarrow> row_ok r"
begin

abbreviation sound :: "'z page_scheme \<Rightarrow> bool" where
  "sound \<equiv> page_sound S R"

lemma sound_primitives [keeps_rules]:
  "keeps sound (setLoading i b)" "keeps sound (setError i m)" "keeps sound (setMode v)"
  "keeps sound (setTimeout x n)" "keeps sound (setAuthenticated c)" "keeps sound (setUserEmail e)"
  "keeps sound (setFlashMessage m)" "keeps sound (navigate p)" "keeps sound (send q k)"
  "keeps sound (resolve_login en i outcome)"
  by (auto simp: keeps_def page_sound_def act_simps resolve_login_def split: option.split)

lemma sound_items: "(\<And>v. all_of S v \<Longrightarrow> \<exists>w. g v = Inr w \<and> all_of S w) \<Longrightarrow> keeps sound (setFeedItems g)"
  unfolding keeps_def page_sound_def setFeedItems_def modify_def
  by (auto split: sum.split) (metis Inr_inject Inl_Inr_False)+

lemma sound_rows:
  assumes "\<And>rs. \<forall>r \<in> set rs. R r \<Longrightarrow> \<exists>qs. g rs = Inr qs \<and> (\<forall>r \<in> set qs. R r)"
  shows "keeps sound (setPendingRequests i g)"
  unfolding keeps_def setPendingRequests_def when_mounted_def modify_def
proof (intro allI impI)
  fix s :: "'z page_scheme" assume s: "sound s"
  then obtain qs where "g (pendingRequests s) = Inr qs" "\<forall>r \<in> set qs. R r"
    using assms [of "pendingRequests s"] by (auto simp: page_sound_def)
  with s show "sound (snd (Inr (), if dash s = Some i then case g (pendingRequests s) of
      Inl e \<Rightarrow> s\<lparr>crashed := Some e\<rparr> | Inr rs \<Rightarrow> s\<lparr>pendingRequests := rs\<rparr> else s))"
    by (simp add: page_sound_def)
qed

lemma S_linkable: "list_all S xs \<Longrightarrow> list_all linkable xs"
  by (auto simp: list_all_iff intro: story_linkable S_story)

lemma merge_all:
  assumes "all_of S items" "all_of S prev"
  shows "\<exists>w. merge_items items prev = Inr w \<and> all_of S w"
proof -
  obtain news olds where e: "items = Arr news" "prev = Arr olds" "list_all S news" "list_all S olds"
    using assms by (auto simp: all_of_def)
  then show ?thesis
    using merge_items_eq [OF S_linkable S_linkable, of news olds]
    by (auto simp: all_of_def list_all_iff)
qed

lemma sound_set_items:
  "items_fit S data \<Longrightarrow> keeps sound (setFeedItems (\<lambda>_. Inr (js_or (prop_of data ''items'') (Arr []))))"
  by (rule sound_items) (auto simp: items_fit_def js_or_def all_of_def)

lemma sound_merge:
  assumes "items_fit S data"
  shows "keeps sound (bind_a (lift_r (get_prop data ''items'')) (\<lambda>items.
      bind_a (lift_r (has_elements items)) (\<lambda>some. when_a some (setFeedItems (merge_items items)))))"
proof (intro keeps_bind_value keeps_when)
  fix items some
  assume i: "get_prop data ''items'' = Inr items" and h: "has_elements items = Inr some" and some
  then have "truthy items" by (auto simp: has_elements_def split: if_splits)
  moreover from i have "prop_of data ''items'' = items" by (simp add: prop_of_def)
  ultimately have "all_of S items" using assms by (simp add: items_fit_def)
  then show "keeps sound (setFeedItems (merge_items items))" by (intro sound_items merge_all)
qed

lemma broadcast_sound:
  assumes "cast_fits S R data"
  shows "keeps sound (handleBroadcastMessage i data)"
proof -
  have "keeps sound (setPendingRequests i (update_status data))"
    using assms by (intro sound_rows) (auto simp: update_status_eq cast_fits_def)
  moreover have "items_fit S data" using assms by (simp add: cast_fits_def)
  ultimately show ?thesis
    unfolding handleBroadcastMessage_def by (intro keeps_rules sound_merge)
qed

lemma add_request_sound: "R r \<Longrightarrow> keeps sound (add_request i r)"
  unfolding add_request_def by (intro sound_rows) auto

lemma submit_sound:
  assumes "\<And>v. answer = Inr v \<Longrightarrow> fits S R (CSubmit i us) v"
  shows "keeps sound (submit_settle en i us answer)"
proof -
  have full: "keeps sound (submit_full i us res)"
    if "answer = Inr res" "get_prop res ''mode'' = Inr m" "strict_eq m (Str (lit ''full''))" for res m
    unfolding submit_full_def
  proof (intro keeps_bind_value add_request_sound)
    fix a b c assume "get_prop res ''feed_request_id'' = Inr a" "get_prop res ''job_id'' = Inr b" "get_prop res ''status'' = Inr c"
    with assms [OF that(1)] that(2,3) show "R \<lparr>feed_request_id = a, job_id = b, urls = us, status = c\<rparr>"
      by (simp add: fits_def answer_row_def prop_of_def strict_eq_primitive)
  qed
  have fallback: "keeps sound (submit_fallback i us res)"
    if "answer = Inr res" "get_prop res ''mode'' = Inr m" "\<not> strict_eq m (Str (lit ''full''))" for res m
    unfolding submit_fallback_def
  proof (rule keeps_seq, rule sound_merge)
    show "items_fit S res" using assms [OF that(1)] by (simp add: fits_def)
  next
    show "keeps sound (bind_a (lift_r (get_prop res ''feed_request_id'')) (\<lambda>reqId.
        bind_a (lift_r (get_prop res ''job_id'')) (\<lambda>j.
        seq_a (add_request i \<lparr>feed_request_id = reqId, job_id = j, urls = us, status = Str (lit ''done'')\<rparr>)
          (setTimeout (TCleanup i reqId) 3000))))"
    proof (intro keeps_bind_value keeps_seq add_request_sound sound_primitives)
      fix a b assume "get_prop res ''feed_request_id'' = Inr a" "get_prop res ''job_id'' = Inr b"
      with assms [OF that(1)] that(2,3)
      show "R \<lparr>feed_request_id = a, job_id = b, urls = us, status = Str (lit ''done'')\<rparr>"
        by (simp add: fits_def answer_row_def prop_of_def strict_eq_primitive)
    qed
  qed
  show ?thesis
    unfolding submit_settle_def
  proof (intro keeps_finally keeps_catch keeps_bind_value sound_primitives)
    fix res m assume "answer = Inr res" "get_prop res ''mode'' = Inr m"
    with full fallback show "keeps sound
        (if strict_eq m (Str (lit ''full'')) then submit_full i us res else submit_fallback i us res)"
      by (intro keeps_if) blast+
  qed
qed

lemma items_sound:
  assumes "\<And>v. answer = Inr v \<Longrightarrow> items_fit S v"
    and "\<And>m. keeps sound m \<Longrightarrow> keeps sound (f m)"
  shows "keeps sound (bind_a (lift_r answer) (\<lambda>data. bind_a (lift_r (get_prop data ''items'')) (\<lambda>items.
      f (setFeedItems (\<lambda>_. Inr (js_or items (Arr [])))))))"
proof (intro keeps_bind_value assms(2))
  fix data items assume "answer = Inr data" "get_prop data ''items'' = Inr items"
  with sound_set_items [OF assms(1)] show "keeps sound (setFeedItems (\<lambda>_. Inr (js_or items (Arr []))))"
    by (simp add: prop_of_def)
qed

lemma settle_sound:
  assumes "\<And>v. answer = Inr v \<Longrightarrow> fits S R c v"
  shows "keeps sound (settle en c answer)"
proof (cases c)
  case CBootItems
  have "keeps sound (boot_items answer)"
    unfolding boot_items_def
    using assms
    by (intro keeps_catch items_sound [where f = "\<lambda>m. seq_a m (seq_a (setAuthenticated True)
        (seq_a (setUserEmail (lit ''user@example.com'')) (send api_getHealth CBootHealth)))"]
        keeps_seq sound_primitives) (auto simp: fits_def)
  with CBootItems show ?thesis by simp
next
  case (CLoginItems i)
  have "keeps sound (login_items i answer)"
    unfolding login_items_def
    using assms
    by (intro items_sound [where f = "\<lambda>m. seq_a m (send api_getHealth (CLoginHealth i))"]
        keeps_seq sound_primitives) (auto simp: fits_def)
  then have "keeps sound (await_login en i False (login_items i answer))"
    unfolding await_login_def by (intro keeps_catch keeps_seq keeps_when sound_primitives)
  with CLoginItems show ?thesis by simp
next
  case (CDashItems i)
  have "keeps sound (load_items i answer :: unit app_act)"
    unfolding load_items_def
    using assms by (intro keeps_catch items_sound [where f = "\<lambda>m. m"] sound_primitives) (auto simp: fits_def)
  with CDashItems show ?thesis by simp
next
  case CLogout
  have "keeps sound (setFeedItems (\<lambda>_. Inr (Arr [])) :: unit app_act)"
    by (rule sound_items) (simp add: all_of_def)
  then have "keeps sound (logout_done answer)"
    unfolding logout_done_def by (intro keeps_rules)
  with CLogout show ?thesis by simp
next
  case (CSubmit i us)
  from assms have "keeps sound (submit_settle en i us answer)" unfolding CSubmit by (rule submit_sound)
  with CSubmit show ?thesis by simp
qed (simp_all add: load_health_def await_login_def login_done_def login_health_def; intro keeps_rules)+

section \<open>Every step keeps it\<close>

lemma sound_more:
  "sound (s\<lparr>calls := cs\<rparr>) = sound s" "sound (s\<lparr>path := p\<rparr>) = sound s" "sound (s\<lparr>timers := ts\<rparr>) = sound s"
  "sound (s\<lparr>clock := n\<rparr>) = sound s"
  by (simp_all add: page_sound_def)

lemma sound_renders:
  assumes "sound s"
  shows "\<exists>ns. MainApp pl s = Inr ns"
proof -
  obtain n where n: "Navigation (userEmail s) (mode s) = Inr n" using Navigation_total by blast
  from assms obtain xs where xs: "feedItems s = Arr xs" "list_all S xs"
    by (auto simp: page_sound_def all_of_def)
  obtain l where "(FeedList (p_engine pl) (Arr xs) (pendingRequests s) :: dash_handler node result) = Inr l"
    using FeedList_renders [of xs "pendingRequests s" "p_engine pl"] assms xs(2)
    by (auto simp: page_sound_def list_all_iff intro: S_story R_row)
  then have "\<exists>out. outlet pl s = Inr out"
    by (auto simp: outlet_def Dashboard_def xs(1) split: screen.split)
  with n show ?thesis by (auto simp: MainApp_def)
qed

lemma sound_place: "sound s \<Longrightarrow> sound (place pl s)"
  by (auto simp: page_sound_def place_defs split: screen.split)

lemma sound_mount: "sound s \<Longrightarrow> sound (mount_effects pl b s)"
  by (auto simp: page_sound_def)

lemma commit_sound:
  assumes "sound s"
  shows "sound (commit pl s)"
proof -
  obtain p where p: "redirects pl 2 s = s\<lparr>path := p\<rparr>" using redirects_path by blast
  have g: "sound (place pl (s\<lparr>path := p\<rparr>))" using assms by (intro sound_place) (simp add: sound_more)
  with sound_renders [OF g, of pl] p show ?thesis by (auto simp: commit_def sound_mount)
qed

lemma user_event_sound: "sound s \<Longrightarrow> sound (user_event h v s)"
proof (cases h)
  case (AhLogin l)
  assume "sound s"
  with AhLogin show ?thesis
    by (cases l) (auto simp: page_sound_def in_login_def lf_submit_def split: option.split)
next
  case (AhDash d)
  assume "sound s"
  show ?thesis
  proof (cases d)
    case DhCloseError
    with AhDash \<open>sound s\<close> show ?thesis by (auto simp: page_sound_def act_simps split: option.split)
  next
    case (DhForm f)
    with AhDash \<open>sound s\<close> show ?thesis
      by (cases f) (auto simp: page_sound_def submit_event_def submit_start_def act_simps split: option.split)
  qed
qed (simp_all add: page_sound_def act_simps)

lemma answer_sound:
  assumes "sound s" "\<And>v. finish_request a = Inr v \<Longrightarrow> fits S R (snd (calls s ! i)) v"
  shows "sound (answer_call pl i a s)"
proof -
  have "keeps sound (settle (p_engine pl) (snd (calls s ! i)) (finish_request a))"
    using assms(2) by (rule settle_sound)
  with assms(1) show ?thesis by (simp add: answer_call_def keeps_def sound_more)
qed

lemma receive_sound:
  assumes "linked s" "sound s" "cast_fits S R data"
  shows "sound (receive data s)"
proof (cases "dash s")
  case None
  with assms show ?thesis by (simp add: receive_eq)
next
  case (Some i)
  have "keeps sound (handleBroadcastMessage i data :: unit app_act)"
    using assms(3) by (rule broadcast_sound)
  with assms(1,2) Some show ?thesis by (simp add: receive_eq keeps_def)
qed

lemma fire_timer_sound:
  assumes "sound s"
  shows "sound (fire_timer i s)"
proof (cases "snd (timers s ! i)")
  case (TCleanup j v)
  have "keeps sound (run_cleanup_timer j v :: unit app_act)"
    unfolding run_cleanup_timer_def by (intro sound_rows) (auto simp: remove_request_def)
  with TCleanup assms show ?thesis by (simp add: fire_timer_def keeps_def sound_more)
next
  case TFlash
  with assms show ?thesis by (simp add: fire_timer_def act_simps page_sound_def)
qed

text \<open>A step keeps it when the answers and the broadcasts of the environment fit.\<close>

lemma app_step_sound:
  assumes "\<And>k a v. answers k a \<Longrightarrow> finish_request a = Inr v \<Longrightarrow> fits S R k v"
    and "\<And>data. feeds data \<Longrightarrow> cast_fits S R data"
    and "linked s" "sound s" "app_step pl answers feeds s t"
  shows "sound t"
  using assms(5)
proof (rule app_stepE)
  fix h v assume "t = commit pl (user_event h v s)"
  with commit_sound [OF user_event_sound [OF assms(4)]] show ?thesis by simp
next
  fix i a assume a: "t = commit pl (answer_call pl i a s)" "answers (snd (calls s ! i)) a"
  have "sound (answer_call pl i a s)" by (rule answer_sound [OF assms(4)]) (rule assms(1) [OF a(2)])
  with a commit_sound show ?thesis by simp
next
  fix data assume "t = commit pl (receive data s)" "feeds data"
  with commit_sound [OF receive_sound [OF assms(3,4,2)]] show ?thesis by simp
next
  fix i assume "t = commit pl (fire_timer i s)"
  with commit_sound [OF fire_timer_sound [OF assms(4)]] show ?thesis by simp
next
  assume "t = s\<lparr>clock := Suc (clock s)\<rparr>"
  with assms(4) show ?thesis by (simp add: sound_more)
next
  fix p assume "t = commit pl (s\<lparr>path := p\<rparr>)"
  with assms(4) commit_sound [of "s\<lparr>path := p\<rparr>"] show ?thesis by (simp add: sound_more)
qed

end

end
