(* ===== verification/WorldSafe.thy ===== *)
theory WorldSafe
  imports PageData
begin

text \<open>
  The application does not crash on the data of the contract: when stories, statuses and modes
  have the types the server's interface gives them, no update and no render throws.
\<close>

section \<open>The contract of the data\<close>

definition stories :: "jsval \<Rightarrow> bool" where
  "stories v \<longleftrightarrow> (\<exists>xs. v = Arr xs \<and> list_all story xs)"

text \<open>An \<open>items\<close> member: missing, empty or an array of stories.\<close>

definition items_ok :: "jsval \<Rightarrow> bool" where
  "items_ok data \<longleftrightarrow> \<not> truthy (prop_of data ''items'') \<or> stories (prop_of data ''items'')"

definition status_ok :: "jsval \<Rightarrow> bool" where
  "status_ok data \<longleftrightarrow> prop_of data ''status'' = Undefined \<or> text_or_null (prop_of data ''status'')"

text \<open>What the server may answer, when an answer fulfils at all, and broadcast.\<close>

definition answer_contract :: "(call \<Rightarrow> outcome \<Rightarrow> bool) \<Rightarrow> bool" where
  "answer_contract answers \<longleftrightarrow>
     (\<forall>k a v. answers k a \<longrightarrow> finish_request a = Inr v \<longrightarrow> items_ok v \<and> status_ok v)"

definition feed_contract :: "(jsval \<Rightarrow> bool) \<Rightarrow> bool" where
  "feed_contract feeds \<longleftrightarrow> (\<forall>data. feeds data \<longrightarrow> \<not> nullish data \<and> items_ok data \<and> status_ok data)"

section \<open>The data stays good\<close>

definition good :: "'z page_scheme \<Rightarrow> bool" where
  "good s \<longleftrightarrow> crashed s = None \<and> stories (feedItems s) \<and> (\<forall>r \<in> set (pendingRequests s). row_ok r)"

interpretation typed: page_data story row_ok
  by unfold_locales simp_all

lemma good_sound: "good s \<longleftrightarrow> page_sound story row_ok s"
  by (simp add: good_def page_sound_def stories_def all_of_def)

lemma items_ok_fit: "items_ok v \<longleftrightarrow> items_fit story v"
  by (simp add: items_ok_def items_fit_def stories_def all_of_def)

lemma typed_fits: "items_ok v \<Longrightarrow> status_ok v \<Longrightarrow> fits story row_ok k v"
  by (auto simp: fits_def items_ok_fit answer_row_def row_ok_def status_ok_def text_or_null_def split: call.split)

lemma contract_fits: "answer_contract answers \<Longrightarrow> answers k a \<Longrightarrow> finish_request a = Inr v \<Longrightarrow> fits story row_ok k v"
  by (auto simp: answer_contract_def intro: typed_fits)

lemma feed_fits: "feed_contract feeds \<Longrightarrow> feeds data \<Longrightarrow> cast_fits story row_ok data"
  by (auto simp: feed_contract_def cast_fits_def items_ok_fit mark_def row_ok_def status_ok_def)

lemmas good_renders = typed.sound_renders [folded good_sound]
lemmas commit_good = typed.commit_sound [folded good_sound]

lemma answer_good:
  "good s \<Longrightarrow> answer_contract answers \<Longrightarrow> answers (snd (calls s ! i)) a \<Longrightarrow> good (answer_call pl i a s)"
  unfolding good_sound by (rule typed.answer_sound) (auto intro: contract_fits)

lemma app_step_good:
  "answer_contract answers \<Longrightarrow> feed_contract feeds \<Longrightarrow> linked s \<Longrightarrow> good s \<Longrightarrow> app_step pl answers feeds s t \<Longrightarrow> good t"
  unfolding good_sound by (rule typed.app_step_sound) (auto intro: contract_fits feed_fits)

interpretation safe: strengthened_invariant "app_start pl"
    "\<lambda>s t. (routes_ok pl \<and> answer_contract answers \<and> feed_contract feeds) \<and> app_step pl answers feeds s t"
    "placed pl" good
proof unfold_locales
  show "app_start pl s \<Longrightarrow> placed pl s" for s by (simp add: app_start_placed)
  show "app_start pl s \<Longrightarrow> good s" for s
    by (auto simp: app_start_def app_init_def good_def stories_def)
  show "placed pl s \<Longrightarrow> (routes_ok pl \<and> answer_contract answers \<and> feed_contract feeds) \<and>
      app_step pl answers feeds s t \<Longrightarrow> placed pl t" for s t
    using app_step_placed by blast
  fix s t
  assume "placed pl s" "good s"
    "(routes_ok pl \<and> answer_contract answers \<and> feed_contract feeds) \<and> app_step pl answers feeds s t"
  then show "good t" using app_step_good [of answers feeds s pl t] by (simp add: placed_def)
qed

end
