(* ===== verification/AppFacts.thy ===== *)
theory AppFacts
  imports WorldRows WorldSafe Examples
begin

text \<open>
  What the properties of the application share: the fields a commit keeps, the session as an
  abstract state machine, and a concrete reachable dashboard.
\<close>

section \<open>Commits keep the session\<close>

lemma commit_keeps:
  "authenticated (commit pl s) = authenticated s" "userEmail (commit pl s) = userEmail s"
  "flashMessage (commit pl s) = flashMessage s" "feedItems (commit pl s) = feedItems s"
  "mode (commit pl s) = mode s"
  by (rule commit_shape [of pl s]; auto simp: take_down_def leave_login_def leave_dash_def)+

lemma commit_calls: "set (calls s) \<subseteq> set (calls (commit pl s))"
  by (rule commit_shape [of pl s])
    (auto simp: take_down_def leave_login_def leave_dash_def mount_effects_def dash_effects_def split: option.splits)

lemma commit_dash_kept:
  "dash (commit pl s) = Some i \<Longrightarrow> dash s = Some i \<Longrightarrow>
   loading (commit pl s) = loading s \<and> error (commit pl s) = error s \<and> form_urls (commit pl s) = form_urls s"
  by (rule commit_shape [of pl s])
    (auto simp: take_down_def leave_login_def leave_dash_def place_dash place_local split: if_splits)

lemma commit_dash_new:
  "dash (commit pl s) = Some i \<Longrightarrow> dash s = None \<Longrightarrow>
   loading (commit pl s) = False \<and> error (commit pl s) = [] \<and> pendingRequests (commit pl s) = [] \<and>
   form_urls (commit pl s) = ff_init"
  by (rule commit_shape [of pl s])
    (auto simp: take_down_def leave_login_def leave_dash_def place_dash place_local split: if_splits)

lemma screen_login:
  "placed pl s \<Longrightarrow> crashed s = None \<Longrightarrow> authenticated s = Some False \<Longrightarrow> screen_of pl s = SLogin"
  by (auto simp: placed_def screen_of_def routed_def split: route.splits)

lemma screen_dash:
  "placed pl s \<Longrightarrow> crashed s = None \<Longrightarrow> authenticated s = Some True \<Longrightarrow> screen_of pl s = SDash"
  by (auto simp: placed_def screen_of_def routed_def split: route.splits)

lemma placed_dash:
  assumes "placed pl s" "dash s = Some i"
  shows "screen_of pl s = SDash" "login_view s = None"
proof -
  show d: "screen_of pl s = SDash" using assms by (simp add: placed_def)
  have "login_view s \<noteq> None \<longleftrightarrow> screen_of pl s = SLogin" using assms(1) unfolding placed_def by blast
  with d show "login_view s = None" by (cases "login_view s") simp_all
qed

text \<open>A state whose screen is the mounted dashboard, and that renders, is left as it is.\<close>

lemma commit_stays:
  assumes "good s" "screen_of pl s = SDash" "dash s = Some i" "login_view s = None"
  shows "commit pl s = s"
proof -
  have r: "redirects pl 2 s = s" using assms(2) by (simp add: numeral_2_eq_2)
  have "place pl s = s" using assms by (simp add: place_defs)
  with r good_renders [OF assms(1), of pl] assms(3) show ?thesis
    by (auto simp: commit_def mount_effects_def)
qed

section \<open>The session\<close>

text \<open>The abstract machine of the session: undecided until the bootstrap is answered, then signed
  in or out. It changes only when one of three calls is answered, and never back to undecided.\<close>

datatype session = Undecided | SignedOut | SignedIn

datatype cause = BootAnswered bool | LoginAnswered bool | LogoutAnswered | Other

fun session_next :: "cause \<Rightarrow> session \<Rightarrow> session" where
  "session_next (BootAnswered ok) x = (if ok then SignedIn else SignedOut)"
| "session_next (LoginAnswered ok) x = (if ok then SignedIn else x)"
| "session_next LogoutAnswered x = SignedOut"
| "session_next Other x = x"

definition session_of :: "main_app \<Rightarrow> session" where
  "session_of s = (case authenticated s of None \<Rightarrow> Undecided | Some True \<Rightarrow> SignedIn | Some False \<Rightarrow> SignedOut)"

text \<open>The cause an answer is for the session.\<close>

fun cause_of :: "call \<Rightarrow> jsval result \<Rightarrow> cause" where
  "cause_of CBootItems answer = BootAnswered (\<exists>data. answer = Inr data \<and> \<not> nullish data)"
| "cause_of (CLogin i email) answer = LoginAnswered (\<exists>data. answer = Inr data)"
| "cause_of CLogout answer = LogoutAnswered"
| "cause_of c answer = Other"

lemma session_of_view: "authenticated t = authenticated s \<Longrightarrow> session_of t = session_of s"
  by (simp add: session_of_def)

lemma session_page: "page_frame i s t \<Longrightarrow> session_of t = session_of (s :: main_app)"
  by (rule session_of_view, rule page_more_eq(1)) (simp add: page_frame_def)

lemma resolve_login_session: "session_of (snd (resolve_login en i outcome s)) = session_of s"
  by (rule session_of_view) (simp add: resolve_login_def modify_def split: option.split)

lemma keeps_session: "keeps (\<lambda>t. session_of t = x) m \<Longrightarrow> session_of s = x \<Longrightarrow> session_of (snd (m s)) = x"
  by (simp add: keeps_def)

lemma session_primitives [keeps_rules]:
  "keeps (\<lambda>t. session_of t = x) (setUserEmail e)" "keeps (\<lambda>t. session_of t = x) (setFlashMessage m)"
  "keeps (\<lambda>t. session_of t = x) (navigate p)" "keeps (\<lambda>t. session_of t = x) (send q k)"
  "keeps (\<lambda>t. session_of t = x) (setFeedItems g)" "keeps (\<lambda>t. session_of t = x) (setMode v)"
  "keeps (\<lambda>t. session_of t = x) (setTimeout tm n)" "keeps (\<lambda>t. session_of t = x) (resolve_login en i outcome)"
  by (auto simp: keeps_def session_of_def act_simps resolve_login_def split: sum.split option.split)

lemma settle_session: "session_of (snd (settle en c answer s)) = session_next (cause_of c answer) (session_of s)"
proof (cases c)
  case CBootItems
  show ?thesis
  proof (cases answer)
    case (Inl e)
    with CBootItems show ?thesis by (simp add: boot_items_def act_simps session_of_def)
  next
    case (Inr data)
    show ?thesis
    proof (cases "nullish data")
      case True
      then obtain e where "get_prop data ''items'' = Inl e" using get_prop_Inl_iff by blast
      with CBootItems Inr True show ?thesis by (simp add: boot_items_def act_simps session_of_def)
    next
      case False
      with CBootItems Inr show ?thesis
        by (simp add: boot_items_def act_simps session_of_def get_prop_of)
    qed
  qed
next
  case CLogout
  then show ?thesis by (cases answer) (simp_all add: logout_done_def act_simps session_of_def)
next
  case (CLogin i email)
  show ?thesis
  proof (cases answer)
    case (Inl e)
    have "snd (await_login en i False (login_done i email answer) s) = snd (resolve_login en i (Inl e) s)"
      by (simp add: Inl await_login_def login_done_def act_simps)
    with CLogin Inl resolve_login_session show ?thesis by simp
  next
    case (Inr v)
    with CLogin show ?thesis
      by (simp add: await_login_def login_done_def act_simps session_of_def)
  qed
next
  case (CLoginItems i)
  have "keeps (\<lambda>t. session_of t = session_of s) (await_login en i False (login_items i answer))"
    unfolding await_login_def login_items_def by (intro keeps_rules)
  with CLoginItems show ?thesis by (simp add: keeps_def)
next
  case (CLoginHealth i)
  have "keeps (\<lambda>t. session_of t = session_of s) (await_login en i True (login_health answer))"
    unfolding await_login_def login_health_def by (intro keeps_rules)
  with CLoginHealth show ?thesis by (simp add: keeps_def)
next
  case (CDashItems i)
  with session_page [OF page_frames(4)] show ?thesis by simp
next
  case (CSubmit i us)
  with session_page [OF page_frames(2)] show ?thesis by simp
next
  case CDashHealth
  with session_page [OF page_frames(5)] show ?thesis by simp
next
  case CBootHealth
  with session_page [OF page_frames(5)] show ?thesis by simp
qed

lemma commit_session: "session_of (commit pl s) = session_of s"
  by (rule session_of_view) (rule commit_keeps)

lemma user_event_session: "session_of (user_event h v s) = session_of s"
proof (rule session_of_view, cases h)
  case (AhLogin l)
  then show "authenticated (user_event h v s) = authenticated s"
    by (cases l) (auto simp: in_login_def lf_submit_def split: option.split)
next
  case (AhDash d)
  show "authenticated (user_event h v s) = authenticated s"
  proof (cases d)
    case DhCloseError
    with AhDash show ?thesis by (auto simp: act_simps split: option.split)
  next
    case (DhForm f)
    with AhDash show ?thesis
      by (cases f) (auto simp: submit_event_def submit_start_def act_simps split: option.split)
  qed
qed (simp_all add: act_simps)

lemma receive_session: "linked s \<Longrightarrow> session_of (receive data s) = session_of s"
  using session_page [OF page_frames(1)] by (simp add: receive_eq split: option.split)

lemma fire_timer_session: "session_of (fire_timer i s) = session_of s"
proof (cases "snd (timers s ! i)")
  case (TCleanup j v)
  with session_page [OF page_frames(6), of j v "s\<lparr>timers := drop_nth i (timers s)\<rparr>"] show ?thesis
    by (simp add: fire_timer_def session_of_def)
next
  case TFlash
  then show ?thesis by (simp add: fire_timer_def act_simps session_of_def)
qed

section \<open>A reachable dashboard\<close>

definition plain_route :: "jsstr \<Rightarrow> route" where
  "plain_route p =
     (if p = lit ''/login'' then RLogin else if p = lit ''/feeds'' then RFeeds else ROther)"

definition plain_platform :: platform where
  "plain_platform = \<lparr>p_engine = plain_engine, p_strict = False, p_route = plain_route\<rparr>"

lemma plain_routes_ok [simp]: "routes_ok plain_platform"
  by (simp add: routes_ok_def plain_platform_def plain_route_def)

text \<open>A fulfilled JSON answer, the bootstrap's answer for a signed-in user with no stories, and the answer
  of a submit in fallback mode.\<close>

definition json_answer :: "jsval \<Rightarrow> http_response" where
  "json_answer v = \<lparr>rs_status = 200, rs_content_type = Some (lit ''application/json''),
     rs_body = Some (stringify v)\<rparr>"

lemma json_answer_value: "jsonable v \<Longrightarrow> finish_request (Inr (json_answer v)) = Inr v"
proof -
  assume v: "jsonable v"
  have "is_json (json_answer v)" by (simp add: is_json_def json_answer_def lit_def starts_with_def)
  with v have "read_body (json_answer v) = Inr v"
    unfolding read_body_def json_answer_def by (simp add: json_round_trip del: stringify.simps)
  then show ?thesis by (simp add: finish_request_Inr_iff) (simp add: json_answer_def rs_ok_def)
qed

definition empty_value :: jsval where
  "empty_value = Obj [(lit ''items'', Arr [])]"

definition done_value :: jsval where
  "done_value = Obj [(lit ''feed_request_id'', Num 7), (lit ''items'', Arr [])]"

lemma answer_values:
  "finish_request (Inr (json_answer empty_value)) = Inr empty_value"
  "finish_request (Inr (json_answer done_value)) = Inr done_value"
  by (rule json_answer_value, simp add: empty_value_def done_value_def lit_def)+

lemma value_props [simp]:
  "prop_of empty_value ''items'' = Arr []" "prop_of empty_value ''mode'' = Undefined"
  "prop_of empty_value ''status'' = Undefined" "prop_of empty_value ''feed_request_id'' = Undefined"
  "prop_of done_value ''items'' = Arr []" "prop_of done_value ''mode'' = Undefined"
  "prop_of done_value ''status'' = Undefined" "prop_of done_value ''feed_request_id'' = Num 7"
  "prop_of done_value ''job_id'' = Undefined" "\<not> nullish empty_value" "\<not> nullish done_value"
  by (simp_all add: empty_value_def done_value_def prop_of_def lit_def)

text \<open>A server that gives these answers, and broadcasts one kind of message.\<close>

fun plain_answer :: "call \<Rightarrow> http_response" where
  "plain_answer (CSubmit inst us) = json_answer done_value"
| "plain_answer k = json_answer empty_value"

definition plain_answers :: "call \<Rightarrow> outcome \<Rightarrow> bool" where
  "plain_answers k a \<longleftrightarrow> a = Inr (plain_answer k)"

lemma plain_answer_value:
  "finish_request (Inr (plain_answer k)) = Inr (case k of CSubmit inst us \<Rightarrow> done_value | _ \<Rightarrow> empty_value)"
  by (cases k) (simp_all add: answer_values)

definition plain_feeds :: "jsval \<Rightarrow> bool" where
  "plain_feeds data \<longleftrightarrow> data = Obj [(lit ''status'', Str (lit ''processing''))]"

definition opened :: main_app where
  "opened = app_init plain_platform (lit ''/feeds'')"

definition on_dashboard :: main_app where
  "on_dashboard = commit plain_platform (answer_call plain_platform 0 (Inr (json_answer empty_value)) opened)"

lemma opened_start: "app_start plain_platform opened"
  by (auto simp: app_start_def opened_def)

lemma opened_call: "length (calls opened) = 1" "snd (calls opened ! 0) = CBootItems"
  by (simp_all add: opened_def app_init_def twice_def plain_platform_def)

lemma on_dashboard_step: "app_step plain_platform plain_answers feeds opened on_dashboard"
  unfolding on_dashboard_def by (rule as_answer) (simp_all add: opened_call plain_answers_def)

lemma plain_contracts:
  "answer_contract plain_answers" "feed_contract plain_feeds" "submit_contract plain_answers"
  by (auto simp: answer_contract_def plain_answers_def plain_answer_value answer_values submit_contract_def
      items_ok_def status_ok_def stories_def split: call.split)
    (auto simp: feed_contract_def plain_feeds_def items_ok_def status_ok_def prop_of_def text_or_null_def)

lemma on_dashboard_good: "placed plain_platform on_dashboard" "good on_dashboard"
proof -
  have p: "placed plain_platform opened" "flags opened" using app_start_placed [OF opened_start] by simp_all
  have g: "good opened" by (simp add: good_def opened_def app_init_def stories_def)
  show "placed plain_platform on_dashboard"
    using app_step_placed [OF plain_routes_ok p(1) on_dashboard_step [of plain_feeds]] .
  show "good on_dashboard"
    using app_step_good [OF plain_contracts(1,2) _ g on_dashboard_step] p(1) by (simp add: placed_def)
qed

lemma on_dashboard_session: "session_of on_dashboard = SignedIn"
  using settle_session [of plain_engine CBootItems "Inr empty_value"]
  by (simp add: on_dashboard_def commit_session answer_call_def opened_call answer_values
      plain_platform_def del: settle.simps)

lemma on_dashboard_screen: "screen_of plain_platform on_dashboard = SDash" "\<exists>i. dash on_dashboard = Some i"
proof -
  have "authenticated on_dashboard = Some True"
    using on_dashboard_session by (auto simp: session_of_def split: option.splits bool.splits)
  then show "screen_of plain_platform on_dashboard = SDash"
    using on_dashboard_good by (intro screen_dash) (simp_all add: good_def)
  then show "\<exists>i. dash on_dashboard = Some i"
    using on_dashboard_good(1) by (auto simp: placed_def)
qed

section \<open>Reachable states\<close>

definition app_reach ::
    "platform \<Rightarrow> (call \<Rightarrow> outcome \<Rightarrow> bool) \<Rightarrow> (jsval \<Rightarrow> bool) \<Rightarrow> main_app \<Rightarrow> bool" where
  "app_reach pl answers feeds s \<longleftrightarrow> reach (app_start pl) (app_step pl answers feeds) s"

lemma reach_placed: "routes_ok pl \<Longrightarrow> app_reach pl answers feeds s \<Longrightarrow> placed pl s"
  unfolding app_reach_def
  by (rule placed.reachable_inv [of pl answers feeds]) (blast intro: reach_mono)

lemma reach_flags: "routes_ok pl \<Longrightarrow> app_reach pl answers feeds s \<Longrightarrow> flags s"
  unfolding app_reach_def
  by (rule flags.reachable_extra [of pl answers feeds]) (blast intro: reach_mono)

lemma reach_rows:
  "routes_ok pl \<Longrightarrow> submit_contract answers \<Longrightarrow> app_reach pl answers feeds s \<Longrightarrow> rows_timed s"
  unfolding app_reach_def
  by (rule rows.reachable_extra [of pl answers feeds]) (blast intro: reach_mono)

lemma reach_good:
  "routes_ok pl \<Longrightarrow> answer_contract answers \<Longrightarrow> feed_contract feeds \<Longrightarrow> app_reach pl answers feeds s \<Longrightarrow> good s"
  unfolding app_reach_def
  by (rule safe.reachable_extra [of pl answers feeds]) (blast intro: reach_mono)

lemma reach_row_timed:
  assumes "routes_ok pl" "submit_contract answers" "app_reach pl answers feeds s" "dash s = Some inst"
    and "r \<in> set (pendingRequests s)" "status r = Str (lit ''done'') \<or> status r = Str (lit ''failed'')"
  shows "\<exists>due v. (due, TCleanup inst v) \<in> set (timers s) \<and> strict_eq (feed_request_id r) v \<and> due \<le> clock s + 3000"
proof -
  have "finished (status r)" using assms(6) by (auto simp: finished_def is_status_def)
  with reach_rows [OF assms(1-3)] assms(4,5) have "timed s inst r" by (simp add: rows_timed_def)
  then show ?thesis by (auto simp: timed_def)
qed

text \<open>What the page relies on from its server, as an interface: its contracts, and what they give.\<close>

locale page_server =
  fixes answers :: "call \<Rightarrow> outcome \<Rightarrow> bool" and feeds :: "jsval \<Rightarrow> bool"
  assumes answers_typed: "answer_contract answers"
    and feeds_typed: "feed_contract feeds"
    and submits_open: "submit_contract answers"
begin

lemma reach_renders: "routes_ok pl \<Longrightarrow> app_reach pl answers feeds s \<Longrightarrow> crashed s = None \<and> (\<exists>ns. MainApp pl s = Inr ns)"
  using reach_good [OF _ answers_typed feeds_typed] good_renders by (auto simp: good_def)

lemmas reach_timed = reach_row_timed [OF _ submits_open]

end

interpretation plain: page_server plain_answers plain_feeds
  using plain_contracts by unfold_locales

lemma opened_reach: "app_reach plain_platform answers feeds opened"
  by (simp add: app_reach_def reach_start opened_start)

lemma on_dashboard_reach: "app_reach plain_platform plain_answers feeds on_dashboard"
  using opened_reach on_dashboard_step unfolding app_reach_def by (rule reach_step)

lemma signed_out_no_crash:
  assumes "authenticated s = Some False"
  shows "crashed (commit pl s) = crashed s"
proof -
  obtain p where p: "redirects pl 2 s = s\<lparr>path := p\<rparr>" using redirects_path by blast
  let ?t = "place pl (s\<lparr>path := p\<rparr>)"
  have "screen_of pl ?t \<noteq> SDash"
    using assms by (simp add: screen_of_path routed_def split: route.split)
  then have "\<exists>ns. MainApp pl ?t = Inr ns"
    using assms by (auto simp: MainApp_def outlet_def split: screen.split)
  with p show ?thesis by (auto simp: commit_def)
qed

end
