(* ===== verification/AppRun.thy ===== *)
theory AppRun
  imports AppFacts
begin

text \<open>
  A run of the application up to a finished request: the user types a URL into the form of the
  reachable dashboard of \<open>AppFacts\<close>, submits it, and the server answers in fallback mode.
\<close>

section \<open>Offered events of the dashboard\<close>

lemma offered_form:
  assumes "good s" "screen_of pl s = SDash" "h \<in> set (events (FeedForm (form_urls s) (loading s)))"
  shows "AhDash (DhForm h) \<in> set (offered pl s)"
proof -
  obtain ns where ns: "MainApp pl s = Inr ns" using good_renders [OF assms(1)] by blast
  have a: "authenticated s \<noteq> None" "crashed s = None"
    using assms(2) by (auto simp: screen_of_def split: if_splits option.splits)
  obtain n nav where n: "Dashboard (p_engine pl) s = Inr n"
      and out: "ns = [el ''div'' [class_s ''min-vh-100 bg-light''] (nav @ flash_alert (flashMessage s) @ [map_node AhDash n])]"
    using ns a assms(2) by (auto simp: MainApp_def outlet_def bind_r_Inr_iff split: if_splits)
  have "DhForm h \<in> set (events n)" using Dashboard_events [OF n] assms(3) by auto
  then show ?thesis
    by (auto simp: offered_def ns out events_map attr_events_def is_disabled_def)
qed

section \<open>Sending a submit\<close>

definition sent :: "main_app \<Rightarrow> nat \<Rightarrow> main_app" where
  "sent s inst = s\<lparr>loading := True, error := [],
     calls := calls s @ [(api_submitFeeds (active_urls (form_urls s)), CSubmit inst (active_urls (form_urls s)))]\<rparr>"

lemma submit_sends:
  assumes "placed pl s" "good s" "dash s = Some inst" "active_urls (form_urls s) \<noteq> []"
  shows "commit pl (user_event (AhDash (DhForm FfSubmit)) v s) = sent s inst"
proof -
  have f: "ff_submit (form_urls s) = Some (active_urls (form_urls s))" using assms(4) by (simp add: ff_submit_def)
  have u: "user_event (AhDash (DhForm FfSubmit)) v s = sent s inst"
    using f assms(3) by (simp add: submit_event_def submit_start_def act_simps sent_def)
  note d = placed_dash [OF assms(1,3)]
  have "screen_of pl (sent s inst) = SDash"
    using d(1) by (subst screen_of_cong [of _ s]) (simp_all add: sent_def)
  then have "commit pl (sent s inst) = sent s inst"
    using assms(2,3) d(2) by (intro commit_stays) (simp_all add: sent_def good_def)
  then show ?thesis unfolding u .
qed

lemma sent_not_offered: "AhDash (DhForm FfSubmit) \<notin> set (offered pl (sent s inst))"
  using offered_submit(2) [of pl "sent s inst"] by (auto simp: sent_def)

section \<open>The run\<close>

definition board :: nat where
  "board = the (dash on_dashboard)"

lemma board: "dash on_dashboard = Some board"
  using on_dashboard_screen(2) by (auto simp: board_def)

lemma opened_dash: "dash (answer_call plain_platform 0 a opened) = None"
  using boot_items_flags
  by (simp add: answer_call_def opened_call) (simp add: opened_def app_init_def)

lemma on_dashboard_local:
  "loading on_dashboard = False" "error on_dashboard = []" "pendingRequests on_dashboard = []"
  "form_urls on_dashboard = ff_init"
  using commit_dash_new [OF board [unfolded on_dashboard_def] opened_dash]
  by (simp_all add: on_dashboard_def)

definition typed :: main_app where
  "typed = on_dashboard\<lparr>form_urls := [lit ''u'']\<rparr>"

lemma typed_urls: "active_urls (form_urls typed) = [lit ''u'']"
  by (simp add: typed_def active_urls_def trim_def lit_def cu_def is_space_def)

lemma one_url: "active_urls [lit ''u''] = [lit ''u'']"
  using typed_urls by (simp add: typed_def)

lemma typed_good: "good typed" "screen_of plain_platform typed = SDash" "dash typed = Some board" "login_view typed = None"
  using on_dashboard_good(2) on_dashboard_screen(1) board placed_dash(2) [OF on_dashboard_good(1) board]
    screen_of_cong [of typed on_dashboard plain_platform]
  by (simp_all add: typed_def good_def)

lemma typed_placed: "placed plain_platform typed"
  using on_dashboard_good(1) typed_good(2) on_dashboard_screen(1)
  unfolding placed_def by (simp add: typed_def linked_def)

lemma typed_step: "app_step plain_platform answers feeds on_dashboard typed"
proof -
  have "AhDash (DhForm (FfChange 0)) \<in> set (offered plain_platform on_dashboard)"
    using on_dashboard_good(2) on_dashboard_screen(1)
    by (intro offered_form) (simp_all add: FeedForm_events on_dashboard_local ff_init_def)
  moreover have "commit plain_platform (user_event (AhDash (DhForm (FfChange 0))) (lit ''u'') on_dashboard) = typed"
    using commit_stays [OF typed_good]
    by (simp add: typed_def on_dashboard_local ff_init_def handleUrlChange_def)
  ultimately show ?thesis using as_user by metis
qed

lemma typed_offers: "AhDash (DhForm FfSubmit) \<in> set (offered plain_platform typed)"
  using typed_good(1,2) typed_urls on_dashboard_local(1)
  by (intro offered_form) (simp_all add: FeedForm_events isSubmitDisabled_def typed_def)

lemma sent_step: "app_step plain_platform plain_answers feeds typed (sent typed board)"
  using as_user [OF typed_offers] submit_sends [OF typed_placed typed_good(1,3)] typed_urls
  by (metis list.distinct(1))

definition answered :: main_app where
  "answered = commit plain_platform
     (answer_call plain_platform (length (calls typed)) (Inr (json_answer done_value)) (sent typed board))"

definition done_row :: pending_request where
  "done_row = \<lparr>feed_request_id = Num 7, job_id = Undefined, urls = [lit ''u''], status = Str (lit ''done'')\<rparr>"

lemma sent_call: "snd (calls (sent typed board) ! length (calls typed)) = CSubmit board [lit ''u'']"
  by (simp add: sent_def typed_urls)

lemma answered_step: "app_step plain_platform plain_answers feeds (sent typed board) answered"
  unfolding answered_def
  by (rule as_answer) (simp_all add: sent_call plain_answers_def sent_def typed_urls)

lemma answered_reach: "app_reach plain_platform plain_answers feeds answered"
  using reach_step [OF reach_step [OF reach_step [OF on_dashboard_reach [unfolded app_reach_def] typed_step] sent_step] answered_step]
  unfolding app_reach_def .

lemma answered_good: "placed plain_platform answered" "good answered" "rows_timed answered"
  using reach_placed [OF plain_routes_ok answered_reach] reach_rows [OF plain_routes_ok plain_contracts(3) answered_reach]
    reach_good [OF plain_routes_ok plain_contracts(1,2) answered_reach]
  by auto

lemma answered_row: "dash answered = Some board" "pendingRequests answered = [done_row]"
proof -
  define u where "u = answer_call plain_platform (length (calls typed)) (Inr (json_answer done_value)) (sent typed board)"
  have u: "dash u = Some board" "pendingRequests u = [done_row]" "login_view u = None"
    "crashed u = None" "authenticated u = authenticated typed" "path u = path typed"
    using typed_good(1,3,4) on_dashboard_local(3)
    by (simp_all add: u_def answer_call_def sent_call answer_values submit_settle_def submit_fallback_def
        add_request_def act_simps get_prop_of has_elements_def js_gt_def done_row_def sent_def good_def typed_def one_url)
  have "good (sent typed board)" using typed_good(1) by (simp add: sent_def good_def)
  then have "good u"
    unfolding u_def by (rule answer_good [OF _ plain_contracts(1)]) (simp add: sent_call plain_answers_def)
  moreover have "screen_of plain_platform u = SDash"
    using typed_good(1,2) u by (subst screen_of_cong [of _ typed]) (simp_all add: good_def)
  ultimately have "answered = u" unfolding answered_def u_def using u(1,3) by (intro commit_stays) (simp_all add: u_def)
  with u show "dash answered = Some board" "pendingRequests answered = [done_row]" by simp_all
qed

end
