(* ===== verification/FullStack.thy ===== *)
theory FullStack
  imports AppRun RailsFacts
begin

text \<open>
  The page and the Rails side together: the calls of the page are answered by the controllers in
  any state of the tables, or refused, or lost, and the broadcasts are those of the jobs. The
  contracts that the properties of the page assume are theorems about the Rails side.
\<close>

section \<open>The controllers as the server of the page\<close>

text \<open>The user whose session it is, the id that is generated for a job, the address stored for a user.\<close>

fun rails_reply :: "nat \<Rightarrow> jsstr \<Rightarrow> jsstr \<Rightarrow> call \<Rightarrow> rails \<Rightarrow> http_response" where
  "rails_reply user job mail CBootItems s = index_feed_items user s"
| "rails_reply user job mail (CLoginItems i) s = index_feed_items user s"
| "rails_reply user job mail (CDashItems i) s = index_feed_items user s"
| "rails_reply user job mail CBootHealth s = health"
| "rails_reply user job mail (CLoginHealth i) s = health"
| "rails_reply user job mail CDashHealth s = health"
| "rails_reply user job mail (CSubmit i us) s = fst (create_feeds user job (Urls us) s)"
| "rails_reply user job mail (CLogin i email) s = session_created mail"
| "rails_reply user job mail CLogout s = session_destroyed"

text \<open>An answer without a body, as \<open>head :no_content\<close>: what Devise answers to a sign-out when nobody is signed in.\<close>

definition bodiless :: "http_response \<Rightarrow> bool" where
  "bodiless r \<longleftrightarrow> rs_body r = Some [] \<and> \<not> is_json r"

definition rails_answers :: "call \<Rightarrow> outcome \<Rightarrow> bool" where
  "rails_answers k a \<longleftrightarrow> (\<exists>m. a = Inl m) \<or> (\<exists>r. a = Inr r \<and> \<not> rs_ok r) \<or>
     (k = CLogout \<and> (\<exists>r. a = Inr r \<and> bodiless r)) \<or>
     (\<exists>user job mail s. a = Inr (rails_reply user job mail k s))"

definition rails_casts :: "jsval \<Rightarrow> bool" where
  "rails_casts data \<longleftrightarrow> (\<exists>m. data = cast_value m)"

section \<open>The contracts hold\<close>

lemma text_value_text: "text_or_null (text_value t)"
  by (auto simp: text_value_def text_or_null_def split: option.split)

lemma date_value_text: "text_or_null (date_value d)"
  by (auto simp: date_value_def text_or_null_def split: option.split prod.split)

lemma item_value_story: "story (item_value i)"
  using text_value_text date_value_text
  by (auto simp: story_def text_field_def item_value_def)

lemma item_msg_story: "story (item_msg_value item)"
proof -
  have "text_field (item_msg_value item) k" for k
  proof -
    have "map_of (map (\<lambda>(k, v). (lit k, text_value v)) item) (lit k) = map_option text_value (map_of item k)"
      by (induction item) auto
    then show ?thesis
      using text_value_text by (auto simp: text_field_def item_msg_value_def split: option.split)
  qed
  then show ?thesis by (simp add: story_def) (simp add: item_msg_value_def)
qed

lemma item_value_jsonable: "jsonable (item_value i)"
  by (auto simp: item_value_def text_value_def date_value_def split: option.split prod.split)

lemma index_answer:
  "finish_request (Inr (index_feed_items user s)) = Inr (Obj [(lit ''items'', Arr (map item_value (index_items user s)))])"
  unfolding index_feed_items_def
  by (rule json_reply_value) (simp_all add: list_all_iff item_value_jsonable)

lemma other_answers:
  "finish_request (Inr health) = Inr (Obj [(lit ''status'', Str (lit ''ok'')), (lit ''mode'', Str (lit ''full''))])"
  "finish_request (Inr (session_created email)) =
     Inr (Obj [(lit ''success'', Bool True), (lit ''user'', Obj [(lit ''email'', Str email)])])"
  "finish_request (Inr session_destroyed) = Inr (Obj [(lit ''success'', Bool True)])"
  unfolding health_def session_created_def session_destroyed_def
  by (rule json_reply_value; simp)+

lemma create_answer:
  "finish_request (Inr (fst (create_feeds user job (Urls us) s))) =
     (if us = [] then Inl (JsError (lit ''Urls parameter must be a non-empty array''))
      else Inr (Obj [(lit ''feed_request_id'', Num (int (next_request s))), (lit ''job_id'', Str job),
        (lit ''status'', Str (lit ''pending'')), (lit ''mode'', Str (lit ''full''))]))"
  by (simp add: create_feeds_def json_reply_value json_reply_error)

lemma refused_never: "\<not> rs_ok r \<Longrightarrow> finish_request (Inr r) \<noteq> Inr v"
  by (simp add: finish_request_Inr_iff)

lemma bodiless_value: "bodiless r \<Longrightarrow> finish_request (Inr r) = Inr v \<Longrightarrow> v = Str []"
  by (auto simp: finish_request_Inr_iff bodiless_def read_body_def)

lemma rails_answersE:
  assumes "rails_answers k a" "finish_request a = Inr v"
  obtains user job mail s where "finish_request (Inr (rails_reply user job mail k s)) = Inr v"
    | "k = CLogout" "v = Str []"
  using assms refused_never bodiless_value unfolding rails_answers_def by (auto simp: finish_request_def)

lemma rails_contracts:
  "answer_contract rails_answers" "feed_contract rails_casts" "submit_contract rails_answers"
proof -
  have items: "stories (Arr (map item_value xs))" for xs
    by (auto simp: stories_def list_all_iff item_value_story)
  show "answer_contract rails_answers"
    unfolding answer_contract_def
  proof (intro allI impI)
    fix k a v assume "rails_answers k a" "finish_request a = Inr v"
    then show "items_ok v \<and> status_ok v"
    proof (cases rule: rails_answersE)
      case (1 user job mail s)
      then show ?thesis
        by (cases k; use items in \<open>auto simp: index_answer other_answers create_answer items_ok_def
          status_ok_def prop_of_def text_or_null_def split: if_splits\<close>)
    qed (simp add: items_ok_def status_ok_def prop_of_def)
  qed
  have "stories (Arr (map item_msg_value xs))" for xs
    by (auto simp: stories_def list_all_iff item_msg_story)
  then show "feed_contract rails_casts"
    by (auto simp: feed_contract_def rails_casts_def cast_value_def items_ok_def status_ok_def prop_of_def text_or_null_def)
  show "submit_contract rails_answers"
    unfolding submit_contract_def
  proof (intro allI impI)
    fix i us a res assume "rails_answers (CSubmit i us) a" "finish_request a = Inr res"
    then obtain user job mail s where "finish_request (Inr (rails_reply user job mail (CSubmit i us) s)) = Inr res"
      by (rule rails_answersE) simp_all
    then show "if prop_of res ''mode'' = Str (lit ''full'') then \<not> finished (prop_of res ''status'')
        else primitive (prop_of res ''feed_request_id'')"
      by (auto simp: create_answer prop_of_def finished_def is_status_def split: if_splits)
  qed
qed

interpretation server: page_server rails_answers rails_casts
  using rails_contracts by unfold_locales

end
