(* ===== verification/RailsServer.thy ===== *)
theory RailsServer
  imports FullStack
begin

text \<open>
  The Rails application as the server of real requests: \<open>config/routes.rb\<close> dispatches on the method, the
  path and the decoded body of what \<open>api/client.js\<close> sends, \<open>Api::BaseController\<close> asks for a signed-in
  user, and the sessions controller changes who is signed in. Devise and the table of users are
  parameters.
\<close>

section \<open>Routes\<close>

datatype endpoint =
    SignIn jsstr jsstr
  | SignOut
  | ListItems
  | CreateFeeds urls_param
  | HealthCheck

definition method_of :: "http_request \<Rightarrow> jsstr" where
  "method_of q = (case init_prop q ''method'' of Some (Str m) \<Rightarrow> m | _ \<Rightarrow> lit ''GET'')"

text \<open>The member of the decoded body; \<open>Undefined\<close> is a missing key.\<close>

definition body_param :: "http_request \<Rightarrow> string \<Rightarrow> jsval" where
  "body_param q k = (case sent_value q of
     Some (Obj ps) \<Rightarrow> (case map_of ps (lit k) of Some v \<Rightarrow> v | None \<Rightarrow> Undefined) | _ \<Rightarrow> Undefined)"

definition text_of :: "jsval \<Rightarrow> jsstr option" where
  "text_of v = (case v of Str s \<Rightarrow> Some s | _ \<Rightarrow> None)"

text \<open>\<open>params[:urls]\<close>; arrays with members that are not texts are outside the model.\<close>

definition urls_param_of :: "jsval \<Rightarrow> urls_param option" where
  "urls_param_of v =
     (case v of
        Arr xs \<Rightarrow> if list_all (\<lambda>x. text_of x \<noteq> None) xs then Some (Urls (map (the \<circ> text_of) xs)) else None
      | Undefined \<Rightarrow> Some NoUrls
      | Null \<Rightarrow> Some NoUrls
      | _ \<Rightarrow> Some OtherUrls)"

definition sign_in_param :: "jsval \<Rightarrow> (jsstr \<times> jsstr) option" where
  "sign_in_param user =
     (case user of
        Obj ps \<Rightarrow> (case (map_of ps (lit ''email''), map_of ps (lit ''password'')) of
                     (Some (Str e), Some (Str p)) \<Rightarrow> Some (e, p) | _ \<Rightarrow> None)
      | _ \<Rightarrow> None)"

text \<open>The routes of the API; \<open>None\<close> for any other request.\<close>

definition route_of :: "http_request \<Rightarrow> endpoint option" where
  "route_of q =
     (if method_of q = lit ''POST'' \<and> rq_url q = lit ''/api/v1/users/sign_in'' then
        map_option (\<lambda>(e, p). SignIn e p) (sign_in_param (body_param q ''user''))
      else if method_of q = lit ''DELETE'' \<and> rq_url q = lit ''/api/v1/users/sign_out'' then Some SignOut
      else if method_of q = lit ''POST'' \<and> rq_url q = lit ''/api/v1/feeds'' then
        map_option CreateFeeds (urls_param_of (body_param q ''urls''))
      else if method_of q = lit ''GET'' \<and> rq_url q = lit ''/api/v1/feed_items'' then Some ListItems
      else if method_of q = lit ''GET'' \<and> rq_url q = lit ''/api/v1/health'' then Some HealthCheck
      else None)"

section \<open>Serving\<close>

text \<open>Devise: which user has the credentials, the stored address of a user, which users there are, and what its failure application
  answers to a call without a session, to wrong credentials, and to a sign-out when nobody is signed in.\<close>

record devise =
  account :: "jsstr \<Rightarrow> jsstr \<Rightarrow> nat option"
  stored_email :: "nat \<Rightarrow> jsstr"
  known_user :: "nat \<Rightarrow> bool"
  unauthenticated :: http_response
  not_signed_in :: http_response

definition devise_ok :: "devise \<Rightarrow> bool" where
  "devise_ok d \<longleftrightarrow> \<not> rs_ok (unauthenticated d) \<and> (\<not> rs_ok (not_signed_in d) \<or> bodiless (not_signed_in d))"

text \<open>\<open>before_action :authenticate_user!\<close> of \<open>Api::BaseController\<close>.\<close>

definition authenticate_user ::
    "devise \<Rightarrow> nat option \<Rightarrow> (nat \<Rightarrow> rails \<Rightarrow> http_response \<times> rails) \<Rightarrow> rails \<Rightarrow> http_response \<times> rails" where
  "authenticate_user d user action s = (case user of None \<Rightarrow> (unauthenticated d, s) | Some u \<Rightarrow> action u s)"

text \<open>The response, the session after it, and the tables; \<open>job\<close> is the generated id. \<open>warden.authenticate!\<close> looks
  for the user of the session first and does not check credentials when there is one.\<close>

fun serve :: "devise \<Rightarrow> jsstr \<Rightarrow> endpoint \<Rightarrow> nat option \<Rightarrow> rails \<Rightarrow> http_response \<times> nat option \<times> rails" where
  "serve d job (SignIn email password) user s =
     (case user of
        Some u \<Rightarrow> (session_created (stored_email d u), Some u, s)
      | None \<Rightarrow>
          (case account d email password of
             None \<Rightarrow> (unauthenticated d, None, s)
           | Some u \<Rightarrow> (session_created (stored_email d u), Some u, s)))"
| "serve d job SignOut user s =
     (case user of None \<Rightarrow> (not_signed_in d, None, s) | Some u \<Rightarrow> (session_destroyed, None, s))"
| "serve d job ListItems user s =
     (case authenticate_user d user (\<lambda>u s. (index_feed_items u s, s)) s of (r, t) \<Rightarrow> (r, user, t))"
| "serve d job (CreateFeeds us) user s =
     (case authenticate_user d user (\<lambda>u. create_feeds u job us) s of (r, t) \<Rightarrow> (r, user, t))"
| "serve d job HealthCheck user s = (health, user, s)"

text \<open>\<open>ApplicationCable::Connection\<close>: the user a connection is identified by when it is opened; \<open>None\<close> is a
  rejected connection.\<close>

definition find_verified_user :: "devise \<Rightarrow> nat option \<Rightarrow> nat option" where
  "find_verified_user d session =
     (case session of None \<Rightarrow> None | Some u \<Rightarrow> if known_user d u then Some u else None)"

section \<open>The requests of the page\<close>

text \<open>The request a call of the page is sent as, and the endpoint it is for.\<close>

fun asks :: "call \<Rightarrow> http_request \<Rightarrow> bool" where
  "asks (CLogin i email) q \<longleftrightarrow> (\<exists>password. q = api_login email password)"
| "asks CLogout q \<longleftrightarrow> q = api_logout"
| "asks (CSubmit i us) q \<longleftrightarrow> q = api_submitFeeds us"
| "asks CBootHealth q \<longleftrightarrow> q = api_getHealth"
| "asks CDashHealth q \<longleftrightarrow> q = api_getHealth"
| "asks (CLoginHealth i) q \<longleftrightarrow> q = api_getHealth"
| "asks CBootItems q \<longleftrightarrow> q = api_getFeedItems"
| "asks (CLoginItems i) q \<longleftrightarrow> q = api_getFeedItems"
| "asks (CDashItems i) q \<longleftrightarrow> q = api_getFeedItems"

fun addressed :: "call \<Rightarrow> endpoint \<Rightarrow> bool" where
  "addressed (CLogin i email) e \<longleftrightarrow> (\<exists>password. e = SignIn email password)"
| "addressed CLogout e \<longleftrightarrow> e = SignOut"
| "addressed (CSubmit i us) e \<longleftrightarrow> e = CreateFeeds (Urls us)"
| "addressed CBootHealth e \<longleftrightarrow> e = HealthCheck"
| "addressed CDashHealth e \<longleftrightarrow> e = HealthCheck"
| "addressed (CLoginHealth i) e \<longleftrightarrow> e = HealthCheck"
| "addressed CBootItems e \<longleftrightarrow> e = ListItems"
| "addressed (CLoginItems i) e \<longleftrightarrow> e = ListItems"
| "addressed (CDashItems i) e \<longleftrightarrow> e = ListItems"

lemma methods:
  "method_of (api_login e p) = lit ''POST''" "method_of (api_submitFeeds us) = lit ''POST''"
  "method_of api_logout = lit ''DELETE''" "method_of api_getFeedItems = lit ''GET''" "method_of api_getHealth = lit ''GET''"
  by (simp_all add: method_of_def api_init_props method_option_def)

lemma params:
  "body_param (api_login e p) ''user'' = Obj [(lit ''email'', Str e), (lit ''password'', Str p)]"
  "body_param (api_submitFeeds us) ''urls'' = Arr (map Str us)"
  by (simp_all add: body_param_def sent_values login_body_def feeds_body_def)

lemma texts_param: "urls_param_of (Arr (map Str us)) = Some (Urls us)"
  by (simp add: urls_param_of_def text_of_def list_all_iff o_def)

lemma routes:
  "route_of (api_login e p) = Some (SignIn e p)" "route_of api_logout = Some SignOut"
  "route_of (api_submitFeeds us) = Some (CreateFeeds (Urls us))"
  "route_of api_getFeedItems = Some ListItems" "route_of api_getHealth = Some HealthCheck"
  by (simp_all add: route_of_def methods params api_paths texts_param sign_in_param_def lit_eq_iff)

lemma asks_routed: "asks k q \<Longrightarrow> \<exists>e. route_of q = Some e \<and> addressed k e"
  by (cases k) (auto simp: routes)

text \<open>What is served is an answer of the controllers, in the sense the properties of the page need.\<close>

lemma served:
  assumes "devise_ok d" "asks k q" "route_of q = Some e" "serve d job e user s = (r, user', t)"
  shows "rails_answers k (Inr r)"
    and "t = s \<or> (\<exists>u i us. k = CSubmit i us \<and> user = Some u \<and> create_feeds u job (Urls us) s = (r, t))"
proof -
  have a: "addressed k e" using asks_routed [OF assms(2)] assms(3) by auto
  have "\<not> rs_ok r \<or> (k = CLogout \<and> bodiless r) \<or> (\<exists>u mail. r = rails_reply u job mail k s)"
    using a assms(1,4)
    by (cases k) (auto simp: devise_ok_def authenticate_user_def case_prod_unfold split: option.splits)
  then show "rails_answers k (Inr r)" by (auto simp: rails_answers_def)
  show "t = s \<or> (\<exists>u i us. k = CSubmit i us \<and> user = Some u \<and> create_feeds u job (Urls us) s = (r, t))"
    using a assms(4) by (cases k) (auto simp: authenticate_user_def split: option.splits prod.splits)
qed

end
