(* ===== verification/WorldCalls.thy ===== *)
theory WorldCalls
  imports WorldInv RailsServer
begin

text \<open>
  The calls of the page: every handler only adds calls at the end of the list, each with the request of
  its kind, so every call in flight is routed by the server to the endpoint it is for.
\<close>

section \<open>Added calls\<close>

definition calls_ok :: "(http_request \<times> call) list \<Rightarrow> bool" where
  "calls_ok cs \<longleftrightarrow> (\<forall>(q, k) \<in> set cs. asks k q)"

definition adds :: "(http_request \<times> call) list \<Rightarrow> main_app \<Rightarrow> bool" where
  "adds cs s \<longleftrightarrow> (\<exists>new. calls s = cs @ new \<and> calls_ok new)"

lemma calls_ok_append [simp]: "calls_ok (cs @ ds) \<longleftrightarrow> calls_ok cs \<and> calls_ok ds"
  by (auto simp: calls_ok_def)

lemma adds_refl: "adds (calls s) s"
  by (simp add: adds_def calls_ok_def)

lemma adds_same: "adds cs s \<Longrightarrow> calls t = calls s \<Longrightarrow> adds cs t"
  by (simp add: adds_def)

lemma adds_more: "adds cs s \<Longrightarrow> calls t = calls s @ new \<Longrightarrow> calls_ok new \<Longrightarrow> adds cs t"
  by (force simp: adds_def)

lemma adds_ok: "adds cs s \<Longrightarrow> calls_ok cs \<Longrightarrow> calls_ok (calls s)"
  by (auto simp: adds_def)

lemma adds_primitives [keeps_rules]:
  "keeps (adds cs) (setAuthenticated b)" "keeps (adds cs) (setUserEmail e)" "keeps (adds cs) (setFlashMessage m)"
  "keeps (adds cs) (navigate p)" "keeps (adds cs) (setFeedItems f)" "keeps (adds cs) (setMode v)"
  "keeps (adds cs) (setTimeout x n)" "keeps (adds cs) (resolve_login en j outcome)"
  by (auto simp: keeps_def act_simps resolve_login_def intro: adds_same split: sum.split option.split)

lemma adds_send [keeps_rules]: "asks k q \<Longrightarrow> keeps (adds cs) (send q k)"
  by (auto simp: keeps_def act_simps calls_ok_def intro: adds_more)

lemma keeps_adds: "keeps (adds (calls s)) m \<Longrightarrow> adds (calls s) (snd (m s))"
  by (simp add: keeps_def adds_refl)

lemma adds_page: "page_frame inst s t \<Longrightarrow> adds (calls s) t"
  using page_more_eq(8) [of t s] adds_same [OF adds_refl] by (auto simp: page_frame_def)

lemma settle_adds: "adds (calls s) (snd (settle en c answer s))"
proof (cases c)
  case CBootItems
  have "keeps (adds (calls s)) (boot_items answer)" unfolding boot_items_def by (intro keeps_rules) simp
  with CBootItems show ?thesis using keeps_adds by simp
next
  case (CLogin i email)
  have "keeps (adds (calls s)) (await_login en i False (login_done i email answer))"
    unfolding await_login_def login_done_def by (intro keeps_rules) simp
  with CLogin show ?thesis using keeps_adds by simp
next
  case (CLoginItems i)
  have "keeps (adds (calls s)) (await_login en i False (login_items i answer))"
    unfolding await_login_def login_items_def by (intro keeps_rules) simp
  with CLoginItems show ?thesis using keeps_adds by simp
next
  case (CLoginHealth i)
  have "keeps (adds (calls s)) (await_login en i True (login_health answer))"
    unfolding await_login_def login_health_def by (intro keeps_rules)
  with CLoginHealth show ?thesis using keeps_adds by simp
next
  case CLogout
  have "keeps (adds (calls s)) (logout_done answer)" unfolding logout_done_def by (intro keeps_rules)
  with CLogout show ?thesis using keeps_adds by simp
next
  case CBootHealth
  with adds_page [OF page_frames(5)] show ?thesis by simp
next
  case (CDashItems i)
  with adds_page [OF page_frames(4)] show ?thesis by simp
next
  case CDashHealth
  with adds_page [OF page_frames(5)] show ?thesis by simp
next
  case (CSubmit i us)
  with adds_page [OF page_frames(2)] show ?thesis by simp
qed

lemma user_event_adds: "adds (calls s) (user_event h v s)"
proof (cases h)
  case AhLogout
  then show ?thesis by (auto simp: act_simps calls_ok_def adds_def)
next
  case AhCloseFlash
  then show ?thesis by (auto simp: act_simps calls_ok_def adds_def)
next
  case (AhLogin l)
  then show ?thesis
    by (cases l) (auto simp: in_login_def lf_submit_def calls_ok_def adds_def split: option.split)
next
  case (AhDash d)
  show ?thesis
  proof (cases d)
    case DhCloseError
    with AhDash show ?thesis by (auto simp: act_simps calls_ok_def adds_def split: option.split)
  next
    case (DhForm f)
    with AhDash show ?thesis
      by (cases f) (auto simp: submit_event_def submit_start_def act_simps calls_ok_def adds_def split: option.split)
  qed
qed

lemma commit_adds:
  assumes "adds cs s"
  shows "adds cs (commit pl s)"
proof (rule commit_shape [of pl s])
  fix p
  let ?t = "place pl (s\<lparr>path := p\<rparr>)"
  assume c: "(\<exists>e. MainApp pl ?t = Inl e \<and> commit pl s = take_down (?t\<lparr>crashed := Some e\<rparr>)) \<or>
      (\<exists>ns. MainApp pl ?t = Inr ns \<and> commit pl s = mount_effects pl (dash (s\<lparr>path := p\<rparr>)) ?t)"
  have a: "calls ?t = calls s" by simp
  have "calls_ok (twice (p_strict pl) [(api_getFeedItems, CDashItems i), (api_getHealth, CDashHealth)])" for i
    by (simp add: calls_ok_def twice_def)
  then have "calls_ok (drop (length (calls s)) (calls (mount_effects pl b ?t))) \<and>
      take (length (calls s)) (calls (mount_effects pl b ?t)) = calls s" for b
    using a by (auto simp: mount_effects_def dash_effects_def calls_ok_def split: option.split)
  then have m: "adds cs (mount_effects pl b ?t)" for b
    by (intro adds_more [OF assms, where new = "drop (length (calls s)) (calls (mount_effects pl b ?t))"])
      (metis append_take_drop_id, simp)
  have "calls (take_down (?t\<lparr>crashed := Some e\<rparr>)) = calls s" for e
    using a by (simp add: take_down_def leave_login_def leave_dash_def)
  with c m adds_same [OF assms] show "adds cs (commit pl s)" by metis
qed

lemma answer_adds: "adds (drop_nth i (calls s)) (answer_call pl i a s)"
  using settle_adds [of "s\<lparr>calls := drop_nth i (calls s)\<rparr>"] by (simp add: answer_call_def)

lemma receive_adds: "linked s \<Longrightarrow> adds (calls s) (receive data s)"
  by (auto simp: receive_eq adds_refl intro: adds_page page_frames split: option.split)

lemma fire_timer_adds: "adds (calls s) (fire_timer i s)"
proof (cases "snd (timers s ! i)")
  case (TCleanup j v)
  with adds_page [OF page_frames(6), of "s\<lparr>timers := drop_nth i (timers s)\<rparr>" j v] show ?thesis
    by (simp add: fire_timer_def)
next
  case TFlash
  then show ?thesis by (auto simp: fire_timer_def act_simps intro: adds_same [OF adds_refl])
qed

section \<open>Steps\<close>

text \<open>A step adds calls at the end, after removing the one it answers.\<close>

lemma app_step_adds:
  assumes "linked s" "app_step pl answers feeds s t"
  shows "adds (calls s) t \<or> (\<exists>i a. answers (snd (calls s ! i)) a \<and> adds (drop_nth i (calls s)) t)"
  using assms(2)
proof (rule app_stepE)
  fix p assume "t = commit pl (s\<lparr>path := p\<rparr>)"
  then have "adds (calls s) t" using commit_adds [OF adds_same [OF adds_refl]] by simp
  then show ?thesis ..
next
  assume "t = s\<lparr>clock := Suc (clock s)\<rparr>"
  then have "adds (calls s) t" using adds_same [OF adds_refl] by simp
  then show ?thesis ..
qed (use commit_adds user_event_adds answer_adds receive_adds [OF assms(1)] fire_timer_adds in blast)+

lemma app_step_calls_ok:
  assumes "linked s" "calls_ok (calls s)" "app_step pl answers feeds s t"
  shows "calls_ok (calls t)"
proof -
  have "calls_ok (drop_nth i (calls s))" for i
    using assms(2) set_drop_nth [of i "calls s"] by (auto simp: calls_ok_def)
  with app_step_adds [OF assms(1,3)] assms(2) show ?thesis by (auto intro: adds_ok)
qed

lemma start_calls_ok: "app_start pl s \<Longrightarrow> calls_ok (calls s)"
  by (auto simp: app_start_def app_init_def calls_ok_def twice_def split: if_splits)

interpretation addressed: strengthened_invariant "app_start pl" "\<lambda>s t. routes_ok pl \<and> app_step pl answers feeds s t"
    "placed pl" "\<lambda>s. calls_ok (calls s)"
  using start_calls_ok app_step_calls_ok by unfold_locales (auto simp: placed_def)

lemma reach_calls_ok: "routes_ok pl \<Longrightarrow> app_reach pl answers feeds s \<Longrightarrow> calls_ok (calls s)"
  unfolding app_reach_def
  by (rule addressed.reachable_extra [of pl answers feeds]) (blast intro: reach_mono)

lemma call_routed:
  "calls_ok (calls s) \<Longrightarrow> i < length (calls s) \<Longrightarrow>
   \<exists>e. route_of (fst (calls s ! i)) = Some e \<and> addressed (snd (calls s ! i)) e"
  by (rule asks_routed) (auto simp: calls_ok_def split: prod.splits dest!: nth_mem)

end
