(* ===== verification/Site.thy ===== *)
theory Site
  imports WorldCalls GoFacts
begin

text \<open>
  The whole program as one step relation: a browser page, the cookie of its session and the connection of
  its cable consumer, the Rails application with its tables and jobs, and the Go service. The calls
  of the page are served as the requests they are, the responses travel and may be lost, the
  broadcasts of the jobs go to the connection that is open at that time. Other browsers and other
  clients of the service are part of the environment.
\<close>

section \<open>State\<close>

text \<open>The responses on their way are a list parallel to the calls in flight. The connection is
  identified when it is opened (\<open>ApplicationCable::Connection\<close>) and holds the broadcasts not yet delivered.\<close>

record site =
  st_page :: main_app
  st_session :: "nat option"
  st_conn :: "nat option"
  st_queue :: "cast_msg list"
  st_wire :: "http_response option list"
  st_rails :: rails
  st_go :: service

text \<open>A new state of the page; calls it has added have no response yet.\<close>

definition set_page :: "main_app \<Rightarrow> http_response option list \<Rightarrow> site \<Rightarrow> site" where
  "set_page p ws s = s\<lparr>st_page := p, st_wire := ws @ replicate (length (calls p) - length ws) None\<rparr>"

text \<open>A new state of the tables; new broadcasts for the user of the connection are streamed to it.\<close>

definition set_rails :: "rails \<Rightarrow> site \<Rightarrow> site" where
  "set_rails r s = s\<lparr>st_rails := r, st_queue := st_queue s @
     stream_of (st_conn s) (r\<lparr>casts := drop (length (casts (st_rails s))) (casts r)\<rparr>)\<rparr>"

text \<open>A new page is loaded: its calls and its connection are gone.\<close>

definition page_open :: "platform \<Rightarrow> jsstr \<Rightarrow> site \<Rightarrow> site" where
  "page_open pl p s = s\<lparr>st_page := app_init pl p, st_conn := None, st_queue := [],
     st_wire := replicate (length (calls (app_init pl p))) None\<rparr>"

text \<open>The URLs the Go service may be asked for: those of the requests in the tables, and those of other
  clients of the service (\<open>out\<close>).\<close>

definition submitted :: "rails \<Rightarrow> jsstr set" where
  "submitted r = (\<Union>q \<in> set (requests r). set (rq_urls q))"

definition allowed :: "(jsstr \<Rightarrow> bool) \<Rightarrow> rails \<Rightarrow> jsstr \<Rightarrow> bool" where
  "allowed out r u \<longleftrightarrow> out u \<or> u \<in> submitted r"

section \<open>Steps\<close>

text \<open>The consumer opens its connection with the first subscription of the page and reopens it when it is lost.\<close>

definition subscribed_once :: "main_app \<Rightarrow> bool" where
  "subscribed_once p \<longleftrightarrow> 0 < next_sub (cable (channel p))"

inductive site_step ::
    "platform \<Rightarrow> devise \<Rightarrow> rails_env \<Rightarrow> reader \<Rightarrow> (jsstr \<Rightarrow> bool) \<Rightarrow> site \<Rightarrow> site \<Rightarrow> bool"
  for pl d env rd out where
  ss_page: "app_step pl (\<lambda>_ _. False) (\<lambda>_. False) (st_page s) p \<Longrightarrow>
    site_step pl d env rd out s (set_page p (st_wire s) s)"
| ss_serve: "i < length (calls (st_page s)) \<Longrightarrow> st_wire s ! i = None \<Longrightarrow>
    route_of (fst (calls (st_page s) ! i)) = Some e \<Longrightarrow> Some job \<notin> rq_job ` set (requests (st_rails s)) \<Longrightarrow>
    serve d job e (st_session s) (st_rails s) = (resp, session, r) \<Longrightarrow>
    site_step pl d env rd out s ((set_rails r s)\<lparr>st_session := session, st_wire := (st_wire s)[i := Some resp]\<rparr>)"
| ss_refuse: "i < length (calls (st_page s)) \<Longrightarrow> st_wire s ! i = None \<Longrightarrow> \<not> rs_ok resp \<Longrightarrow>
    site_step pl d env rd out s (s\<lparr>st_wire := (st_wire s)[i := Some resp]\<rparr>)"
| ss_answer: "i < length (calls (st_page s)) \<Longrightarrow> st_wire s ! i = Some resp \<Longrightarrow>
    site_step pl d env rd out s
      (set_page (commit pl (answer_call pl i (Inr resp) (st_page s))) (drop_nth i (st_wire s)) s)"
| ss_lost: "i < length (calls (st_page s)) \<Longrightarrow>
    site_step pl d env rd out s
      (set_page (commit pl (answer_call pl i (Inl text) (st_page s))) (drop_nth i (st_wire s)) s)"
| ss_session: "site_step pl d env rd out s (s\<lparr>st_session := user\<rparr>)"
| ss_connect: "subscribed_once (st_page s) \<Longrightarrow> st_conn s = None \<Longrightarrow>
    site_step pl d env rd out s (s\<lparr>st_conn := find_verified_user d (st_session s), st_queue := []\<rparr>)"
| ss_disconnect: "site_step pl d env rd out s (s\<lparr>st_conn := None, st_queue := []\<rparr>)"
| ss_receive: "st_queue s = m # ms \<Longrightarrow>
    site_step pl d env rd out s
      ((set_page (commit pl (receive (cast_value m) (st_page s))) (st_wire s) s)\<lparr>st_queue := ms\<rparr>)"
| ss_open: "site_step pl d env rd out s (page_open pl p s)"
| ss_rails: "rails_step env (\<lambda>m. m \<in> set (sv_results (st_go s))) (\<lambda>_ reply. \<exists>e. reply = NoReply e) (st_rails s) r \<Longrightarrow>
    site_step pl d env rd out s (set_rails r s)"
| ss_fallback: "i < length (tasks (st_rails s)) \<Longrightarrow> tasks (st_rails s) ! i = Publish rid \<Longrightarrow>
    q \<in> set (requests (st_rails s)) \<Longrightarrow> rq_id q = rid \<Longrightarrow> rq_job q = Some job \<Longrightarrow> job \<noteq> [] \<Longrightarrow>
    arrivals rd (urls_to_fetch (sv_cache (st_go s)) (rq_urls q)) rs \<Longrightarrow>
    serve_parse valid header (\<lambda>_. reader_parse rd rs) wr hup ulid (Some (job, rq_urls q)) (st_go s) = (reply, g) \<Longrightarrow>
    site_step pl d env rd out s
      ((set_rails (snd (execute_fallback env up reply q (drop_task i (st_rails s)))) s)\<lparr>st_go := g\<rparr>)"
| ss_go: "go_step rd (allowed out (st_rails s)) (st_go s) g \<Longrightarrow> site_step pl d env rd out s (s\<lparr>st_go := g\<rparr>)"

definition site_start :: "platform \<Rightarrow> site \<Rightarrow> bool" where
  "site_start pl s \<longleftrightarrow> (\<exists>p user. s = page_open pl p
     \<lparr>st_page = app_init pl p, st_session = user, st_conn = None, st_queue = [], st_wire = [],
      st_rails = rails_init, st_go = service_init\<rparr>)"

definition site_reach ::
    "platform \<Rightarrow> devise \<Rightarrow> rails_env \<Rightarrow> reader \<Rightarrow> (jsstr \<Rightarrow> bool) \<Rightarrow> site \<Rightarrow> bool" where
  "site_reach pl d env rd out s \<longleftrightarrow> reach (site_start pl) (site_step pl d env rd out) s"

section \<open>The tables only grow\<close>

text \<open>A request keeps its number and its URLs, a stored story and a broadcast stay.\<close>

definition rails_grows :: "rails \<Rightarrow> rails \<Rightarrow> bool" where
  "rails_grows s t \<longleftrightarrow> set (item_table s) \<subseteq> set (item_table t) \<and> (\<exists>cs. casts t = casts s @ cs) \<and>
     (\<forall>q \<in> set (requests s). \<exists>q' \<in> set (requests t). rq_id q' = rq_id q \<and> rq_urls q' = rq_urls q)"

lemma grows_same:
  "rails_grows s t \<Longrightarrow> item_table u = item_table t \<Longrightarrow> casts u = casts t \<Longrightarrow> requests u = requests t \<Longrightarrow> rails_grows s u"
  by (simp add: rails_grows_def)

lemma grows_refl_rails: "rails_grows s s"
  by (auto simp: rails_grows_def)

lemma grows_set:
  assumes "rails_grows s t" "\<And>q. rq_id (f q) = rq_id q" "\<And>q. rq_urls (f q) = rq_urls q"
  shows "rails_grows s (set_request p f t)"
proof -
  have "\<exists>q' \<in> set (requests (set_request p f t)). rq_id q' = rq_id x \<and> rq_urls q' = rq_urls x"
    if "x \<in> set (requests t)" for x
    using that assms(2,3) by (intro bexI [of _ "if p x then f x else x"]) (auto simp: set_request_def)
  with assms(1) show ?thesis
    unfolding rails_grows_def by (auto simp: set_request_def) (metis (full_types))
qed

lemma grows_keeps [keeps_rules]:
  "keeps (rails_grows s) (find_or_create_feed url title)" "keeps (rails_grows s) (link_feed rid fid)"
  "keeps (rails_grows s) (broadcast user m)" "keeps (rails_grows s) (publish_command r)"
  "keeps (rails_grows s) (modify (\<lambda>s. s\<lparr>item_table := insert_all new (item_table s)\<rparr>))"
  using insert_all_set(1) [of _ new]
  by (auto simp: keeps_def find_or_create_feed_def link_feed_def broadcast_def publish_command_def modify_def
      rails_grows_def split: option.split)

lemma grows_store [keeps_rules]: "keeps (rails_grows s) (store_groups env up rid gs)"
  by (induction gs) (auto simp: store_group_def intro!: keeps_rules)

lemma grows_store_items [keeps_rules]: "keeps (rails_grows s) (store_items env up rid items)"
  unfolding store_items_def by (rule keeps_rules)

lemma grows_finish [keeps_rules]: "keeps (rails_grows s) (work_finish env up r m)"
  unfolding work_finish_def by (intro keeps_rules)

lemma grows_update [keeps_rules]: "keeps (rails_grows s) (update_request rid job st)"
  by (auto simp: keeps_def update_request_def intro: grows_set split: option.split)

lemma grows_fallback: "keeps (rails_grows s) (execute_fallback env up reply r)"
  unfolding execute_fallback_def
  by (cases reply) (auto intro!: keeps_rules split: option.split)

lemma grows_task: "rails_grows s (drop_task i s)" "rails_grows s t \<Longrightarrow> rails_grows s (add_task x t)"
  by (auto simp: drop_task_def add_task_def intro: grows_same grows_refl_rails)

lemma rails_step_grows: "rails_step env msgs replies s t \<Longrightarrow> rails_grows s t"
proof (induction rule: rails_step.induct)
  case (rs_create job s user us)
  show ?case
    by (cases us) (auto simp: create_feeds_def rails_grows_def)
next
  case (rs_publish i s rid r)
  show ?case by (intro grows_task(2) keepsD [OF grows_keeps(4)] grows_task(1))
next
  case (rs_fallback i s rid r reply up)
  show ?case by (intro keepsD [OF grows_fallback] grows_task(1))
next
  case (rs_mark i s r)
  show ?case
    using grows_task(1) by (auto simp: mark_processing_def modify_def intro: grows_set)
next
  case (rs_deliver m s r)
  show ?case by (intro grows_task(2) grows_refl_rails)
next
  case (rs_claim i s r m)
  have "rails_grows s (snd (work_claim m (drop_task i s)))"
    using grows_task(1) by (auto simp: work_claim_def intro: grows_set split: option.split)
  then show ?case
    by (auto simp: claim_result_def intro: grows_task(2) split: prod.splits sum.splits bool.splits)
next
  case (rs_store i s r m up)
  show ?case by (intro keepsD [OF grows_finish] grows_task(1))
qed

lemma allowed_mono: "rails_grows s t \<Longrightarrow> allowed out s u \<Longrightarrow> allowed out t u"
  by (force simp: allowed_def submitted_def rails_grows_def)

section \<open>More URLs, more behaviour\<close>

lemma go_step_mono:
  assumes "go_step rd ok s t" "\<And>u. ok u \<Longrightarrow> ok' u"
  shows "go_step rd ok' s t"
  using assms(1)
proof (cases rule: go_step.cases)
  case (gs_command urls rs wr up job)
  show ?thesis unfolding gs_command(1) by (rule go_step.gs_command) (use gs_command(2,3) assms(2) in auto)
next
  case (gs_request urls rs valid header wr hup ulid jid)
  show ?thesis unfolding gs_request(1) by (rule go_step.gs_request) (use gs_request(2,3) assms(2) in auto)
next
  case (gs_cache_expires u)
  show ?thesis unfolding gs_cache_expires by (rule go_step.gs_cache_expires)
next
  case (gs_job_expires job)
  show ?thesis unfolding gs_job_expires by (rule go_step.gs_job_expires)
qed

lemma go_reach_mono:
  assumes "go_reach rd ok s" "\<And>u. ok u \<Longrightarrow> ok' u"
  shows "go_reach rd ok' s"
proof -
  have "go_step rd ok' x y" if "go_step rd ok x y" for x y by (rule go_step_mono [OF that assms(2)])
  then show ?thesis using assms(1) unfolding go_reach_def by (blast intro: reach_mono)
qed

lemma go_messages_mono:
  assumes "go_messages rd ok m" "\<And>u. ok u \<Longrightarrow> ok' u"
  shows "go_messages rd ok' m"
proof -
  obtain s where s: "go_reach rd ok s" "m \<in> set (sv_results s)" using assms(1) by (auto simp: go_messages_def)
  have "go_reach rd ok' s" by (rule go_reach_mono [OF s(1) assms(2)])
  with s(2) show ?thesis by (auto simp: go_messages_def)
qed

lemma go_replies_mono:
  assumes "go_replies rd ok r a" "\<And>u. ok u \<Longrightarrow> ok' u"
  shows "go_replies rd ok' r a"
proof -
  have "go_reach rd ok' s" if "go_reach rd ok s" for s by (rule go_reach_mono [OF that assms(2)])
  with assms(1) show ?thesis unfolding go_replies_def by blast
qed

lemma rails_reach_mono:
  assumes "rails_reach env (go_messages rd ok) (go_replies rd ok) r" "\<And>u. ok u \<Longrightarrow> ok' u"
  shows "rails_reach env (go_messages rd ok') (go_replies rd ok') r"
proof -
  have "rails_step env (go_messages rd ok') (go_replies rd ok') x y"
    if "rails_step env (go_messages rd ok) (go_replies rd ok) x y" for x y
    by (rule rails_step_mono [OF that go_messages_mono [OF _ assms(2)] go_replies_mono [OF _ assms(2)]])
  then show ?thesis using assms(1) unfolding rails_reach_def by (blast intro: reach_mono)
qed

end
