(* ===== verification/SiteInv.thy ===== *)
theory SiteInv
  imports Site WorldRows
begin

text \<open>
  The invariant of the whole program: every part is in a state its own model reaches, every response on
  its way belongs to its call, every broadcast to the user of the connection, and what the page holds
  is backed by the tables: its stories are stored or were broadcast, its rows are requests.
\<close>

section \<open>What backs the data of the page\<close>

definition story_backed :: "rails \<Rightarrow> jsval \<Rightarrow> bool" where
  "story_backed s x \<longleftrightarrow> (\<exists>i \<in> set (item_table s). x = item_value i) \<or>
     (\<exists>c \<in> set (casts s). \<exists>item \<in> set (bc_items (snd c)). x = item_msg_value item)"

definition row_backed :: "rails \<Rightarrow> pending_request \<Rightarrow> bool" where
  "row_backed s r \<longleftrightarrow> (\<exists>q \<in> set (requests s). feed_request_id r = Num (int (rq_id q)) \<and> urls r = rq_urls q \<and>
     (status r = Str (lit ''pending'') \<or>
      (\<exists>c \<in> set (casts s). bc_request (snd c) = rq_id q \<and> status r = Str (bc_status (snd c)))))"

lemma backed_story: "story_backed s x \<Longrightarrow> story x"
  using item_value_story item_msg_story by (auto simp: story_backed_def)

lemma backed_row: "row_backed s r \<Longrightarrow> row_ok r"
  by (auto simp: row_backed_def row_ok_def text_or_null_def)

interpretation backed: page_data "story_backed s" "row_backed s" for s
  using backed_story backed_row by unfold_locales

lemma story_backed_mono: "rails_grows s t \<Longrightarrow> story_backed s x \<Longrightarrow> story_backed t x"
  by (auto simp: story_backed_def rails_grows_def)

lemma row_backed_mono:
  assumes "rails_grows s t" "row_backed s r"
  shows "row_backed t r"
proof -
  obtain q where q: "q \<in> set (requests s)" "feed_request_id r = Num (int (rq_id q))" "urls r = rq_urls q"
    and st: "status r = Str (lit ''pending'') \<or> (\<exists>c \<in> set (casts s). bc_request (snd c) = rq_id q \<and> status r = Str (bc_status (snd c)))"
    using assms(2) by (auto simp: row_backed_def)
  from q(1) assms(1) obtain q' where q': "q' \<in> set (requests t)" "rq_id q' = rq_id q" "rq_urls q' = rq_urls q"
    unfolding rails_grows_def by blast
  have "set (casts s) \<subseteq> set (casts t)" using assms(1) by (auto simp: rails_grows_def)
  with q q' st show ?thesis unfolding row_backed_def by (intro bexI [of _ q']) auto
qed

lemma page_backed_mono:
  "rails_grows s t \<Longrightarrow> page_sound (story_backed s) (row_backed s) p \<Longrightarrow> page_sound (story_backed t) (row_backed t) p"
  by (erule page_sound_mono) (auto intro: story_backed_mono row_backed_mono)

lemma fits_mono:
  "rails_grows s t \<Longrightarrow> fits (story_backed s) (row_backed s) k v \<Longrightarrow> fits (story_backed t) (row_backed t) k v"
  by (auto simp: fits_def items_fit_def all_of_def list_all_iff intro: story_backed_mono row_backed_mono split: call.splits)

section \<open>Responses and broadcasts\<close>

definition response_ok :: "rails \<Rightarrow> call \<Rightarrow> http_response \<Rightarrow> bool" where
  "response_ok s k r \<longleftrightarrow> rails_answers k (Inr r) \<and>
     (\<forall>v. finish_request (Inr r) = Inr v \<longrightarrow> fits (story_backed s) (row_backed s) k v)"

lemma response_ok_mono: "rails_grows s t \<Longrightarrow> response_ok s k r \<Longrightarrow> response_ok t k r"
  by (auto simp: response_ok_def intro: fits_mono)

lemma refused_ok: "\<not> rs_ok r \<Longrightarrow> response_ok s k r"
  by (auto simp: response_ok_def rails_answers_def refused_never)

lemma bodiless_ok: "bodiless r \<Longrightarrow> response_ok s CLogout r"
  by (auto simp: response_ok_def rails_answers_def fits_def items_fit_def prop_of_def dest: bodiless_value)

lemma index_items_table: "set (index_items u s) \<subseteq> set (item_table s)"
  by (auto simp: index_items_def Let_def)

lemma index_fits:
  assumes "rails_grows s t"
  shows "items_fit (story_backed t) (Obj [(lit ''items'', Arr (map item_value (index_items u s)))])"
proof -
  have "\<forall>i \<in> set (index_items u s). story_backed t (item_value i)"
    using index_items_table [of u s] assms by (auto simp: story_backed_def rails_grows_def)
  then show ?thesis by (simp add: items_fit_def all_of_def list_all_iff prop_of_def)
qed

text \<open>What a fulfilled answer of the controllers adds to the page.\<close>

lemma reply_fits:
  assumes "\<And>i us. k = CSubmit i us \<Longrightarrow> us \<noteq> [] \<Longrightarrow> snd (create_feeds u job (Urls us) s) = t"
    and "rails_grows s t" "finish_request (Inr (rails_reply u job mail k s)) = Inr v"
  shows "fits (story_backed t) (row_backed t) k v"
proof (cases k)
  case (CSubmit i us)
  with assms(3) have us: "us \<noteq> []" by (auto simp: create_answer)
  have v: "v = Obj [(lit ''feed_request_id'', Num (int (next_request s))), (lit ''job_id'', Str job),
      (lit ''status'', Str (lit ''pending'')), (lit ''mode'', Str (lit ''full''))]"
    using assms(3) CSubmit us by (simp add: create_answer)
  have t: "t = snd (create_feeds u job (Urls us) s)" using assms(1) CSubmit us by simp
  have "row_backed t (answer_row us v)"
    unfolding row_backed_def t v using us by (simp add: create_feeds_def answer_row_def prop_of_def)
  with CSubmit v show ?thesis by (simp add: fits_def items_fit_def prop_of_def)
qed (use assms(3) index_fits [OF assms(2)] in \<open>auto simp: index_answer other_answers fits_def, simp_all add: items_fit_def prop_of_def\<close>)

lemma create_grows: "rails_grows s (snd (create_feeds u job us s))"
  by (cases us) (auto simp: create_feeds_def rails_grows_def)

lemma served_ok:
  assumes "devise_ok d" "asks k q" "route_of q = Some e" "serve d job e user s = (r, user', t)"
  shows "response_ok t k r" "rails_grows s t"
proof -
  note sv = served [OF assms]
  show g: "rails_grows s t"
    using sv(2) create_grows grows_refl_rails by (metis snd_conv)
  have a: "addressed k e" using asks_routed [OF assms(2)] assms(3) by auto
  have "\<not> rs_ok r \<or> (k = CLogout \<and> bodiless r) \<or> (\<exists>u mail. r = rails_reply u job mail k s \<and>
      (\<forall>i us. k = CSubmit i us \<longrightarrow> snd (create_feeds u job (Urls us) s) = t))"
    using a assms(1,4)
    by (cases k) (auto simp: devise_ok_def authenticate_user_def case_prod_unfold split: option.splits)
  then show "response_ok t k r"
  proof (elim disjE)
    assume "\<exists>u mail. r = rails_reply u job mail k s \<and>
      (\<forall>i us. k = CSubmit i us \<longrightarrow> snd (create_feeds u job (Urls us) s) = t)"
    then obtain u mail where r: "r = rails_reply u job mail k s"
      and t: "\<And>i us. k = CSubmit i us \<Longrightarrow> snd (create_feeds u job (Urls us) s) = t" by blast
    have "fits (story_backed t) (row_backed t) k v" if "finish_request (Inr r) = Inr v" for v
      by (rule reply_fits [OF t g]) (use that r in simp_all)
    with sv(1) show ?thesis by (simp add: response_ok_def)
  qed (use refused_ok bodiless_ok in auto)
qed

definition site_answers :: "rails \<Rightarrow> call \<Rightarrow> outcome \<Rightarrow> bool" where
  "site_answers s k a \<longleftrightarrow> (case a of Inl text \<Rightarrow> True | Inr r \<Rightarrow> response_ok s k r)"

definition site_casts :: "rails \<Rightarrow> jsval \<Rightarrow> bool" where
  "site_casts s data \<longleftrightarrow> (\<exists>m \<in> snd ` set (casts s). data = cast_value m)"

lemma site_answers_fit:
  "site_answers s k a \<Longrightarrow> finish_request a = Inr v \<Longrightarrow> fits (story_backed s) (row_backed s) k v"
  by (auto simp: site_answers_def response_ok_def finish_request_def split: sum.splits)

lemma site_casts_fit:
  assumes "site_casts s data"
  shows "cast_fits (story_backed s) (row_backed s) data"
proof -
  obtain c where c: "c \<in> set (casts s)" "data = cast_value (snd c)" using assms by (auto simp: site_casts_def)
  have p: "\<not> nullish data" "prop_of data ''status'' = Str (bc_status (snd c))"
    "prop_of data ''feed_request_id'' = Num (int (bc_request (snd c)))"
    "prop_of data ''items'' = Arr (map item_msg_value (bc_items (snd c)))"
    by (simp_all add: c(2) cast_value_def prop_of_def)
  have "row_backed s (mark data r)" if "row_backed s r" for r
  proof (cases "feed_request_id r = Num (int (bc_request (snd c)))")
    case True
    with that obtain q where "q \<in> set (requests s)" "bc_request (snd c) = rq_id q" "urls r = rq_urls q"
      by (auto simp: row_backed_def)
    with True c(1) show ?thesis
      unfolding row_backed_def by (intro bexI [of _ q]) (auto simp: mark_def p strict_eq_primitive)
  next
    case False
    with that show ?thesis by (simp add: mark_def p strict_eq_primitive)
  qed
  moreover have "items_fit (story_backed s) data"
    using c(1) by (auto simp: items_fit_def p all_of_def list_all_iff story_backed_def)
  ultimately show ?thesis using p(1) by (simp add: cast_fits_def)
qed

lemma app_step_mono:
  assumes "app_step pl answers feeds s t" "\<And>k a. answers k a \<Longrightarrow> answers' k a" "\<And>v. feeds v \<Longrightarrow> feeds' v"
  shows "app_step pl answers' feeds' s t"
  using assms(1) by cases (auto intro: app_step.intros assms(2,3))

lemma site_step_page: "app_step pl (site_answers r) (site_casts r) s t \<Longrightarrow> app_step pl rails_answers rails_casts s t"
  by (erule app_step_mono)
    (auto simp: site_answers_def response_ok_def rails_answers_def site_casts_def rails_casts_def split: sum.splits)

section \<open>The wire\<close>

definition wired :: "rails \<Rightarrow> (http_request \<times> call) list \<Rightarrow> http_response option list \<Rightarrow> bool" where
  "wired s = list_all2 (\<lambda>c w. case w of None \<Rightarrow> True | Some r \<Rightarrow> response_ok s (snd c) r)"

lemma wired_mono: "rails_grows s t \<Longrightarrow> wired s cs ws \<Longrightarrow> wired t cs ws"
  unfolding wired_def by (erule list_all2_mono) (auto intro: response_ok_mono split: option.splits)

lemma wired_none: "wired s cs (replicate (length cs) None)"
  by (simp add: wired_def list_all2_conv_all_nth)

lemma wired_drop: "wired s cs ws \<Longrightarrow> wired s (drop_nth i cs) (drop_nth i ws)"
  unfolding wired_def drop_nth_def
  by (intro list_all2_appendI) (auto intro: list_all2_takeI list_all2_dropI)

lemma wired_update:
  assumes "wired s cs ws" "i < length cs" "response_ok s (snd (cs ! i)) r"
  shows "wired s cs (ws[i := Some r])"
proof -
  have "list_all2 (\<lambda>c w. case w of None \<Rightarrow> True | Some r \<Rightarrow> response_ok s (snd c) r) (cs[i := cs ! i]) (ws[i := Some r])"
    using assms unfolding wired_def by (intro list_all2_update_cong) simp_all
  then show ?thesis by (simp add: wired_def)
qed

lemma wired_adds:
  assumes "wired s cs ws" "adds cs p"
  shows "wired s (calls p) (ws @ replicate (length (calls p) - length ws) None)"
proof -
  obtain new where n: "calls p = cs @ new" using assms(2) by (auto simp: adds_def)
  have l: "length ws = length cs" using assms(1) by (simp add: wired_def list_all2_lengthD)
  show ?thesis
    using assms(1) wired_none [of s new] unfolding n l wired_def by (simp add: list_all2_appendI)
qed

lemma wired_nth: "wired s cs ws \<Longrightarrow> i < length cs \<Longrightarrow> ws ! i = Some r \<Longrightarrow> response_ok s (snd (cs ! i)) r"
  by (auto simp: wired_def list_all2_conv_all_nth split: option.splits)

section \<open>The invariant\<close>

definition queue_ok :: "site \<Rightarrow> bool" where
  "queue_ok s \<longleftrightarrow> (\<forall>m \<in> set (st_queue s). \<exists>u. st_conn s = Some u \<and> (u, m) \<in> set (casts (st_rails s)))"

definition site_ok :: "platform \<Rightarrow> rails_env \<Rightarrow> reader \<Rightarrow> (jsstr \<Rightarrow> bool) \<Rightarrow> site \<Rightarrow> bool" where
  "site_ok pl env rd out s \<longleftrightarrow>
     app_reach pl rails_answers rails_casts (st_page s) \<and>
     rails_reach env (go_messages rd (allowed out (st_rails s))) (go_replies rd (allowed out (st_rails s))) (st_rails s) \<and>
     go_reach rd (allowed out (st_rails s)) (st_go s) \<and>
     wired (st_rails s) (calls (st_page s)) (st_wire s) \<and> queue_ok s \<and>
     page_sound (story_backed (st_rails s)) (row_backed (st_rails s)) (st_page s)"

lemma site_page_calls: "routes_ok pl \<Longrightarrow> site_ok pl env rd out s \<Longrightarrow> calls_ok (calls (st_page s)) \<and> linked (st_page s)"
  using reach_calls_ok reach_placed by (auto simp: site_ok_def placed_def)

text \<open>A step of the page, with answers and broadcasts that are backed.\<close>

lemma site_ok_page:
  assumes "routes_ok pl" "site_ok pl env rd out s"
    and "app_step pl (site_answers (st_rails s)) (site_casts (st_rails s)) (st_page s) p"
    and "adds cs p" "wired (st_rails s) cs ws"
  shows "site_ok pl env rd out (set_page p ws s)"
proof -
  have "app_reach pl rails_answers rails_casts p"
    using assms(2) site_step_page [OF assms(3)] unfolding site_ok_def app_reach_def by (blast intro: reach_step)
  moreover have "page_sound (story_backed (st_rails s)) (row_backed (st_rails s)) p"
    by (rule backed.app_step_sound [OF _ _ _ _ assms(3)])
      (use site_page_calls [OF assms(1,2)] assms(2) site_answers_fit site_casts_fit in \<open>auto simp: site_ok_def\<close>)
  moreover have "wired (st_rails s) (calls p) (ws @ replicate (length (calls p) - length ws) None)"
    by (rule wired_adds [OF assms(5,4)])
  ultimately show ?thesis using assms(2) by (simp add: site_ok_def set_page_def queue_ok_def)
qed

text \<open>A step of the tables.\<close>

lemma queue_ok_rails: "queue_ok s \<Longrightarrow> rails_grows (st_rails s) r \<Longrightarrow> queue_ok (set_rails r s)"
  by (auto simp: queue_ok_def set_rails_def stream_of_def rails_grows_def split: option.splits) fastforce+

lemma site_ok_rails:
  assumes "site_ok pl env rd out s" "rails_grows (st_rails s) r"
    and "rails_reach env (go_messages rd (allowed out r)) (go_replies rd (allowed out r)) r"
  shows "site_ok pl env rd out (set_rails r s)"
proof -
  have "go_reach rd (allowed out r) (st_go s)"
    by (rule go_reach_mono [OF _ allowed_mono [OF assms(2)]]) (use assms(1) in \<open>auto simp: site_ok_def\<close>)
  then show ?thesis
    using assms queue_ok_rails [of s r] wired_mono [OF assms(2)] page_backed_mono [OF assms(2)]
    by (auto simp: site_ok_def) (simp_all add: set_rails_def)
qed

lemma site_ok_fields:
  "site_ok pl env rd out s \<Longrightarrow> site_ok pl env rd out (s\<lparr>st_session := u\<rparr>)"
  "site_ok pl env rd out s \<Longrightarrow> site_ok pl env rd out (s\<lparr>st_conn := c, st_queue := []\<rparr>)"
  "site_ok pl env rd out s \<Longrightarrow> set ms \<subseteq> set (st_queue s) \<Longrightarrow> site_ok pl env rd out (s\<lparr>st_queue := ms\<rparr>)"
  "site_ok pl env rd out s \<Longrightarrow> go_reach rd (allowed out (st_rails s)) g \<Longrightarrow> site_ok pl env rd out (s\<lparr>st_go := g\<rparr>)"
  "site_ok pl env rd out s \<Longrightarrow> wired (st_rails s) (calls (st_page s)) ws \<Longrightarrow> site_ok pl env rd out (s\<lparr>st_wire := ws\<rparr>)"
  by (auto simp: site_ok_def queue_ok_def)

lemma site_ok_open: "site_ok pl env rd out s \<Longrightarrow> site_ok pl env rd out (page_open pl p s)"
proof -
  assume s: "site_ok pl env rd out s"
  have "app_reach pl rails_answers rails_casts (app_init pl p)"
    unfolding app_reach_def by (rule reach_start) (auto simp: app_start_def)
  moreover have "page_sound S R (app_init pl p)" for S R
    by (simp add: page_sound_def app_init_def all_of_def)
  ultimately show ?thesis using s wired_none by (simp add: site_ok_def page_open_def queue_ok_def)
qed

section \<open>Every step keeps it\<close>

lemma rails_reach_step:
  assumes "rails_reach env msgs replies s" "rails_step env msgs replies s t"
  shows "rails_reach env msgs replies t"
  using assms unfolding rails_reach_def by (rule reach_step)

lemma site_serve_ok:
  assumes "routes_ok pl" "devise_ok d" "site_ok pl env rd out s" "i < length (calls (st_page s))"
    and "route_of (fst (calls (st_page s) ! i)) = Some e" "Some job \<notin> rq_job ` set (requests (st_rails s))"
    and "serve d job e (st_session s) (st_rails s) = (resp, session, r)"
  shows "site_ok pl env rd out ((set_rails r s)\<lparr>st_session := session, st_wire := (st_wire s)[i := Some resp]\<rparr>)"
proof -
  let ?R = "st_rails s" and ?k = "snd (calls (st_page s) ! i)"
  have k: "asks ?k (fst (calls (st_page s) ! i))"
    using site_page_calls [OF assms(1,3)] nth_mem [OF assms(4)] by (auto simp: calls_ok_def split: prod.splits)
  note ok = served_ok [OF assms(2) k assms(5,7)] and sv = served(2) [OF assms(2) k assms(5,7)]
  have old: "rails_reach env (go_messages rd (allowed out r)) (go_replies rd (allowed out r)) ?R"
    by (rule rails_reach_mono [OF _ allowed_mono [OF ok(2)]]) (use assms(3) in \<open>auto simp: site_ok_def\<close>)
  have reach: "rails_reach env (go_messages rd (allowed out r)) (go_replies rd (allowed out r)) r"
    using sv
  proof
    assume "\<exists>u i us. ?k = CSubmit i us \<and> st_session s = Some u \<and> create_feeds u job (Urls us) ?R = (resp, r)"
    then obtain u us where "r = snd (create_feeds u job (Urls us) ?R)" by (metis snd_conv)
    with rs_create [OF assms(6)] old show ?thesis by (auto intro: rails_reach_step)
  qed (use old in simp)
  have t: "site_ok pl env rd out (set_rails r s)" by (rule site_ok_rails [OF assms(3) ok(2) reach])
  have f: "calls (st_page (set_rails r s)) = calls (st_page s)" "st_wire (set_rails r s) = st_wire s" "st_rails (set_rails r s) = r"
    by (simp_all add: set_rails_def)
  have "wired r (calls (st_page s)) (st_wire s)" using t by (simp add: site_ok_def f)
  from wired_update [OF this assms(4) ok(1)]
  have "wired (st_rails (set_rails r s)) (calls (st_page (set_rails r s))) ((st_wire s)[i := Some resp])"
    by (simp add: f)
  with site_ok_fields(5) [OF site_ok_fields(1) [OF t], of session "(st_wire s)[i := Some resp]"] show ?thesis by simp
qed

lemma site_answer_ok:
  assumes "routes_ok pl" "site_ok pl env rd out s" "i < length (calls (st_page s))"
    and "site_answers (st_rails s) (snd (calls (st_page s) ! i)) a"
  shows "site_ok pl env rd out (set_page (commit pl (answer_call pl i a (st_page s))) (drop_nth i (st_wire s)) s)"
proof (rule site_ok_page [OF assms(1,2)])
  show "app_step pl (site_answers (st_rails s)) (site_casts (st_rails s)) (st_page s)
      (commit pl (answer_call pl i a (st_page s)))"
    by (rule as_answer) (rule assms(3,4))+
  show "adds (drop_nth i (calls (st_page s))) (commit pl (answer_call pl i a (st_page s)))"
    by (rule commit_adds [OF answer_adds])
  show "wired (st_rails s) (drop_nth i (calls (st_page s))) (drop_nth i (st_wire s))"
    using assms(2) by (intro wired_drop) (simp add: site_ok_def)
qed

lemma site_rails_ok:
  assumes "site_ok pl env rd out s"
    and "rails_step env (\<lambda>m. m \<in> set (sv_results (st_go s))) replies (st_rails s) r"
    and "\<And>q reply. replies q reply \<Longrightarrow> go_replies rd (allowed out (st_rails s)) q reply"
  shows "site_ok pl env rd out (set_rails r s)"
proof (rule site_ok_rails [OF assms(1)])
  have "rails_step env (go_messages rd (allowed out (st_rails s))) (go_replies rd (allowed out (st_rails s))) (st_rails s) r"
    by (rule rails_step_mono [OF assms(2)]) (use assms(1,3) in \<open>auto simp: site_ok_def go_messages_def\<close>)
  with assms(1) have "rails_reach env (go_messages rd (allowed out (st_rails s))) (go_replies rd (allowed out (st_rails s))) r"
    by (auto simp: site_ok_def intro: rails_reach_step)
  then show "rails_reach env (go_messages rd (allowed out r)) (go_replies rd (allowed out r)) r"
    by (rule rails_reach_mono [OF _ allowed_mono [OF rails_step_grows [OF assms(2)]]])
qed (rule rails_step_grows [OF assms(2)])

lemma site_step_ok:
  assumes "routes_ok pl" "devise_ok d" "site_ok pl env rd out s" "site_step pl d env rd out s t"
  shows "site_ok pl env rd out t"
  using assms(4)
proof (cases rule: site_step.cases)
  case (ss_page p)
  have "app_step pl (site_answers (st_rails s)) (site_casts (st_rails s)) (st_page s) p"
    by (rule app_step_mono [OF ss_page(2)]) simp_all
  moreover have "adds (calls (st_page s)) p"
    using app_step_adds [OF _ ss_page(2)] site_page_calls [OF assms(1,3)] by simp
  ultimately show ?thesis
    unfolding ss_page(1) by (rule site_ok_page [OF assms(1,3)]) (use assms(3) in \<open>simp add: site_ok_def\<close>)
next
  case (ss_serve i e job resp session r)
  show ?thesis unfolding ss_serve(1) by (rule site_serve_ok [OF assms(1-3) ss_serve(2,4-6)])
next
  case (ss_refuse i resp)
  show ?thesis
    unfolding ss_refuse(1)
    by (rule site_ok_fields(5) [OF assms(3) wired_update])
      (use assms(3) ss_refuse(2) refused_ok [OF ss_refuse(4)] in \<open>auto simp: site_ok_def\<close>)
next
  case (ss_answer i resp)
  have "site_answers (st_rails s) (snd (calls (st_page s) ! i)) (Inr resp)"
    using wired_nth [OF _ ss_answer(2,3)] assms(3) by (simp add: site_answers_def site_ok_def)
  then show ?thesis unfolding ss_answer(1) by (rule site_answer_ok [OF assms(1,3) ss_answer(2)])
next
  case (ss_lost i msg)
  show ?thesis
    unfolding ss_lost(1) by (rule site_answer_ok [OF assms(1,3) ss_lost(2)]) (simp add: site_answers_def)
next
  case (ss_receive m ms)
  have "site_casts (st_rails s) (cast_value m)"
    using assms(3) ss_receive(2) by (auto simp: site_ok_def queue_ok_def site_casts_def) force
  then have "app_step pl (site_answers (st_rails s)) (site_casts (st_rails s)) (st_page s)
      (commit pl (receive (cast_value m) (st_page s)))"
    by (rule as_broadcast)
  moreover have "adds (calls (st_page s)) (commit pl (receive (cast_value m) (st_page s)))"
    using site_page_calls [OF assms(1,3)] by (intro commit_adds receive_adds) simp
  ultimately have "site_ok pl env rd out (set_page (commit pl (receive (cast_value m) (st_page s))) (st_wire s) s)"
    by (rule site_ok_page [OF assms(1,3)]) (use assms(3) in \<open>simp add: site_ok_def\<close>)
  then show ?thesis unfolding ss_receive(1) by (rule site_ok_fields(3)) (use ss_receive(2) in \<open>auto simp: set_page_def\<close>)
next
  case (ss_rails r)
  show ?thesis unfolding ss_rails(1) by (rule site_rails_ok [OF assms(3) ss_rails(2)]) (auto simp: go_replies_def)
next
  case (ss_fallback i rid q job rs valid header wr hup ulid reply g up)
  have g: "go_reach rd (allowed out (st_rails s)) (st_go s)" using assms(3) by (simp add: site_ok_def)
  have e: "reply = fst (serve_parse valid header (\<lambda>_. reader_parse rd rs) wr hup ulid (Some (job, rq_urls q)) (st_go s))"
    "g = snd (serve_parse valid header (\<lambda>_. reader_parse rd rs) wr hup ulid (Some (job, rq_urls q)) (st_go s))"
    using ss_fallback(9) by simp_all
  have "go_replies rd (allowed out (st_rails s)) q reply"
    unfolding go_replies_def e(1) using g ss_fallback(6-8) by blast
  with ss_fallback(2-5) have "rails_step env (\<lambda>m. m \<in> set (sv_results (st_go s))) (go_replies rd (allowed out (st_rails s))) (st_rails s)
      (snd (execute_fallback env up reply q (drop_task i (st_rails s))))"
    by (rule rs_fallback)
  then have t: "site_ok pl env rd out (set_rails (snd (execute_fallback env up reply q (drop_task i (st_rails s)))) s)"
    by (rule site_rails_ok [OF assms(3)])
  have "\<forall>u \<in> set (rq_urls q). allowed out (st_rails s) u"
    using ss_fallback(4) by (auto simp: allowed_def submitted_def)
  then have "go_step rd (allowed out (st_rails s)) (st_go s) g"
    unfolding e(2) by (rule gs_request) (rule ss_fallback(8))
  with g have "go_reach rd (allowed out (st_rails s)) g" unfolding go_reach_def by (rule reach_step)
  then have "go_reach rd (allowed out (snd (execute_fallback env up reply q (drop_task i (st_rails s))))) g"
    by (rule go_reach_mono [OF _ allowed_mono [OF keepsD [OF grows_fallback grows_task(1)]]])
  then show ?thesis unfolding ss_fallback(1) by (intro site_ok_fields(4) [OF t]) (simp add: set_rails_def)
next
  case (ss_go g)
  then have "go_reach rd (allowed out (st_rails s)) g" using assms(3) unfolding site_ok_def go_reach_def by (blast intro: reach_step)
  then show ?thesis unfolding ss_go(1) by (rule site_ok_fields(4) [OF assms(3)])
qed (use assms(3) site_ok_fields(1,2) site_ok_open in auto)

lemma site_start_ok: "site_start pl s \<Longrightarrow> site_ok pl env rd out s"
proof -
  assume "site_start pl s"
  then obtain p user where s: "s = page_open pl p
     \<lparr>st_page = app_init pl p, st_session = user, st_conn = None, st_queue = [], st_wire = [],
      st_rails = rails_init, st_go = service_init\<rparr>"
    unfolding site_start_def by blast
  have "app_reach pl rails_answers rails_casts (app_init pl p)"
    unfolding app_reach_def by (rule reach_start) (auto simp: app_start_def)
  moreover have "rails_reach env msgs replies rails_init" for msgs replies
    by (simp add: rails_reach_def reach_start)
  moreover have "go_reach rd ok service_init" for ok by (simp add: go_reach_def reach_start)
  moreover have "page_sound S R (app_init pl p)" for S R
    by (simp add: page_sound_def app_init_def all_of_def)
  ultimately show ?thesis using wired_none by (simp add: s site_ok_def page_open_def queue_ok_def)
qed

interpretation site: inductive_invariant "site_start pl"
    "\<lambda>s t. (routes_ok pl \<and> devise_ok d) \<and> site_step pl d env rd out s t" "site_ok pl env rd out"
  using site_start_ok site_step_ok by unfold_locales blast+

lemma site_reach_ok: "routes_ok pl \<Longrightarrow> devise_ok d \<Longrightarrow> site_reach pl d env rd out s \<Longrightarrow> site_ok pl env rd out s"
  unfolding site_reach_def
  by (rule site.reachable_inv [of pl d env rd out]) (blast intro: reach_mono)

end
