(* ===== verification/Pipeline.thy ===== *)
theory Pipeline
  imports GoFacts DashFacts FullStack
begin

text \<open>
  The way of an item through the whole program: what a job holds, what the Rails job stores and
  broadcasts, and what the page shows.
\<close>

section \<open>What a job delivers\<close>

text \<open>A link is in the cache under one of the URLs, or an item with it has arrived.\<close>

definition delivered :: "url_cache \<Rightarrow> jsstr list \<Rightarrow> arrival list \<Rightarrow> jsstr \<Rightarrow> bool" where
  "delivered cache us rs l \<longleftrightarrow>
     (\<exists>m \<in> set (cached_items cache us). field ''link'' m = Some l) \<or> (\<exists>i \<in> set (arrived_items rs). gi_link i = l)"

lemma reader_links:
  assumes "sorts_items rd"
  shows "gi_link ` set (fst (reader_parse rd rs)) = gi_link ` set (arrived_items rs)"
proof (intro equalityI subsetI)
  fix l assume "l \<in> gi_link ` set (arrived_items rs)"
  then have "filter (\<lambda>i. gi_link i = l) (arrived_items rs) \<noteq> []" by (auto simp: filter_empty_conv)
  then have "filter (\<lambda>i. gi_link i = l) (dedup_seen [] (arrived_items rs)) \<noteq> []" by (auto simp: filter_dedup_seen)
  then show "l \<in> gi_link ` set (fst (reader_parse rd rs))"
    by (auto simp: filter_empty_conv reader_parse_def deduplicate_def sorts_set [OF assms])
qed (use set_dedup in \<open>fastforce simp: reader_parse_def deduplicate_def sorts_set [OF assms]\<close>)

lemma run_job_links:
  assumes "sorts_items rd" "arrivals rd (urls_to_fetch cache us) rs"
  shows "Some l \<in> field ''link'' ` set (jr_items (fst (run_job (\<lambda>_. reader_parse rd rs) wr cache us))) \<longleftrightarrow>
    delivered cache us rs l"
proof -
  have e: "fst (reader_parse rd rs) = []" if "urls_to_fetch cache us = []"
  proof -
    have "rs = []" using arrivals_length [OF assms(2)] that by simp
    then show ?thesis using sorts_empty [OF assms(1)] by (simp add: reader_parse_def deduplicate_def arrived_items_def)
  qed
  then have "jr_items (fst (run_job (\<lambda>_. reader_parse rd rs) wr cache us)) =
      cached_items cache us @ map job_item (fst (reader_parse rd rs))"
    by (simp add: run_job_def Let_def)
  then have "field ''link'' ` set (jr_items (fst (run_job (\<lambda>_. reader_parse rd rs) wr cache us))) =
      field ''link'' ` set (cached_items cache us) \<union> Some ` gi_link ` set (arrived_items rs)"
    by (simp add: image_Un image_image flip: reader_links [OF assms(1)])
  moreover have "Some l \<in> f ` S \<longleftrightarrow> (\<exists>x \<in> S. f x = Some l)" for S and f :: "item_msg \<Rightarrow> jsstr option"
    by (simp add: image_iff eq_commute)
  ultimately show ?thesis by (auto simp: delivered_def)
qed

lemma published:
  assumes "process_job parse wr up job us s = (True, t)" "up_publish up \<noteq> None"
  shows "sv_results t = sv_results s @ [result_message job (fst (run_job parse wr (sv_cache s) us))]"
proof -
  obtain r cache where "run_job parse wr (sv_cache s) us = (r, cache)" by fastforce
  with assms show ?thesis
    by (auto simp: process_job_def set_job_def Let_def split: if_splits option.splits bool.splits)
qed

section \<open>From the job to the page\<close>

lemma result_shown:
  assumes "work_find m s = Some r" "open_status (rq_status r)" "rm_status m = Some (lit ''done'')"
    and "fst (work env up (Some m) s) = Inr Ack"
    and "dash p = Some inst" "feedItems p = Arr olds" "list_all linkable olds"
  shows "casts (snd (work env up (Some m) s)) = casts s @ [(rq_user r, cast_of r m)]"
    "feedItems (snd (handleBroadcastMessage inst (cast_value (cast_of r m)) p)) =
      Arr (filter (\<lambda>x. link_of x \<notin> link_of ` set olds) (map item_msg_value (or_empty (rm_items m))) @ olds)"
    "pendingRequests (snd (handleBroadcastMessage inst (cast_value (cast_of r m)) p)) =
      map (\<lambda>q. if feed_request_id q = Num (int (rq_id r)) then q\<lparr>status := Str (lit ''done'')\<rparr> else q) (pendingRequests p)"
proof -
  show "casts (snd (work env up (Some m) s)) = casts s @ [(rq_user r, cast_of r m)]"
    by (rule work_finish_cases [of env up r m "claimed m (lit ''done'') s"])
      (use assms(4) in \<open>simp_all add: work_some [OF assms(1-3)] request_view_def claimed_def set_request_def\<close>)
  define news where "news = map item_msg_value (or_empty (rm_items m))"
  have d: "\<not> nullish (cast_value (cast_of r m))" "prop_of (cast_value (cast_of r m)) ''status'' = Str (lit ''done'')"
    "prop_of (cast_value (cast_of r m)) ''feed_request_id'' = Num (int (rq_id r))"
    "prop_of (cast_value (cast_of r m)) ''items'' = Arr news"
    using assms(3) by (simp_all add: cast_value_def cast_of_def prop_of_def news_def)
  have l: "list_all linkable news"
    using item_msg_story story_linkable by (auto simp: news_def list_all_iff)
  show "feedItems (snd (handleBroadcastMessage inst (cast_value (cast_of r m)) p)) =
      Arr (filter (\<lambda>x. link_of x \<notin> link_of ` set olds) (map item_msg_value (or_empty (rm_items m))) @ olds)"
    using broadcast_feed [OF d(1,2,4) l assms(6,7)] by (simp add: news_def)
  show "pendingRequests (snd (handleBroadcastMessage inst (cast_value (cast_of r m)) p)) =
      map (\<lambda>q. if feed_request_id q = Num (int (rq_id r)) then q\<lparr>status := Str (lit ''done'')\<rparr> else q) (pendingRequests p)"
    using broadcast_table(1) [OF d(1), of inst p] assms(5)
    by (simp add: after_timer_def Let_def mark_def [abs_def] d(2,3) strict_eq_primitive)
qed

lemma job_item_link: "link_of (item_msg_value (job_item i)) = Str (gi_link i)"
  by (simp add: link_of_def item_msg_value_def job_item_def text_value_def lit_eq_iff)

lemma run_job_done: "jr_items (fst (run_job parse wr c us)) \<noteq> [] \<Longrightarrow> jr_status (fst (run_job parse wr c us)) = lit ''done''"
  by (auto simp: run_job_def Let_def)

text \<open>A published message is one of the messages of the service.\<close>

lemma published_message:
  assumes "go_reach rd ok s" "\<forall>u \<in> set us. ok u" "arrivals rd (urls_to_fetch (sv_cache s) us) rs"
    and "process_job (\<lambda>_. reader_parse rd rs) wr up job us s = (True, t)" "up_publish up \<noteq> None"
  shows "last (sv_results t) = result_message job (fst (run_job (\<lambda>_. reader_parse rd rs) wr (sv_cache s) us))"
    "go_messages rd ok (last (sv_results t))"
proof -
  note p = published [OF assms(4,5)]
  then show "last (sv_results t) = result_message job (fst (run_job (\<lambda>_. reader_parse rd rs) wr (sv_cache s) us))" by simp
  have "go_step rd ok s t" using gs_command [OF assms(2,3), of wr up job] assms(4) by simp
  with assms(1) have "go_reach rd ok t" unfolding go_reach_def by (rule reach_step)
  moreover have "last (sv_results t) \<in> set (sv_results t)" using p by simp
  ultimately show "go_messages rd ok (last (sv_results t))" by (auto simp: go_messages_def)
qed

end
