(* ===== verification/Provenance.thy ===== *)
theory Provenance
  imports SiteInv Pipeline
begin

text \<open>
  Where the stories come from: every item in the tables, the jobs and the broadcasts of the Rails side is
  an item the Go service has read from a feed it was asked for, so every story the page shows is one.
\<close>

section \<open>Items on the Rails side\<close>

definition result_items :: "(item_msg \<Rightarrow> bool) \<Rightarrow> result_msg \<Rightarrow> bool" where
  "result_items P m \<longleftrightarrow> (\<forall>item \<in> set (or_empty (rm_items m)). P item)"

fun task_items :: "(item_msg \<Rightarrow> bool) \<Rightarrow> task \<Rightarrow> bool" where
  "task_items P (ClaimResult r m) = result_items P m"
| "task_items P (StoreResult r m) = result_items P m"
| "task_items P _ = True"

definition row_item :: "(item_msg \<Rightarrow> bool) \<Rightarrow> stored_item \<Rightarrow> bool" where
  "row_item P i \<longleftrightarrow> (\<exists>env fid item. P item \<and> i = item_attributes env fid item)"

definition rails_items :: "(item_msg \<Rightarrow> bool) \<Rightarrow> rails \<Rightarrow> bool" where
  "rails_items P s \<longleftrightarrow> (\<forall>t \<in> set (tasks s). task_items P t) \<and>
     (\<forall>c \<in> set (casts s). \<forall>item \<in> set (bc_items (snd c)). P item) \<and> (\<forall>i \<in> set (item_table s). row_item P i)"

lemma rails_items_mono:
  assumes "rails_items P s" "\<And>item. P item \<Longrightarrow> Q item"
  shows "rails_items Q s"
proof -
  have "task_items Q t" if "task_items P t" for t
    using that assms(2) by (cases t) (auto simp: result_items_def)
  moreover have "row_item Q i" if "row_item P i" for i using that assms(2) by (auto simp: row_item_def)
  ultimately show ?thesis using assms by (auto simp: rails_items_def)
qed

lemma items_same:
  "rails_items P s \<Longrightarrow> set (tasks t) \<subseteq> set (tasks s) \<Longrightarrow> casts t = casts s \<Longrightarrow> item_table t = item_table s \<Longrightarrow> rails_items P t"
  by (auto simp: rails_items_def)

lemma items_keeps [keeps_rules]:
  "keeps (rails_items P) (find_or_create_feed url title)" "keeps (rails_items P) (link_feed rid fid)"
  "keeps (rails_items P) (update_request rid job st)" "keeps (rails_items P) (publish_command r)"
  by (auto simp: keeps_def find_or_create_feed_def link_feed_def update_request_def set_request_def publish_command_def
      modify_def rails_items_def split: option.split)

lemma items_broadcast [keeps_rules]:
  "(\<And>item. item \<in> set (bc_items m) \<Longrightarrow> P item) \<Longrightarrow> keeps (rails_items P) (broadcast user m)"
  by (auto simp: keeps_def broadcast_def modify_def rails_items_def)

lemma items_insert:
  assumes "\<forall>item \<in> set its. P item"
  shows "keeps (rails_items P) (modify (\<lambda>s. s\<lparr>item_table := insert_all (map (item_attributes env fid) its) (item_table s)\<rparr>))"
proof (rule keeps_modify)
  fix s assume s: "rails_items P s"
  have "row_item P i" if "i \<in> set (insert_all (map (item_attributes env fid) its) (item_table s))" for i
  proof -
    from that insert_all_set(2) have "i \<in> set (item_table s) \<or> i \<in> item_attributes env fid ` set its" by fastforce
    with s assms show ?thesis by (auto simp: rails_items_def row_item_def)
  qed
  with s show "rails_items P (s\<lparr>item_table := insert_all (map (item_attributes env fid) its) (item_table s)\<rparr>)"
    by (simp add: rails_items_def)
qed

lemma items_groups:
  "\<forall>g \<in> set gs. \<forall>item \<in> set (snd g). P item \<Longrightarrow> keeps (rails_items P) (store_groups env up rid gs)"
  by (induction gs) (auto simp: store_group_def intro!: keeps_rules items_insert)

lemma items_store: "\<forall>item \<in> set items. P item \<Longrightarrow> keeps (rails_items P) (store_items env up rid items)"
  unfolding store_items_def by (rule items_groups) (auto simp: group_by_def)

lemma items_finish: "result_items P m \<Longrightarrow> keeps (rails_items P) (work_finish env up r m)"
  unfolding work_finish_def result_items_def by (intro keeps_rules items_store) auto

lemma items_fallback:
  assumes "\<And>m. reply = Reply 200 (Some m) \<Longrightarrow> result_items P m"
  shows "keeps (rails_items P) (execute_fallback env up reply r)"
proof (cases reply)
  case (NoReply e)
  then show ?thesis unfolding execute_fallback_def by (auto intro!: keeps_rules)
next
  case (Reply code body)
  have "keeps (rails_items P) (store_items env up (rq_id r) (or_empty (rm_items m)))"
    if "code = 200" "body = Some m" for m
    using assms that Reply by (intro items_store) (simp add: result_items_def)
  moreover have "P item" if "code = 200" "body = Some m" "item \<in> set (or_empty (rm_items m))" for m item
    using assms that Reply by (simp add: result_items_def)
  ultimately show ?thesis
    unfolding execute_fallback_def by (auto simp: Reply intro!: keeps_rules split: option.split)
qed

lemma items_tasks:
  "rails_items P s \<Longrightarrow> rails_items P (drop_task i s)"
  "rails_items P s \<Longrightarrow> task_items P x \<Longrightarrow> rails_items P (add_task x s)"
  using set_drop_nth by (fastforce simp: drop_task_def add_task_def rails_items_def)+

lemma items_task: "rails_items P s \<Longrightarrow> i < length (tasks s) \<Longrightarrow> task_items P (tasks s ! i)"
  by (simp add: rails_items_def)

lemma items_set_request: "rails_items P (set_request p f s) = rails_items P s"
  by (simp add: rails_items_def set_request_def)

lemma rails_step_items:
  assumes "rails_step env msgs replies s t" "rails_items P s"
    and "\<And>m. msgs m \<Longrightarrow> result_items P m" "\<And>r m. replies r (Reply 200 (Some m)) \<Longrightarrow> result_items P m"
  shows "rails_items P t"
  using assms(1)
proof (cases rule: rails_step.cases)
  case (rs_create job user us)
  have "rails_items P (snd (create_feeds user job us s))"
    using assms(2) by (cases us) (auto simp: create_feeds_def rails_items_def)
  with rs_create show ?thesis by simp
next
  case (rs_publish i rid r)
  show ?thesis
    unfolding rs_publish(1) by (intro items_tasks(2) keepsD [OF items_keeps(4)] items_tasks(1) assms(2)) simp
next
  case (rs_fallback i rid r reply up)
  show ?thesis
    unfolding rs_fallback(1)
    by (intro keepsD [OF items_fallback] items_tasks(1) assms(2)) (use rs_fallback(6) assms(4) in blast)
next
  case (rs_mark i r)
  show ?thesis
    unfolding rs_mark(1) using items_tasks(1) [OF assms(2)]
    by (simp add: mark_processing_def modify_def items_set_request)
next
  case (rs_deliver m r)
  show ?thesis unfolding rs_deliver(1) by (rule items_tasks(2) [OF assms(2)]) (simp add: assms(3) rs_deliver(2))
next
  case (rs_claim i r m)
  have m: "result_items P m" using items_task [OF assms(2) rs_claim(2)] rs_claim(3) by simp
  have "rails_items P (snd (work_claim m (drop_task i s)))"
    using items_tasks(1) [OF assms(2)] by (auto simp: work_claim_def items_set_request split: option.split)
  then show ?thesis
    unfolding rs_claim(1) claim_result_def
    using m by (auto intro!: items_tasks(2) split: prod.splits sum.splits bool.splits)
next
  case (rs_store i r m up)
  have "result_items P m" using items_task [OF assms(2) rs_store(2)] rs_store(3) by simp
  then show ?thesis unfolding rs_store(1) by (intro keepsD [OF items_finish] items_tasks(1) assms(2))
qed

section \<open>In the whole program\<close>

definition sourced :: "reader \<Rightarrow> (jsstr \<Rightarrow> bool) \<Rightarrow> site \<Rightarrow> bool" where
  "sourced rd out s \<longleftrightarrow> rails_items (item_from rd (allowed out (st_rails s))) (st_rails s)"

lemma item_from_mono: "item_from rd ok m \<Longrightarrow> (\<And>u. ok u \<Longrightarrow> ok' u) \<Longrightarrow> item_from rd ok' m"
  by (auto simp: item_from_def)

lemma sourced_rails:
  assumes "rails_items (item_from rd (allowed out (st_rails s))) r" "rails_grows (st_rails s) r"
  shows "sourced rd out (set_rails r s)"
proof -
  have "item_from rd (allowed out r) item" if "item_from rd (allowed out (st_rails s)) item" for item
    by (rule item_from_mono [OF that allowed_mono [OF assms(2)]])
  then have "rails_items (item_from rd (allowed out r)) r" by (rule rails_items_mono [OF assms(1)])
  then show ?thesis by (simp add: sourced_def set_rails_def)
qed

lemma reply_items:
  assumes "sorts_items rd" "go_reach rd ok g" "\<forall>u \<in> set us. ok u" "arrivals rd (urls_to_fetch (sv_cache g) us) rs"
    and "fst (serve_parse valid header (\<lambda>_. reader_parse rd rs) wr hup ulid (Some (j, us)) g) = Reply 200 (Some m)" "j \<noteq> []"
  shows "result_items (item_from rd ok) m"
proof -
  have "cache_ok rd (sv_cache g)" using go_reach_ok [OF assms(1,2)] by (simp add: service_ok_def)
  from result_message_from [OF this assms(1,4,3), of j wr] serve_parse_reply [OF assms(5,6)]
  show ?thesis by (simp add: result_from_def result_items_def)
qed

lemma sourced_frame: "sourced rd out s \<Longrightarrow> st_rails t = st_rails s \<Longrightarrow> sourced rd out t"
  by (simp add: sourced_def)

lemma site_step_sourced:
  assumes "routes_ok pl" "devise_ok d" "sorts_items rd" "site_ok pl env rd out s" "sourced rd out s"
    and "site_step pl d env rd out s t"
  shows "sourced rd out t"
  using assms(6)
proof (cases rule: site_step.cases)
  case (ss_serve i e job resp session r)
  have k: "asks (snd (calls (st_page s) ! i)) (fst (calls (st_page s) ! i))"
    using site_page_calls [OF assms(1,4)] nth_mem [OF ss_serve(2)] by (auto simp: calls_ok_def split: prod.splits)
  have "rails_items (item_from rd (allowed out (st_rails s))) r"
    using served(2) [OF assms(2) k ss_serve(4,6)] assms(5)
    by (auto simp: sourced_def create_feeds_def rails_items_def split: if_splits)
  then have "sourced rd out (set_rails r s)"
    by (rule sourced_rails) (rule served_ok(2) [OF assms(2) k ss_serve(4,6)])
  then show ?thesis by (rule sourced_frame) (simp add: ss_serve(1))
next
  case (ss_rails r)
  have g: "service_ok rd (allowed out (st_rails s)) (st_go s)"
    by (rule go_reach_ok [OF assms(3)]) (use assms(4) in \<open>auto simp: site_ok_def\<close>)
  have "rails_items (item_from rd (allowed out (st_rails s))) r"
    by (rule rails_step_items [OF ss_rails(2)])
      (use g assms(5) in \<open>auto simp: sourced_def service_ok_def result_from_def result_items_def\<close>)
  then show ?thesis unfolding ss_rails(1) by (rule sourced_rails) (rule rails_step_grows [OF ss_rails(2)])
next
  case (ss_fallback i rid q job rs valid header wr hup ulid reply g up)
  have g: "go_reach rd (allowed out (st_rails s)) (st_go s)" using assms(4) by (auto simp: site_ok_def)
  have u: "\<forall>u \<in> set (rq_urls q). allowed out (st_rails s) u"
    using ss_fallback(4) by (auto simp: allowed_def submitted_def)
  have e: "fst (serve_parse valid header (\<lambda>_. reader_parse rd rs) wr hup ulid (Some (job, rq_urls q)) (st_go s)) = reply"
    using ss_fallback(9) by simp
  have "rails_items (item_from rd (allowed out (st_rails s))) (snd (execute_fallback env up reply q (drop_task i (st_rails s))))"
    by (intro keepsD [OF items_fallback] items_tasks(1))
      (use reply_items [OF assms(3) g u ss_fallback(8)] e ss_fallback(7) assms(5) in \<open>auto simp: sourced_def\<close>)
  then have "sourced rd out (set_rails (snd (execute_fallback env up reply q (drop_task i (st_rails s)))) s)"
    by (rule sourced_rails) (rule keepsD [OF grows_fallback grows_task(1)])
  then show ?thesis by (rule sourced_frame) (simp add: ss_fallback(1))
qed (auto intro: sourced_frame [OF assms(5)] simp: set_page_def page_open_def)

interpretation sources: strengthened_invariant "site_start pl"
    "\<lambda>s t. (routes_ok pl \<and> devise_ok d \<and> sorts_items rd) \<and> site_step pl d env rd out s t" "site_ok pl env rd out"
    "sourced rd out"
proof unfold_locales
  show "site_start pl s \<Longrightarrow> site_ok pl env rd out s" for s by (rule site_start_ok)
  show "sourced rd out s" if "site_start pl s" for s
    using that by (auto simp: site_start_def page_open_def sourced_def rails_items_def rails_init_def)
qed (use site_step_ok site_step_sourced in blast)+

lemma site_reach_sourced:
  "routes_ok pl \<Longrightarrow> devise_ok d \<Longrightarrow> sorts_items rd \<Longrightarrow> site_reach pl d env rd out s \<Longrightarrow> sourced rd out s"
  unfolding site_reach_def
  by (rule sources.reachable_extra [of pl d rd env out]) (blast intro: reach_mono)

text \<open>A story of the page that shows an item: its title, link and description, and the title and the URL of its feed.\<close>

definition shows_item :: "jsval \<Rightarrow> go_item \<Rightarrow> bool" where
  "shows_item x i \<longleftrightarrow> link_of x = Str (gi_link i) \<and> prop_of x ''title'' = Str (gi_title i) \<and>
     prop_of x ''description'' = Str (gi_description i) \<and> prop_of x ''source'' = Str (gi_source i) \<and>
     prop_of x ''source_url'' = Str (gi_source_url i)"

text \<open>A story that is backed by sourced tables shows an item that the service has read from a feed.\<close>

definition story_from :: "reader \<Rightarrow> (jsstr \<Rightarrow> bool) \<Rightarrow> jsval \<Rightarrow> bool" where
  "story_from rd ok x \<longleftrightarrow> (\<exists>i. shows_item x i \<and> fed rd i \<and> ok (gi_source_url i))"

lemma job_item_shown:
  "shows_item (item_msg_value (job_item i)) i" "shows_item (item_value (item_attributes env fid (job_item i))) i"
  by (simp_all add: shows_item_def link_of_def prop_of_def item_msg_value_def item_value_def item_attributes_def
      field_def job_item_def text_value_def lit_eq_iff)

lemma item_story_from:
  assumes "item_from rd ok m"
  shows "story_from rd ok (item_msg_value m)" "story_from rd ok (item_value (item_attributes env fid m))"
proof -
  obtain i where "m = job_item i" "ok (gi_source_url i)" "fed rd i" using assms by (auto simp: item_from_def)
  then show "story_from rd ok (item_msg_value m)" "story_from rd ok (item_value (item_attributes env fid m))"
    using job_item_shown unfolding story_from_def by blast+
qed

lemma backed_from: "rails_items (item_from rd ok) r \<Longrightarrow> story_backed r x \<Longrightarrow> story_from rd ok x"
  by (auto simp: story_backed_def rails_items_def row_item_def intro: item_story_from)

end
