(* ===== verification/SiteRuns.thy ===== *)
theory SiteRuns
  imports SiteInv AppRun
begin

text \<open>
  A change of the user in one page: the signed-in user signs out and another one signs in, while the
  connection of the cable consumer stays open. The phases of this run of the whole program.
\<close>

section \<open>Single steps\<close>

lemma site_good: "site_ok pl env rd out s \<Longrightarrow> good (st_page s)"
  unfolding site_ok_def good_sound by (blast intro: page_sound_mono backed_story backed_row)

lemma site_placed: "routes_ok pl \<Longrightarrow> site_ok pl env rd out s \<Longrightarrow> placed pl (st_page s)"
  using reach_placed by (auto simp: site_ok_def)

lemma site_wire_length: "site_ok pl env rd out s \<Longrightarrow> length (st_wire s) = length (calls (st_page s))"
  by (auto simp: site_ok_def wired_def dest: list_all2_lengthD)

definition undisturbed :: "site \<Rightarrow> site \<Rightarrow> bool" where
  "undisturbed s t \<longleftrightarrow> st_conn t = st_conn s \<and> st_queue t = st_queue s \<and> st_rails t = st_rails s \<and> st_go t = st_go s"

lemma set_page_simps [simp]:
  "st_page (set_page p ws s) = p" "st_session (set_page p ws s) = st_session s"
  "st_rails (set_page p ws s) = st_rails s" "undisturbed t (set_page p ws s) = undisturbed t s"
  "st_wire (set_page p ws s) = ws @ replicate (length (calls p) - length ws) None"
  by (simp_all add: set_page_def undisturbed_def)

lemma set_rails_same [simp]: "set_rails (st_rails s) s = s"
  by (simp add: set_rails_def stream_of_def split: option.split)

lemma undisturbed_trans: "undisturbed s t \<Longrightarrow> undisturbed t u \<Longrightarrow> undisturbed s u"
  by (simp add: undisturbed_def)

lemma fresh_job: "\<exists>job. Some job \<notin> rq_job ` set (requests r)"
proof -
  have "finite (the ` rq_job ` set (requests r))" by simp
  then obtain job :: jsstr where "job \<notin> the ` rq_job ` set (requests r)"
    using ex_new_if_finite [OF infinite_UNIV_listI] by blast
  then show ?thesis by (metis image_eqI option.sel)
qed

text \<open>The events of a run, by name: the user raises an event the page offers, with a value typed into its element; a
  call of a kind is served at an endpoint and its response reaches the page, or it fails on the way to the server; a job runs; the
  next message of the stream reaches the page.\<close>

definition user_does :: "platform \<Rightarrow> app_handler \<Rightarrow> jsstr \<Rightarrow> site \<Rightarrow> site \<Rightarrow> bool" where
  "user_does pl h v s t \<longleftrightarrow> h \<in> set (offered pl (st_page s)) \<and>
     t = set_page (commit pl (user_event h v (st_page s))) (st_wire s) s"

definition call_answered :: "platform \<Rightarrow> nat \<Rightarrow> jsstr + http_response \<Rightarrow> site \<Rightarrow> site" where
  "call_answered pl i answer s = set_page (commit pl (answer_call pl i answer (st_page s))) (drop_nth i (st_wire s)) s"

definition call_served :: "platform \<Rightarrow> devise \<Rightarrow> call \<Rightarrow> endpoint \<Rightarrow> site \<Rightarrow> site \<Rightarrow> bool" where
  "call_served pl d k e s t \<longleftrightarrow> (\<exists>i job resp session r. i < length (calls (st_page s)) \<and> i < length (st_wire s) \<and> snd (calls (st_page s) ! i) = k \<and>
     st_wire s ! i = None \<and> route_of (fst (calls (st_page s) ! i)) = Some e \<and>
     Some job \<notin> rq_job ` set (requests (st_rails s)) \<and> serve d job e (st_session s) (st_rails s) = (resp, session, r) \<and>
     t = call_answered pl i (Inr resp) ((set_rails r s)\<lparr>st_session := session, st_wire := (st_wire s)[i := Some resp]\<rparr>))"

definition call_fails :: "platform \<Rightarrow> call \<Rightarrow> site \<Rightarrow> site \<Rightarrow> bool" where
  "call_fails pl k s t \<longleftrightarrow> (\<exists>i text. i < length (calls (st_page s)) \<and> snd (calls (st_page s) ! i) = k \<and>
     st_wire s ! i = None \<and> t = call_answered pl i (Inl text) s)"

definition job_runs :: "rails_env \<Rightarrow> rails \<Rightarrow> site \<Rightarrow> site \<Rightarrow> bool" where
  "job_runs env r s t \<longleftrightarrow>
     rails_step env (\<lambda>m. m \<in> set (sv_results (st_go s))) (\<lambda>_ reply. \<exists>e. reply = NoReply e) (st_rails s) r \<and> t = set_rails r s"

definition stream_delivers :: "platform \<Rightarrow> cast_msg \<Rightarrow> site \<Rightarrow> site \<Rightarrow> bool" where
  "stream_delivers pl m s t \<longleftrightarrow> (\<exists>ms. st_queue s = m # ms \<and>
     t = (set_page (commit pl (receive (cast_value m) (st_page s))) (st_wire s) s)\<lparr>st_queue := ms\<rparr>)"

lemma events_are_steps:
  "user_does pl h v \<le> (site_step pl d env rd out)\<^sup>*\<^sup>*"
  "call_served pl d k e \<le> (site_step pl d env rd out)\<^sup>*\<^sup>*"
  "call_fails pl k \<le> (site_step pl d env rd out)\<^sup>*\<^sup>*"
  "job_runs env r \<le> (site_step pl d env rd out)\<^sup>*\<^sup>*"
  "stream_delivers pl m \<le> (site_step pl d env rd out)\<^sup>*\<^sup>*"
proof -
  show "user_does pl h v \<le> (site_step pl d env rd out)\<^sup>*\<^sup>*"
  proof (rule predicate2I)
    fix s t assume "user_does pl h v s t"
    then show "(site_step pl d env rd out)\<^sup>*\<^sup>* s t"
      using ss_page [OF as_user [of h pl "st_page s" "\<lambda>_ _. False" "\<lambda>_. False" v]]
      by (simp add: user_does_def r_into_rtranclp)
  qed
  show "call_served pl d k e \<le> (site_step pl d env rd out)\<^sup>*\<^sup>*"
  proof (rule predicate2I)
    fix s t assume "call_served pl d k e s t"
    then obtain i job resp session r where c: "i < length (calls (st_page s))" "i < length (st_wire s)" "st_wire s ! i = None"
        "route_of (fst (calls (st_page s) ! i)) = Some e" "Some job \<notin> rq_job ` set (requests (st_rails s))"
        "serve d job e (st_session s) (st_rails s) = (resp, session, r)"
        and t: "t = call_answered pl i (Inr resp) ((set_rails r s)\<lparr>st_session := session, st_wire := (st_wire s)[i := Some resp]\<rparr>)"
      unfolding call_served_def by blast
    let ?u = "(set_rails r s)\<lparr>st_session := session, st_wire := (st_wire s)[i := Some resp]\<rparr>"
    have "site_step pl d env rd out s ?u" by (rule ss_serve [OF c(1,3-6)])
    moreover have "site_step pl d env rd out ?u t"
      unfolding t call_answered_def by (rule ss_answer) (use c(1,2) in \<open>simp_all add: set_rails_def\<close>)
    ultimately show "(site_step pl d env rd out)\<^sup>*\<^sup>* s t" by (blast intro: rtranclp.rtrancl_refl rtranclp.rtrancl_into_rtrancl)
  qed
  show "call_fails pl k \<le> (site_step pl d env rd out)\<^sup>*\<^sup>*"
    using ss_lost unfolding call_fails_def call_answered_def by blast
  show "job_runs env r \<le> (site_step pl d env rd out)\<^sup>*\<^sup>*"
    using ss_rails unfolding job_runs_def by blast
  show "stream_delivers pl m \<le> (site_step pl d env rd out)\<^sup>*\<^sup>*"
    using ss_receive unfolding stream_delivers_def by blast
qed

text \<open>Runs composed of such events are runs of the whole program.\<close>

lemma OO_steps:
  assumes "A \<le> R\<^sup>*\<^sup>*" "B \<le> R\<^sup>*\<^sup>*"
  shows "A OO B \<le> R\<^sup>*\<^sup>*"
  using predicate2D [OF assms(1)] predicate2D [OF assms(2)] rtranclp_trans [of R] by blast

lemma OO_extend: "(A OO B) s x \<Longrightarrow> C x t \<Longrightarrow> (A OO B OO C) s t"
  by (erule relcomppE) (rule relcomppI, assumption, rule relcomppI)

text \<open>The form of the login: the address and the password are typed, the form is submitted, and its call is served.\<close>

definition signs_in :: "platform \<Rightarrow> devise \<Rightarrow> jsstr \<Rightarrow> jsstr \<Rightarrow> site \<Rightarrow> site \<Rightarrow> bool" where
  "signs_in pl d email password s t \<longleftrightarrow> (\<exists>inst.
     (user_does pl (AhLogin LfEmail) email OO user_does pl (AhLogin LfPassword) password OO
      user_does pl (AhLogin LfSubmit) [] OO call_served pl d (CLogin inst email) (SignIn email password)) s t)"

text \<open>The user raises an event that sends a call, which is served and answered at once.\<close>

lemma call_round:
  assumes "site_ok pl env rd out s" "h \<in> set (offered pl (st_page s))"
    and "commit pl (user_event h v (st_page s)) = p" "calls p = calls (st_page s) @ [(q, k)]"
    and "route_of q = Some e" "Some job \<notin> rq_job ` set (requests (st_rails s))"
    and "serve d job e (st_session s) (st_rails s) = (resp, session, r)"
  obtains t where "(user_does pl h v OO call_served pl d k e) s t" "undisturbed (set_rails r s) t" "st_session t = session"
    "st_page t = commit pl (snd (settle (p_engine pl) k (finish_request (Inr resp)) (p\<lparr>calls := calls (st_page s)\<rparr>)))"
proof -
  define n where "n = length (calls (st_page s))"
  define s1 where "s1 = set_page p (st_wire s) s"
  define s2 where "s2 = (set_rails r s1)\<lparr>st_session := session, st_wire := (st_wire s1)[n := Some resp]\<rparr>"
  define s3 where "s3 = call_answered pl n (Inr resp) s2"
  have w: "st_wire s1 = st_wire s @ [None]" "length (st_wire s) = n"
    using site_wire_length [OF assms(1)] by (simp_all add: s1_def n_def assms(4))
  have p: "st_page s1 = p" "st_page s2 = p" "st_rails s1 = st_rails s" "st_session s1 = st_session s"
    by (simp_all add: s1_def s2_def set_rails_def)
  have c: "n < length (calls p)" "calls p ! n = (q, k)" "drop_nth n (calls p) = calls (st_page s)"
    by (simp_all add: assms(4) n_def nth_append drop_nth_def)
  have "user_does pl h v s s1" using assms(2,3) by (simp add: user_does_def s1_def)
  moreover have "call_served pl d k e s1 s3"
    unfolding call_served_def
    by (intro exI [of _ n] exI [of _ job] exI [of _ resp] exI [of _ session] exI [of _ r])
      (simp add: p c w nth_append assms(5-7) s3_def s2_def)
  ultimately have "(user_does pl h v OO call_served pl d k e) s s3" by blast
  moreover have "undisturbed (set_rails r s) s3"
    by (simp add: s3_def s2_def s1_def undisturbed_def set_page_def set_rails_def call_answered_def)
  moreover have "st_session s3 = session" by (simp add: s3_def s2_def call_answered_def)
  moreover have "st_page s3 = commit pl (snd (settle (p_engine pl) k (finish_request (Inr resp)) (p\<lparr>calls := calls (st_page s)\<rparr>)))"
    by (simp add: s3_def p answer_call_def c call_answered_def)
  ultimately show ?thesis by (rule that)
qed

text \<open>The same with a call that fails before it reaches the server.\<close>

lemma call_lost:
  assumes "site_ok pl env rd out s" "h \<in> set (offered pl (st_page s))"
    and "commit pl (user_event h v (st_page s)) = p" "calls p = calls (st_page s) @ [(q, k)]"
  obtains t where "(user_does pl h v OO call_fails pl k) s t" "undisturbed s t" "st_session t = st_session s"
    "st_page t = commit pl (snd (settle (p_engine pl) k (finish_request (Inl [])) (p\<lparr>calls := calls (st_page s)\<rparr>)))"
proof -
  define n where "n = length (calls (st_page s))"
  define s1 where "s1 = set_page p (st_wire s) s"
  define s2 where "s2 = call_answered pl n (Inl []) s1"
  have c: "n < length (calls p)" "calls p ! n = (q, k)" "drop_nth n (calls p) = calls (st_page s)"
    by (simp_all add: assms(4) n_def nth_append drop_nth_def)
  have "user_does pl h v s s1" using assms(2,3) by (simp add: user_does_def s1_def)
  moreover have "call_fails pl k s1 s2"
    unfolding call_fails_def
    by (intro exI [of _ n] exI [of _ "[]"]) (use site_wire_length [OF assms(1)] in \<open>simp add: s2_def s1_def c assms(4) nth_append n_def\<close>)
  ultimately have "(user_does pl h v OO call_fails pl k) s s2" by blast
  moreover have "undisturbed s s2" "st_session s2 = st_session s"
    by (simp_all add: s2_def s1_def undisturbed_def set_page_def call_answered_def)
  moreover have "st_page s2 = commit pl (snd (settle (p_engine pl) k (finish_request (Inl [])) (p\<lparr>calls := calls (st_page s)\<rparr>)))"
    by (simp add: s2_def s1_def answer_call_def c call_answered_def)
  ultimately show ?thesis by (rule that)
qed

lemma signs_in_steps: "signs_in pl d email password \<le> (site_step pl d env rd out)\<^sup>*\<^sup>*"
proof (rule predicate2I)
  fix s t assume "signs_in pl d email password s t"
  then obtain inst where "(user_does pl (AhLogin LfEmail) email OO user_does pl (AhLogin LfPassword) password OO
      user_does pl (AhLogin LfSubmit) [] OO call_served pl d (CLogin inst email) (SignIn email password)) s t"
    unfolding signs_in_def by blast
  then show "(site_step pl d env rd out)\<^sup>*\<^sup>* s t"
    by (rule predicate2D [OF OO_steps [OF events_are_steps(1) OO_steps [OF events_are_steps(1)
      OO_steps [OF events_are_steps(1,2)]]]])
qed

lemma site_steps_ok:
  "(site_step pl d env rd out)\<^sup>*\<^sup>* s t \<Longrightarrow> routes_ok pl \<Longrightarrow> devise_ok d \<Longrightarrow> site_ok pl env rd out s \<Longrightarrow> site_ok pl env rd out t"
  by (induction rule: rtranclp_induct) (auto intro: site_step_ok)

text \<open>The dashboard subscribes when it is mounted.\<close>

lemma mount_subscribes:
  assumes "dash s = None" "\<exists>i. dash (commit pl s) = Some i"
  shows "subscribed_once (commit pl s)"
proof -
  obtain t where t: "commit pl s = take_down t \<or> commit pl s = mount_effects pl None t"
    by (rule commit_shape [of pl s]) (use assms(1) in auto)
  moreover have "dash (take_down t) = None" for t by (simp add: take_down_def leave_login_def leave_dash_def)
  ultimately obtain i where "commit pl s = mount_effects pl None t" "dash t = Some i"
    using assms(2) by (cases "dash t") (auto simp: mount_effects_def)
  then show ?thesis
    by (auto simp: mount_effects_def dash_effects_def subscribed_once_def hook_mount_def run_effect_def create_sub_def)
qed

lemma takeover_steps:
  "user_does pl AhLogout [] OO call_served pl d CLogout SignOut OO signs_in pl d email password OO
     job_runs env r OO stream_delivers pl m \<le> (site_step pl d env rd out)\<^sup>*\<^sup>*"
  by (intro OO_steps events_are_steps signs_in_steps)

lemma lost_logout_steps:
  "user_does pl AhLogout [] OO call_fails pl CLogout OO signs_in pl d email password \<le> (site_step pl d env rd out)\<^sup>*\<^sup>*"
  by (intro OO_steps events_are_steps signs_in_steps)

section \<open>Signing out\<close>

lemma offered_logout:
  assumes "good p" "authenticated p = Some True" "userEmail p \<noteq> []"
  shows "AhLogout \<in> set (offered pl p)"
proof -
  obtain ns where ns: "MainApp pl p = Inr ns" using good_renders [OF assms(1)] by blast
  obtain n out where n: "Navigation (userEmail p) (mode p) = Inr n"
      and out: "ns = [el ''div'' [class_s ''min-vh-100 bg-light''] ([n] @ flash_alert (flashMessage p) @ out)]"
    using ns assms by (auto simp: MainApp_def good_def bind_r_Inr_iff split: if_splits)
  have "AhLogout \<in> set (events n)"
    using n assms(3) by (auto simp: Navigation_def bind_r_Inr_iff ui_simps)
  then show ?thesis by (auto simp: offered_def ns out attr_events_def is_disabled_def)
qed

text \<open>After the answer of a logout.\<close>

lemma logged_out:
  assumes "routes_ok pl" "linked p" "good p" "login_view p = None"
  shows "let t = commit pl (snd (logout_done answer p))
    in session_of t = SignedOut \<and> good t \<and> placed pl t \<and> screen_of pl t = SLogin \<and>
       (\<exists>i. login_view t = Some (i, lf_init))"
proof -
  define u where "u = snd (logout_done answer p)"
  have u: "authenticated u = Some False" "crashed u = None" "login_view u = None"
    using assms(3,4) by (cases answer; simp add: u_def logout_done_def act_simps good_def)+
  have g: "good u" using typed.settle_sound [of "Inl undefined" CLogout] assms(3)
    by (cases answer) (simp_all add: u_def good_def logout_done_def act_simps stories_def)
  have "linked u" using keepsD [OF logout_linked assms(2)] by (simp add: u_def)
  then have pl: "placed pl (commit pl u)" by (rule commit_placed [OF assms(1)])
  note gc = commit_good [OF g, of pl]
  have sc: "screen_of pl (commit pl u) = SLogin"
    using pl u(1) gc by (intro screen_login) (simp_all add: commit_keeps good_def)
  have "login_view (commit pl u) \<noteq> None" using pl sc by (auto simp: placed_def)
  moreover have "login_view (commit pl u) = None \<or> (\<exists>i. login_view (commit pl u) = Some (i, lf_init))"
    by (rule commit_shape [of pl u])
      (use u(3) in \<open>auto simp: place_login take_down_def leave_login_def leave_dash_def split: if_splits\<close>)
  ultimately show ?thesis using pl gc sc u(1) by (auto simp: Let_def commit_keeps session_of_def simp flip: u_def)
qed

text \<open>The event of the logout: it is offered, sends one call and changes nothing else.\<close>

definition logout_sent :: "main_app \<Rightarrow> main_app" where
  "logout_sent p = p\<lparr>calls := calls p @ [(api_logout, CLogout)]\<rparr>"

lemma logout_event:
  assumes "placed pl p" "good p" "dash p = Some i" "userEmail p \<noteq> []"
  shows "AhLogout \<in> set (offered pl p)" "commit pl (user_event AhLogout v p) = logout_sent p"
proof -
  note d = placed_dash [OF assms(1,3)]
  have "authenticated p = Some True"
    using d(1) by (auto simp: screen_of_def routed_def split: if_splits option.splits route.splits)
  then show "AhLogout \<in> set (offered pl p)" by (rule offered_logout [OF assms(2) _ assms(4)])
  have "screen_of pl (logout_sent p) = SDash"
    using d(1) by (subst screen_of_cong [of _ p]) (simp_all add: logout_sent_def)
  then have "commit pl (logout_sent p) = logout_sent p"
    using assms(2,3) d(2) by (intro commit_stays) (simp_all add: logout_sent_def good_def)
  then show "commit pl (user_event AhLogout v p) = logout_sent p" by (simp add: logout_sent_def act_simps)
qed

text \<open>The session ends on the page in any case; on the server when the call arrives.\<close>

definition signed_out_page :: "platform \<Rightarrow> main_app \<Rightarrow> bool" where
  "signed_out_page pl p \<longleftrightarrow> screen_of pl p = SLogin \<and> (\<exists>k. login_view p = Some (k, lf_init))"

lemma sign_out_page:
  assumes "routes_ok pl" "placed pl p" "good p" "dash p = Some i"
  shows "signed_out_page pl (commit pl (snd (settle en CLogout answer ((logout_sent p)\<lparr>calls := calls p\<rparr>))))"
proof -
  have "(logout_sent p)\<lparr>calls := calls p\<rparr> = p" by (simp add: logout_sent_def)
  moreover have "linked p" using assms(2) by (simp add: placed_def)
  ultimately show ?thesis
    using logged_out [OF assms(1) _ assms(3) placed_dash(2) [OF assms(2,4)], of answer]
    by (simp add: signed_out_page_def Let_def)
qed

lemma sign_out:
  assumes "routes_ok pl" "site_ok pl env rd out s" "dash (st_page s) = Some i" "userEmail (st_page s) \<noteq> []"
  obtains t where "(user_does pl AhLogout [] OO call_served pl d CLogout SignOut) s t" "undisturbed s t" "st_session t = None"
    "signed_out_page pl (st_page t)"
proof -
  note g = site_good [OF assms(2)] and p = site_placed [OF assms(1,2)]
  note e = logout_event [OF p g assms(3,4)]
  obtain resp where sv: "\<And>job. serve d job SignOut (st_session s) (st_rails s) = (resp, None, st_rails s)"
    by (cases "st_session s") auto
  have c: "calls (logout_sent (st_page s)) = calls (st_page s) @ [(api_logout, CLogout)]" by (simp add: logout_sent_def)
  obtain job where job: "Some job \<notin> rq_job ` set (requests (st_rails s))" using fresh_job by blast
  show ?thesis
    by (rule call_round [OF assms(2) e(1) e(2) [of "[]"] c routes(2) job sv])
      (use that sign_out_page [OF assms(1) p g assms(3)] in simp)
qed

lemma sign_out_lost:
  assumes "routes_ok pl" "site_ok pl env rd out s" "dash (st_page s) = Some i" "userEmail (st_page s) \<noteq> []"
  obtains t where "(user_does pl AhLogout [] OO call_fails pl CLogout) s t" "undisturbed s t" "st_session t = st_session s"
    "signed_out_page pl (st_page t)"
proof -
  note g = site_good [OF assms(2)] and p = site_placed [OF assms(1,2)]
  note e = logout_event [OF p g assms(3,4)]
  have c: "calls (logout_sent (st_page s)) = calls (st_page s) @ [(api_logout, CLogout)]" by (simp add: logout_sent_def)
  show ?thesis
    by (rule call_lost [OF assms(2) e(1) e(2) [of "[]"] c])
      (use that sign_out_page [OF assms(1) p g assms(3)] in simp)
qed

section \<open>Signing in\<close>

lemma commit_stays_login:
  assumes "placed pl s" "good s" "screen_of pl s = SLogin"
  shows "commit pl s = s"
proof -
  have r: "redirects pl 2 s = s" using assms(3) by (simp add: numeral_2_eq_2)
  have d: "dash s = None" "login_view s \<noteq> None" using assms(1,3) unfolding placed_def by auto
  then have "mounted (channel s) = None" using assms(1) by (simp add: placed_def linked_def)
  then have "place pl s = s"
    using d assms(3) by (simp add: place_defs hook_unmount_def run_cleanup_def)
  with r d(1) good_renders [OF assms(2), of pl] show ?thesis
    by (auto simp: commit_def mount_effects_def)
qed

lemma offered_login_event:
  assumes "good p" "screen_of pl p = SLogin" "login_view p = Some (k, f)" "h \<in> set (events (LoginForm f))"
  shows "AhLogin h \<in> set (offered pl p)"
proof -
  obtain ns where ns: "MainApp pl p = Inr ns" using good_renders [OF assms(1)] by blast
  have "authenticated p \<noteq> None" "crashed p = None"
    using assms(2) by (auto simp: screen_of_def split: if_splits option.splits)
  then obtain nav where "ns = [el ''div'' [class_s ''min-vh-100 bg-light'']
      (nav @ flash_alert (flashMessage p) @ [map_node AhLogin (LoginForm f)])]"
    using ns assms(2,3) by (auto simp: MainApp_def outlet_def bind_r_Inr_iff split: if_splits)
  then show ?thesis using assms(4) by (auto simp: offered_def ns events_map attr_events_def is_disabled_def)
qed

text \<open>The login screen with another form in it.\<close>

lemma with_form:
  assumes "placed pl p" "good p" "screen_of pl p = SLogin" "login_view p = Some (k, f)"
    and "\<forall>c \<in> set cs. older (next_inst p) (call_inst (snd c))"
  shows "commit pl (p\<lparr>login_view := Some (k, f'), calls := calls p @ cs\<rparr>) = p\<lparr>login_view := Some (k, f'), calls := calls p @ cs\<rparr>"
proof (rule commit_stays_login)
  have sc: "screen_of pl (p\<lparr>login_view := Some (k, f'), calls := calls p @ cs\<rparr>) = SLogin"
    using assms(3) by (subst screen_of_cong [of _ p]) simp_all
  then show "screen_of pl (p\<lparr>login_view := Some (k, f'), calls := calls p @ cs\<rparr>) = SLogin" .
  show "good (p\<lparr>login_view := Some (k, f'), calls := calls p @ cs\<rparr>)" using assms(2) by (simp add: good_def)
  show "placed pl (p\<lparr>login_view := Some (k, f'), calls := calls p @ cs\<rparr>)"
    using assms(1,3,4,5) sc unfolding placed_def by (auto simp: linked_def)
qed

lemma type_step:
  assumes "routes_ok pl" "site_ok pl env rd out s" "screen_of pl (st_page s) = SLogin" "login_view (st_page s) = Some (k, f)"
    and "h = LfEmail \<and> f' = lf_set_email v f \<or> h = LfPassword \<and> f' = lf_set_password v f"
  shows "user_does pl (AhLogin h) v s (set_page ((st_page s)\<lparr>login_view := Some (k, f')\<rparr>) (st_wire s) s)"
proof -
  note g = site_good [OF assms(2)] and p = site_placed [OF assms(1,2)]
  have "commit pl (user_event (AhLogin h) v (st_page s)) = (st_page s)\<lparr>login_view := Some (k, f')\<rparr>"
    using with_form [OF p g assms(3,4), of "[]" f'] assms(4,5) by (auto simp: in_login_def)
  moreover have "AhLogin h \<in> set (offered pl (st_page s))"
    using assms(5) by (intro offered_login_event [OF g assms(3,4)]) (auto simp: LoginForm_events)
  ultimately show ?thesis by (simp add: user_does_def)
qed

lemma screen_with_form: "screen_of pl (p\<lparr>login_view := x\<rparr>) = screen_of pl p"
  by (rule screen_of_cong) simp_all

lemma sign_in:
  assumes "routes_ok pl" "devise_ok d" "site_ok pl env rd out s" "signed_out_page pl (st_page s)"
    and "\<And>job. serve d job (SignIn email password) (st_session s) (st_rails s) = (session_created mail, Some v, st_rails s)"
  obtains t where "signs_in pl d email password s t" "undisturbed s t" "st_session t = Some v"
    "screen_of pl (st_page t) = SDash" "userEmail (st_page t) = email"
proof -
  obtain k where l: "screen_of pl (st_page s) = SLogin" "login_view (st_page s) = Some (k, lf_init)"
    using assms(4) by (auto simp: signed_out_page_def)
  define f1 where "f1 = lf_set_email email lf_init"
  define f2 where "f2 = lf_set_password password f1"
  define s1 where "s1 = set_page ((st_page s)\<lparr>login_view := Some (k, f1)\<rparr>) (st_wire s) s"
  have st1: "user_does pl (AhLogin LfEmail) email s s1"
    unfolding s1_def by (rule type_step [OF assms(1,3) l, where h = LfEmail and v = email]) (simp add: f1_def)
  note ok1 = site_steps_ok [OF predicate2D [OF events_are_steps(1) st1] assms(1-3)]
  have l1: "screen_of pl (st_page s1) = SLogin" "login_view (st_page s1) = Some (k, f1)"
    using l(1) by (simp_all add: s1_def screen_with_form)
  define s2 where "s2 = set_page ((st_page s1)\<lparr>login_view := Some (k, f2)\<rparr>) (st_wire s1) s1"
  have st2: "user_does pl (AhLogin LfPassword) password s1 s2"
    unfolding s2_def by (rule type_step [OF assms(1) ok1 l1, where h = LfPassword and v = password]) (simp add: f2_def)
  note ok2 = site_steps_ok [OF predicate2D [OF events_are_steps(1) st2] assms(1,2) ok1]
  have l2: "screen_of pl (st_page s2) = SLogin" "login_view (st_page s2) = Some (k, f2)"
    using l1(1) by (simp_all add: s2_def screen_with_form)
  let ?p = "st_page s2"
  note g = site_good [OF ok2] and p = site_placed [OF assms(1) ok2]
  define p3 where "p3 = ?p\<lparr>login_view := Some (k, f2\<lparr>lf_error := [], lf_loading := True\<rparr>),
    calls := calls ?p @ [(api_login email password, CLogin k email)]\<rparr>"
  have f2: "lf_email f2 = email" "lf_password f2 = password" "lf_loading f2 = False"
    by (simp_all add: f2_def f1_def lf_set_email_def lf_set_password_def lf_init_def)
  have "k < next_inst ?p" using p l2(2) by (simp add: placed_def linked_def)
  then have c: "commit pl (user_event (AhLogin LfSubmit) [] ?p) = p3"
    using with_form [OF p g l2, of "[(api_login email password, CLogin k email)]" "f2\<lparr>lf_error := [], lf_loading := True\<rparr>"]
    by (simp add: in_login_def l2(2) lf_submit_def f2 p3_def)
  have o: "AhLogin LfSubmit \<in> set (offered pl ?p)"
    by (rule offered_login_event [OF g l2]) (simp add: LoginForm_events f2(3))
  have sv: "serve d job (SignIn email password) (st_session s2) (st_rails s2) =
      (session_created mail, Some v, st_rails s2)" for job
    using assms(5) by (simp add: s2_def s1_def)
  obtain job where job: "Some job \<notin> rq_job ` set (requests (st_rails s2))" using fresh_job by blast
  obtain t where t: "(user_does pl (AhLogin LfSubmit) [] OO call_served pl d (CLogin k email) (SignIn email password)) s2 t"
      "undisturbed (set_rails (st_rails s2) s2) t" "st_session t = Some v"
      "st_page t = commit pl (snd (settle (p_engine pl) (CLogin k email)
         (finish_request (Inr (session_created mail))) (p3\<lparr>calls := calls ?p\<rparr>)))"
    by (rule call_round [OF ok2 o c _ routes(1) job sv]) (simp add: p3_def)
  have run: "signs_in pl d email password s t" unfolding signs_in_def by (rule exI, rule relcomppI, rule st1, rule relcomppI, rule st2, rule t(1))
  note okt = site_steps_ok [OF predicate2D [OF signs_in_steps run] assms(1-3)]
  have au: "authenticated (st_page t) = Some True" "userEmail (st_page t) = email"
    unfolding t(4) by (simp_all add: commit_keeps other_answers await_login_def login_done_def act_simps)
  have "screen_of pl (st_page t) = SDash"
    using site_placed [OF assms(1) okt] site_good [OF okt] au(1) by (intro screen_dash) (simp_all add: good_def)
  moreover have "undisturbed s t" using t(2) unfolding set_rails_same by (simp add: undisturbed_def s2_def s1_def set_page_def)
  ultimately show ?thesis using that run t(3) au(2) by blast
qed

section \<open>The broadcast of the first user\<close>

lemma site_reach_steps: "site_reach pl d env rd out s \<Longrightarrow> (site_step pl d env rd out)\<^sup>*\<^sup>* s t \<Longrightarrow> site_reach pl d env rd out t"
  unfolding site_reach_def by (rule reach_star)

lemma delivered_stories:
  assumes "linked p" "good p" "dash p = Some i" "bc_status m = lit ''done''" "item \<in> set (bc_items m)"
  shows "\<exists>xs. feedItems (commit pl (receive (cast_value m) p)) = Arr xs \<and>
    link_of (item_msg_value item) \<in> link_of ` set xs"
proof -
  obtain olds where olds: "feedItems p = Arr olds" "list_all story olds" using assms(2) by (auto simp: good_def stories_def)
  define news where "news = map item_msg_value (bc_items m)"
  have d: "\<not> nullish (cast_value m)" "prop_of (cast_value m) ''status'' = Str (lit ''done'')"
    "prop_of (cast_value m) ''items'' = Arr news"
    using assms(4) by (simp_all add: cast_value_def prop_of_def news_def)
  have l: "list_all linkable news" "list_all linkable olds"
    using item_msg_story story_linkable olds(2) by (auto simp: news_def list_all_iff)
  have "feedItems (receive (cast_value m) p) = Arr (filter (\<lambda>x. link_of x \<notin> link_of ` set olds) news @ olds)"
    using broadcast_feed [OF d l(1) olds(1) l(2)] assms(1,3) by (simp add: receive_eq)
  moreover have "link_of (item_msg_value item) \<in> link_of ` set (filter (\<lambda>x. link_of x \<notin> link_of ` set olds) news @ olds)"
    using assms(5) by (cases "link_of (item_msg_value item) \<in> link_of ` set olds") (auto simp: news_def)
  ultimately show ?thesis by (simp only: commit_keeps) blast
qed

lemma queue_to_owner:
  assumes "sorts_items rd" "site_ok pl env rd out s" "m \<in> set (st_queue s)"
  shows "\<exists>q \<in> set (requests (st_rails s)). rq_id q = bc_request m \<and> st_conn s = Some (rq_user q)"
proof -
  obtain u where u: "st_conn s = Some u" "(u, m) \<in> set (casts (st_rails s))"
    using assms(2,3) by (auto simp: site_ok_def queue_ok_def)
  then have "m \<in> set (stream_of (Some u) (st_rails s))" by (force simp: stream_of_def)
  moreover have "rails_reach env (go_messages rd (allowed out (st_rails s))) (go_replies rd (allowed out (st_rails s))) (st_rails s)"
    using assms(2) by (auto simp: site_ok_def)
  ultimately show ?thesis
    using feed_service.to_owner [OF feed_service.intro [OF go_contract [OF assms(1)]]] u(1) by fastforce
qed

lemma new_user_sees:
  assumes "routes_ok pl" "devise_ok d" "site_ok pl env rd out s" "dash (st_page s) = Some i" "userEmail (st_page s) \<noteq> []"
    and "st_conn s = Some u" "st_queue s = []" "account d email password = Some v"
    and "rails_step env (\<lambda>m. m \<in> set (sv_results (st_go s))) (\<lambda>_ reply. \<exists>e. reply = NoReply e) (st_rails s) r"
    and "casts r = casts (st_rails s) @ [(u, m)]" "bc_status m = lit ''done''"
  shows "\<exists>t. (user_does pl AhLogout [] OO call_served pl d CLogout SignOut OO signs_in pl d email password OO
      job_runs env r OO stream_delivers pl m) s t \<and> (site_step pl d env rd out)\<^sup>*\<^sup>* s t \<and> st_session t = Some v \<and> userEmail (st_page t) = email \<and>
    screen_of pl (st_page t) = SDash \<and> st_conn t = Some u \<and> st_rails t = r \<and>
    (\<forall>item \<in> set (bc_items m). \<exists>xs. feedItems (st_page t) = Arr xs \<and>
       link_of (item_msg_value item) \<in> link_of ` set xs)"
proof -
  obtain a where a: "(user_does pl AhLogout [] OO call_served pl d CLogout SignOut) s a" "undisturbed s a" "st_session a = None"
      "signed_out_page pl (st_page a)"
    by (rule sign_out [OF assms(1,3-5)])
  note oka = site_steps_ok [OF predicate2D [OF OO_steps [OF events_are_steps(1,2)] a(1)] assms(1-3)]
  obtain b where b: "signs_in pl d email password a b" "undisturbed a b" "st_session b = Some v"
      "screen_of pl (st_page b) = SDash" "userEmail (st_page b) = email"
    by (rule sign_in [OF assms(1,2) oka a(4), where email = email and password = password and mail = "stored_email d v" and v = v]) (simp_all add: a(3) assms(8))
  note okb = site_steps_ok [OF predicate2D [OF signs_in_steps b(1)] assms(1,2) oka]
  have un: "st_conn b = Some u" "st_queue b = []" "st_rails b = st_rails s" "st_go b = st_go s"
    using a(2) b(2) assms(6,7) by (simp_all add: undisturbed_def)
  let ?c = "set_rails r b"
  have stepc: "job_runs env r b ?c" using assms(9) un by (simp add: job_runs_def)
  have c: "st_queue ?c = [m]" "st_page ?c = st_page b" "st_conn ?c = Some u" "st_session ?c = Some v" "st_rails ?c = r"
    using un assms(10) b(3) by (simp_all add: set_rails_def stream_of_def)
  let ?t = "(set_page (commit pl (receive (cast_value m) (st_page ?c))) (st_wire ?c) ?c)\<lparr>st_queue := []\<rparr>"
  have stept: "stream_delivers pl m ?c ?t" using c(1) by (simp add: stream_delivers_def)
  have run: "(user_does pl AhLogout [] OO call_served pl d CLogout SignOut OO signs_in pl d email password OO
      job_runs env r OO stream_delivers pl m) s ?t"
    by (rule OO_extend, rule a(1), rule relcomppI, rule b(1), rule relcomppI, rule stepc, rule stept)
  have "(job_runs env r OO stream_delivers pl m) b ?t" by (rule relcomppI, rule stepc, rule stept)
  note okt = site_steps_ok [OF predicate2D [OF OO_steps [OF events_are_steps(4,5)] this] assms(1,2) okb]
  note p = site_placed [OF assms(1) okb] and g = site_good [OF okb]
  have l: "linked (st_page b)" using p by (simp add: placed_def)
  obtain j where j: "dash (st_page b) = Some j" using p b(4) by (auto simp: placed_def)
  have pt: "st_page ?t = commit pl (receive (cast_value m) (st_page b))" using c(2) by (simp add: set_page_def)
  have e: "userEmail (st_page ?t) = email" "authenticated (st_page ?t) = authenticated (st_page b)"
    using page_more_eq [of "snd (handleBroadcastMessage j (cast_value m) (st_page b))" "st_page b"]
      page_frames(1) [of j "st_page b" "cast_value m"] b(5) j l
    by (simp_all add: pt commit_keeps receive_eq page_frame_def)
  have "authenticated (st_page b) = Some True"
    using b(4) by (auto simp: screen_of_def routed_def split: if_splits option.splits route.splits)
  then have sc: "screen_of pl (st_page ?t) = SDash"
    using site_placed [OF assms(1) okt] site_good [OF okt] e(2) by (intro screen_dash) (simp_all add: good_def)
  have "st_session ?t = Some v" "st_conn ?t = Some u" "st_rails ?t = r" using c by (simp_all add: set_page_def)
  moreover have "\<forall>item \<in> set (bc_items m). \<exists>xs. feedItems (st_page ?t) = Arr xs \<and> link_of (item_msg_value item) \<in> link_of ` set xs"
    using delivered_stories [OF l g j assms(11)] unfolding pt by blast
  ultimately show ?thesis using run predicate2D [OF takeover_steps, OF run] e(1) sc by (intro exI [of _ ?t]) simp
qed

text \<open>A logout whose call is lost, and the next login: the old session is still there.\<close>

lemma old_session_serves:
  assumes "routes_ok pl" "devise_ok d" "site_ok pl env rd out s" "dash (st_page s) = Some i" "userEmail (st_page s) \<noteq> []"
    and "st_session s = Some u"
  shows "\<exists>t. (user_does pl AhLogout [] OO call_fails pl CLogout OO signs_in pl d email password) s t \<and>
    (site_step pl d env rd out)\<^sup>*\<^sup>* s t \<and> userEmail (st_page t) = email \<and> screen_of pl (st_page t) = SDash \<and>
    st_session t = Some u \<and> st_rails t = st_rails s \<and>
    (\<forall>job. serve d job ListItems (st_session t) (st_rails t) = (index_feed_items u (st_rails s), Some u, st_rails s))"
proof -
  obtain a where a: "(user_does pl AhLogout [] OO call_fails pl CLogout) s a" "undisturbed s a" "st_session a = Some u"
      "signed_out_page pl (st_page a)"
    using sign_out_lost [OF assms(1,3-5)] assms(6) by metis
  note oka = site_steps_ok [OF predicate2D [OF OO_steps [OF events_are_steps(1,3)] a(1)] assms(1-3)]
  obtain b where b: "signs_in pl d email password a b" "undisturbed a b" "st_session b = Some u"
      "screen_of pl (st_page b) = SDash" "userEmail (st_page b) = email"
    by (rule sign_in [OF assms(1,2) oka a(4), where email = email and password = password and mail = "stored_email d u" and v = u]) (simp_all add: a(3))
  have run: "(user_does pl AhLogout [] OO call_fails pl CLogout OO signs_in pl d email password) s b" by (rule OO_extend, rule a(1), rule b(1))
  show ?thesis
    using run predicate2D [OF lost_logout_steps, OF run] undisturbed_trans [OF a(2) b(2)] b(3-5)
    by (intro exI [of _ b]) (simp add: authenticate_user_def undisturbed_def)
qed

section \<open>A submit\<close>

lemma submit_round:
  assumes "routes_ok pl" "devise_ok d" "site_ok pl env rd out s" "st_session s = Some u" "dash (st_page s) = Some i"
    and "AhDash (DhForm FfSubmit) \<in> set (offered pl (st_page s))"
  shows "\<exists>t q. (site_step pl d env rd out)\<^sup>*\<^sup>* s t \<and> requests (st_rails t) = requests (st_rails s) @ [q] \<and>
    rq_user q = u \<and> rq_urls q = active_urls (form_urls (st_page s)) \<and> rq_status q = lit ''pending'' \<and>
    Publish (rq_id q) \<in> set (tasks (st_rails t)) \<and> \<not> loading (st_page t) \<and>
    (\<exists>j. pendingRequests (st_page t) = pendingRequests (st_page s) @ [\<lparr>feed_request_id = Num (int (rq_id q)), job_id = Str j,
      urls = rq_urls q, status = Str (lit ''pending'')\<rparr>])"
proof -
  let ?p = "st_page s"
  let ?us = "active_urls (form_urls ?p)"
  note g = site_good [OF assms(3)] and p = site_placed [OF assms(1,3)]
  note us = offered_submit(3) [OF assms(6)]
  obtain job where job: "Some job \<notin> rq_job ` set (requests (st_rails s))" using fresh_job by blast
  obtain resp r where sv: "create_feeds u job (Urls ?us) (st_rails s) = (resp, r)" by fastforce
  have r: "requests r = requests (st_rails s) @ [\<lparr>rq_id = next_request (st_rails s), rq_user = u, rq_job = Some job,
      rq_urls = ?us, rq_status = lit ''pending''\<rparr>]" "Publish (next_request (st_rails s)) \<in> set (tasks r)"
    using sv us by (auto simp: create_feeds_def)
  have c: "calls (sent ?p i) = calls ?p @ [(api_submitFeeds ?us, CSubmit i ?us)]" by (simp add: sent_def)
  have svr: "serve d job (CreateFeeds (Urls ?us)) (st_session s) (st_rails s) = (resp, Some u, r)"
    by (simp add: sv assms(4) authenticate_user_def)
  obtain t where t: "(site_step pl d env rd out)\<^sup>*\<^sup>* s t" "undisturbed (set_rails r s) t"
      "st_page t = commit pl (snd (settle (p_engine pl) (CSubmit i ?us) (finish_request (Inr resp))
        ((sent ?p i)\<lparr>calls := calls ?p\<rparr>)))"
    by (rule call_round [OF assms(3,6) submit_sends [OF p g assms(5) us, of "[]"] c routes(3) job svr])
      (use predicate2D [OF OO_steps [OF events_are_steps(1,2)]] in blast)
  define row where "row = \<lparr>feed_request_id = Num (int (next_request (st_rails s))), job_id = Str job, urls = ?us,
    status = Str (lit ''pending'')\<rparr>"
  have a: "finish_request (Inr resp) = Inr (Obj [(lit ''feed_request_id'', Num (int (next_request (st_rails s)))),
      (lit ''job_id'', Str job), (lit ''status'', Str (lit ''pending'')), (lit ''mode'', Str (lit ''full''))])"
    using create_answer [of u job ?us "st_rails s"] us sv by simp
  define w where "w = ?p\<lparr>loading := False, error := [], pendingRequests := pendingRequests ?p @ [row]\<rparr>"
  have "snd (submit_settle (p_engine pl) i ?us (finish_request (Inr resp)) ((sent ?p i)\<lparr>calls := calls ?p\<rparr>)) = w"
    unfolding a
    by (subst submit_settle_full) (simp_all add: sent_def assms(5) prop_of_def w_def row_def)
  then have tp: "st_page t = commit pl w" using t(3) by simp
  have "row_ok row" by (simp add: row_def row_ok_def text_or_null_def)
  then have gw: "good w" using g by (simp add: w_def good_def)
  have "screen_of pl w = SDash" using placed_dash(1) [OF p assms(5)] by (subst screen_of_cong [of _ ?p]) (simp_all add: w_def)
  with gw have "commit pl w = w"
    using placed_dash(2) [OF p assms(5)] assms(5) by (intro commit_stays) (simp_all add: w_def)
  moreover have "st_rails t = r" using t(2) by (simp add: undisturbed_def set_rails_def)
  ultimately show ?thesis
    using t(1) r tp by (intro exI [of _ t] exI [of _ "last (requests r)"]) (auto simp: w_def row_def)
qed

end
