(* ===== verification/PropsSite.thy ===== *)
theory PropsSite
  imports PropsGo Provenance SiteRuns
begin

text \<open>
  Properties of the whole program, as theorems about every reachable state of its step relation, and the
  runs that show what a user can do and see. The examples use one reachable state: user 1 is signed in
  with the dashboard open, and a result of a request of theirs has been claimed but not stored.
\<close>

section \<open>A reachable state\<close>

definition unauthorized :: http_response where
  "unauthorized = json_reply 401 (Obj [(lit ''error'', Str (lit ''Unauthorized''))])"

definition demo_devise :: devise where
  "demo_devise = \<lparr>account = (\<lambda>e p. if e = lit ''b'' then Some 2 else None), stored_email = (\<lambda>_. lit ''b''),
     known_user = (\<lambda>_. True), unauthenticated = unauthorized, not_signed_in = unauthorized\<rparr>"

lemma demo_devise_ok: "devise_ok demo_devise"
  by (simp add: devise_ok_def demo_devise_def unauthorized_def json_reply_def rs_ok_def)

abbreviation demo_step :: "site \<Rightarrow> site \<Rightarrow> bool" where
  "demo_step \<equiv> site_step plain_platform demo_devise plain_env plain_reader (\<lambda>_. False)"

abbreviation demo_reach :: "site \<Rightarrow> bool" where
  "demo_reach \<equiv> site_reach plain_platform demo_devise plain_env plain_reader (\<lambda>_. False)"

definition demo_site :: "main_app \<Rightarrow> nat option \<Rightarrow> http_response option list \<Rightarrow> rails \<Rightarrow> service \<Rightarrow> site" where
  "demo_site p c ws r g = \<lparr>st_page = p, st_session = Some 1, st_conn = c, st_queue = [], st_wire = ws,
     st_rails = r, st_go = g\<rparr>"

definition claimed_run :: rails where
  "claimed_run = run_at ''done'' [] [MarkProcessing (asked ''pending''), StoreResult (asked ''pending'') go_result]"

lemma demo_rails:
  assumes "(rails_step plain_env (\<lambda>m. m \<in> set (sv_results g)) (\<lambda>_ reply. \<exists>e. reply = NoReply e))\<^sup>*\<^sup>* r r'"
  shows "demo_step\<^sup>*\<^sup>* (demo_site p None ws r g) (demo_site p None ws r' g)"
  using assms
proof (induction rule: rtranclp_induct)
  case (step x y)
  have "set_rails y (demo_site p None ws x g) = demo_site p None ws y g"
    by (simp add: demo_site_def set_rails_def stream_of_def)
  moreover have "demo_step (demo_site p None ws x g) (set_rails y (demo_site p None ws x g))"
    by (rule ss_rails) (use step(2) in \<open>simp add: demo_site_def\<close>)
  ultimately show ?case using step(3) by simp
qed simp

lemma claim_run:
  "(rails_step plain_env (\<lambda>m. m \<in> set (sv_results go_done)) replies)\<^sup>*\<^sup>*
     (run_at ''pending'' [] [MarkProcessing (asked ''pending'')]) claimed_run"
proof -
  let ?r = "run_at ''pending'' [] [MarkProcessing (asked ''pending'')]"
  let ?a = "add_task (ClaimResult (asked ''pending'') go_result) ?r"
  have j: "rm_job go_result = Some (lit ''j'')" "rm_status go_result = Some (lit ''done'')"
    by (simp_all add: go_result_def result_message_def)
  have "rails_step plain_env (\<lambda>m. m \<in> set (sv_results go_done)) replies ?r ?a"
    by (rule rs_deliver) (simp_all add: go_done_results work_find_def j run_defs lit_eq_iff)
  moreover have "rails_step plain_env (\<lambda>m. m \<in> set (sv_results go_done)) replies ?a
      (claim_result (asked ''pending'') go_result (drop_task 1 ?a))"
    by (rule rs_claim) (simp_all add: run_at_def add_task_def)
  moreover have "claim_result (asked ''pending'') go_result (drop_task 1 ?a) = claimed_run"
    by (simp add: claim_result_def work_claim_def j claimed_run_def set_request_def open_status_def run_defs)
  ultimately show ?thesis by (rule two_steps)
qed

lemma demo_index: "finish_request (Inr (index_feed_items 1 claimed_run)) = Inr empty_value"
  by (simp add: index_answer index_items_def claimed_run_def run_at_def rails_init_def empty_value_def)

definition demo_wire :: "http_response option list" where
  "demo_wire = replicate (length (calls on_dashboard)) None"

definition demo :: site where
  "demo = demo_site on_dashboard (Some 1) demo_wire claimed_run go_done"

lemma on_dashboard_subscribed: "subscribed_once on_dashboard"
  unfolding on_dashboard_def
  by (rule mount_subscribes [OF opened_dash]) (use on_dashboard_screen(2) in \<open>simp add: on_dashboard_def\<close>)

lemma demo_reach: "demo_reach demo"
proof -
  let ?s0 = "demo_site opened None [None] rails_init service_init"
  let ?r1 = "run_at ''pending'' [] [MarkProcessing (asked ''pending'')]"
  let ?s4 = "demo_site opened None [None] claimed_run go_done"
  have "site_start plain_platform ?s0"
    unfolding site_start_def
    by (intro exI [of _ "lit ''/feeds''"] exI [of _ "Some 1"])
      (simp add: demo_site_def page_open_def opened_def app_init_def twice_def plain_platform_def)
  then have 0: "demo_reach ?s0" unfolding site_reach_def by (rule reach_start)
  have 1: "demo_step\<^sup>*\<^sup>* ?s0 (demo_site opened None [None] ?r1 service_init)"
    by (rule demo_rails [OF run_start])
  have "go_step plain_reader (allowed (\<lambda>_. False) ?r1) service_init go_done"
    unfolding go_done_def
    by (rule gs_command) (simp_all add: allowed_def submitted_def run_at_def asked_def urls_to_fetch_def service_init_def sample_arrivals)
  then have "demo_step (demo_site opened None [None] ?r1 service_init) ((demo_site opened None [None] ?r1 service_init)\<lparr>st_go := go_done\<rparr>)"
    by (intro ss_go) (simp add: demo_site_def)
  then have 2: "demo_step (demo_site opened None [None] ?r1 service_init) (demo_site opened None [None] ?r1 go_done)"
    by (simp add: demo_site_def)
  have 3: "demo_step\<^sup>*\<^sup>* (demo_site opened None [None] ?r1 go_done) ?s4" by (rule demo_rails [OF claim_run])
  let ?w = "[Some (index_feed_items 1 claimed_run)]"
  have c: "calls opened = [(api_getFeedItems, CBootItems)]"
    by (simp add: opened_def app_init_def twice_def plain_platform_def)
  have "demo_step ?s4 ((set_rails claimed_run ?s4)\<lparr>st_session := Some 1, st_wire := (st_wire ?s4)[0 := Some (index_feed_items 1 claimed_run)]\<rparr>)"
    by (rule ss_serve [where e = ListItems and job = "[]"])
      (simp_all add: demo_site_def c routes authenticate_user_def claimed_run_def run_at_def asked_def lit_def)
  then have 4: "demo_step ?s4 (demo_site opened None ?w claimed_run go_done)"
    by (simp add: demo_site_def set_rails_def stream_of_def)
  have "commit plain_platform (answer_call plain_platform 0 (Inr (index_feed_items 1 claimed_run)) opened) = on_dashboard"
    by (simp only: on_dashboard_def answer_call_def demo_index answer_values(1))
  then have 5: "demo_step (demo_site opened None ?w claimed_run go_done) (demo_site on_dashboard None demo_wire claimed_run go_done)"
    using ss_answer [of 0 "demo_site opened None ?w claimed_run go_done" "index_feed_items 1 claimed_run" plain_platform
        demo_devise plain_env plain_reader "\<lambda>_. False"]
    by (simp add: demo_site_def c set_page_def drop_nth_def demo_wire_def)
  have "find_verified_user demo_devise (Some 1) = Some 1" by (simp add: find_verified_user_def demo_devise_def)
  then have 6: "demo_step (demo_site on_dashboard None demo_wire claimed_run go_done) demo"
    using ss_connect [of "demo_site on_dashboard None demo_wire claimed_run go_done" plain_platform demo_devise
        plain_env plain_reader "\<lambda>_. False"] on_dashboard_subscribed
    by (simp add: demo_site_def demo_def)
  note r = site_reach_steps
  show ?thesis
    using r [OF r [OF r [OF r [OF r [OF r [OF 0 1] r_into_rtranclp [where r = demo_step, OF 2]] 3]
      r_into_rtranclp [where r = demo_step, OF 4]] r_into_rtranclp [where r = demo_step, OF 5]]
      r_into_rtranclp [where r = demo_step, OF 6]] .
qed

text \<open>The next step of the jobs stores the result and broadcasts it.\<close>

definition demo_cast :: cast_msg where
  "demo_cast = cast_of (asked ''pending'') go_result"

definition stored_run :: rails where
  "stored_run = snd (work_finish plain_env (\<lambda>_. True) (asked ''pending'') go_result (drop_task 1 claimed_run))"

lemma stored_step: "rails_step plain_env msgs replies claimed_run stored_run"
  unfolding stored_run_def by (rule rs_store) (simp_all add: claimed_run_def run_at_def)

lemma go_result_fields:
  "or_empty (rm_items go_result) = [job_item (go_sample ''u'' ''l'' (0, 0, 0))]" "rm_status go_result = Some (lit ''done'')"
  by (simp_all add: go_result_def result_message_def or_null_def or_empty_def)

lemma stored_casts: "casts stored_run = casts claimed_run @ [(1, demo_cast)]" "bc_status demo_cast = lit ''done''"
    "bc_items demo_cast = [job_item (go_sample ''u'' ''l'' (0, 0, 0))]"
proof -
  have "fst (store_items plain_env (\<lambda>_. True) (rq_id (asked ''pending'')) (or_empty (rm_items go_result)) (drop_task 1 claimed_run)) = Inr ()"
    using lit_u by (intro store_items_succeed) (simp add: go_result_fields go_sample_def)
  then have "fst (work_finish plain_env (\<lambda>_. True) (asked ''pending'') go_result (drop_task 1 claimed_run)) = Inr ()"
    by (cases "store_items plain_env (\<lambda>_. True) (rq_id (asked ''pending'')) (or_empty (rm_items go_result)) (drop_task 1 claimed_run)")
      (simp add: work_finish_def act_simps go_result_fields)
  then show "casts stored_run = casts claimed_run @ [(1, demo_cast)]"
    by (cases rule: work_finish_cases [of plain_env "\<lambda>_. True" "asked ''pending''" go_result "drop_task 1 claimed_run"])
      (simp_all add: stored_run_def request_view_def demo_cast_def asked_def)
qed (simp_all add: demo_cast_def cast_of_def go_result_fields)

lemma demo_fields:
  "st_page demo = on_dashboard" "st_conn demo = Some 1" "st_queue demo = []" "st_rails demo = claimed_run"
  "st_session demo = Some 1" "st_go demo = go_done"
  by (simp_all add: demo_def demo_site_def)

lemma demo_ok: "site_ok plain_platform plain_env plain_reader (\<lambda>_. False) demo"
  by (rule site_reach_ok [OF plain_routes_ok demo_devise_ok demo_reach])

lemma demo_email: "userEmail on_dashboard \<noteq> []"
  by (simp add: on_dashboard_def commit_keeps answer_call_def opened_call answer_values boot_items_def act_simps
      get_prop_of lit_def)

lemma demo_taken:
  "\<exists>t. demo_step\<^sup>*\<^sup>* demo t \<and> st_session t = Some 2 \<and> userEmail (st_page t) = lit ''b'' \<and>
    screen_of plain_platform (st_page t) = SDash \<and> st_conn t = Some 1 \<and> st_rails t = stored_run \<and>
    (\<forall>item \<in> set (bc_items demo_cast). \<exists>xs. feedItems (st_page t) = Arr xs \<and>
       link_of (item_msg_value item) \<in> link_of ` set xs)"
proof -
  have "\<exists>t. (user_does plain_platform AhLogout [] OO call_served plain_platform demo_devise CLogout SignOut OO
      signs_in plain_platform demo_devise (lit ''b'') [] OO job_runs plain_env stored_run OO
      stream_delivers plain_platform demo_cast) demo t \<and> demo_step\<^sup>*\<^sup>* demo t \<and> st_session t = Some 2 \<and> userEmail (st_page t) = lit ''b'' \<and>
    screen_of plain_platform (st_page t) = SDash \<and> st_conn t = Some 1 \<and> st_rails t = stored_run \<and>
    (\<forall>item \<in> set (bc_items demo_cast). \<exists>xs. feedItems (st_page t) = Arr xs \<and>
       link_of (item_msg_value item) \<in> link_of ` set xs)"
    by (rule new_user_sees [OF plain_routes_ok demo_devise_ok demo_ok, where i = board])
      (simp_all add: demo_fields board demo_email stored_step stored_casts demo_devise_def)
  then show ?thesis by (rule ex_forward) (erule conjunct2)
qed

section \<open>The whole program\<close>





text \<open>C1. What the page shows agrees with the tables, whatever is delayed, lost, repeated or reordered: every row of
  its table is a stored request with the same URLs, whose shown status is pending or was broadcast for it,
  and what is on its way to the page is about requests of the user of its connection.\<close>

theorem page_agrees_with_tables:
  assumes "routes_ok pl" "devise_ok d" "sorts_items rd" "site_reach pl d env rd out s"
  shows "(\<forall>r \<in> set (pendingRequests (st_page s)). \<exists>q \<in> set (requests (st_rails s)).
      feed_request_id r = Num (int (rq_id q)) \<and> urls r = rq_urls q \<and>
      (status r = Str (lit ''pending'') \<or>
       (\<exists>c \<in> set (casts (st_rails s)). bc_request (snd c) = rq_id q \<and> status r = Str (bc_status (snd c))))) \<and>
    (\<forall>m \<in> set (st_queue s). \<exists>q \<in> set (requests (st_rails s)). rq_id q = bc_request m \<and> st_conn s = Some (rq_user q))"
proof
  note ok = site_reach_ok [OF assms(1,2,4)]
  then show "\<forall>r \<in> set (pendingRequests (st_page s)). \<exists>q \<in> set (requests (st_rails s)).
      feed_request_id r = Num (int (rq_id q)) \<and> urls r = rq_urls q \<and>
      (status r = Str (lit ''pending'') \<or>
       (\<exists>c \<in> set (casts (st_rails s)). bc_request (snd c) = rq_id q \<and> status r = Str (bc_status (snd c))))"
    by (simp add: site_ok_def page_sound_def row_backed_def)
  show "\<forall>m \<in> set (st_queue s). \<exists>q \<in> set (requests (st_rails s)). rq_id q = bc_request m \<and> st_conn s = Some (rq_user q)"
    using queue_to_owner [OF assms(3) ok] by blast
qed

definition demo_typed :: site where
  "demo_typed = set_page typed (st_wire demo) demo"

lemma demo_typed_reach: "demo_reach demo_typed"
  unfolding demo_typed_def
  by (rule site_reach_steps [OF demo_reach r_into_rtranclp [where r = demo_step, OF ss_page]])
    (simp add: demo_fields typed_step)

lemma demo_typed_fields: "st_page demo_typed = typed" "st_session demo_typed = Some 1" "st_rails demo_typed = claimed_run"
  by (simp_all add: demo_typed_def demo_fields)

lemma demo_typed_ok: "site_ok plain_platform plain_env plain_reader (\<lambda>_. False) demo_typed"
  by (rule site_reach_ok [OF plain_routes_ok demo_devise_ok demo_typed_reach])

lemma demo_submitted:
  "\<exists>t q. demo_step\<^sup>*\<^sup>* demo_typed t \<and> requests (st_rails t) = requests claimed_run @ [q] \<and>
    rq_urls q = [lit ''u''] \<and> (\<exists>j. pendingRequests (st_page t) = pendingRequests typed @
      [\<lparr>feed_request_id = Num (int (rq_id q)), job_id = Str j, urls = rq_urls q, status = Str (lit ''pending'')\<rparr>])"
proof -
  have d: "dash (st_page demo_typed) = Some board" "AhDash (DhForm FfSubmit) \<in> set (offered plain_platform (st_page demo_typed))"
    using typed_good(3) typed_offers by (simp_all add: demo_typed_fields)
  show ?thesis
    using submit_round [OF plain_routes_ok demo_devise_ok demo_typed_ok demo_typed_fields(2) d] typed_urls
    by (simp add: demo_typed_fields) metis
qed

lemma page_agrees_with_tables_witness:
  "\<exists>t r q. demo_reach t \<and> r \<in> set (pendingRequests (st_page t)) \<and> q \<in> set (requests (st_rails t)) \<and>
     feed_request_id r = Num (int (rq_id q)) \<and> urls r = rq_urls q"
proof -
  obtain t j and q :: feed_request where t: "demo_step\<^sup>*\<^sup>* demo_typed t" "pendingRequests (st_page t) = pendingRequests typed @
      [\<lparr>feed_request_id = Num (int (rq_id q)), job_id = Str j, urls = rq_urls q, status = Str (lit ''pending'')\<rparr>]"
    using demo_submitted by blast
  note r = site_reach_steps [OF demo_typed_reach t(1)]
  have "\<lparr>feed_request_id = Num (int (rq_id q)), job_id = Str j, urls = rq_urls q, status = Str (lit ''pending'')\<rparr>
      \<in> set (pendingRequests (st_page t))" using t(2) by simp
  with page_agrees_with_tables [OF plain_routes_ok demo_devise_ok plain_reader_ok r, THEN conjunct1] r show ?thesis by blast
qed

text \<open>C2. Every story the page shows is an entry of a feed someone asked for: whatever the page has loaded or received,
  each story has the title, the link and the description of one entry in the document that a URL delivered,
  under the title of that feed, and the URL is one of a stored request, or one that another client of the
  service asked for.\<close>

theorem stories_from_requested_feeds:
  assumes "routes_ok pl" "devise_ok d" "sorts_items rd" "site_reach pl d env rd out s"
  shows "\<exists>xs. feedItems (st_page s) = Arr xs \<and> (\<forall>x \<in> set xs. \<exists>i. \<exists>lib \<in> rd_libs rd. in_feed lib i \<and>
    link_of x = Str (gi_link i) \<and> prop_of x ''title'' = Str (gi_title i) \<and>
    prop_of x ''description'' = Str (gi_description i) \<and> prop_of x ''source'' = Str (gi_source i) \<and>
    prop_of x ''source_url'' = Str (gi_source_url i) \<and>
    (out (gi_source_url i) \<or> (\<exists>q \<in> set (requests (st_rails s)). gi_source_url i \<in> set (rq_urls q))))"
proof -
  have ok: "page_sound (story_backed (st_rails s)) (row_backed (st_rails s)) (st_page s)"
    using site_reach_ok [OF assms(1,2,4)] by (auto simp: site_ok_def)
  have "rails_items (item_from rd (allowed out (st_rails s))) (st_rails s)"
    using site_reach_sourced [OF assms] by (simp add: sourced_def)
  then have "story_from rd (allowed out (st_rails s)) x" if "story_backed (st_rails s) x" for x
    using that by (rule backed_from)
  with ok have "\<exists>xs. feedItems (st_page s) = Arr xs \<and> (\<forall>x \<in> set xs. story_from rd (allowed out (st_rails s)) x)"
    by (auto simp: page_sound_def all_of_def list_all_iff)
  then obtain xs where xs: "feedItems (st_page s) = Arr xs" "\<forall>x \<in> set xs. story_from rd (allowed out (st_rails s)) x" by blast
  show ?thesis
  proof (rule exI [of _ xs], intro conjI ballI)
    fix x assume "x \<in> set xs"
    with xs(2) obtain i lib where "shows_item x i" "lib \<in> rd_libs rd" "in_feed lib i" "allowed out (st_rails s) (gi_source_url i)"
      unfolding story_from_def by blast
    then show "\<exists>i. \<exists>lib \<in> rd_libs rd. in_feed lib i \<and>
        link_of x = Str (gi_link i) \<and> prop_of x ''title'' = Str (gi_title i) \<and>
        prop_of x ''description'' = Str (gi_description i) \<and> prop_of x ''source'' = Str (gi_source i) \<and>
        prop_of x ''source_url'' = Str (gi_source_url i) \<and>
        (out (gi_source_url i) \<or> (\<exists>q \<in> set (requests (st_rails s)). gi_source_url i \<in> set (rq_urls q)))"
      unfolding shows_item_def allowed_def submitted_def by (intro exI [of _ i] bexI [of _ lib]) auto
  qed (rule xs(1))
qed

lemma stories_from_requested_feeds_witness:
  "\<exists>t xs x. demo_reach t \<and> feedItems (st_page t) = Arr xs \<and> x \<in> set xs \<and> prop_of x ''source_url'' = Str (lit ''u'')"
proof -
  obtain t where t: "demo_step\<^sup>*\<^sup>* demo t" "st_rails t = stored_run"
      "\<forall>item \<in> set (bc_items demo_cast). \<exists>xs. feedItems (st_page t) = Arr xs \<and> link_of (item_msg_value item) \<in> link_of ` set xs"
    using demo_taken by blast
  note r = site_reach_steps [OF demo_reach t(1)]
  from t(3) obtain xs x where x: "feedItems (st_page t) = Arr xs" "x \<in> set xs" by (auto simp: stored_casts)
  have "requests stored_run = requests claimed_run"
    by (cases rule: work_finish_cases [of plain_env "\<lambda>_. True" "asked ''pending''" go_result "drop_task 1 claimed_run"])
      (simp_all add: stored_run_def request_view_def)
  then have "requests stored_run = [asked ''done'']" by (simp add: claimed_run_def run_at_def)
  with stories_from_requested_feeds [OF plain_routes_ok demo_devise_ok plain_reader_ok r] x t(2)
  have "prop_of x ''source_url'' = Str (lit ''u'')" by (auto simp: asked_def)
  with r x show ?thesis by blast
qed

text \<open>C8. The client and the router agree: every call in flight of a reachable page, whatever the server has answered
  before, is routed to the endpoint it is for, a login with the address it was called with and a submit with
  exactly its URLs in the parameter \<open>urls\<close>.\<close>

theorem calls_reach_their_endpoint:
  assumes "routes_ok pl" "app_reach pl answers feeds s" "i < length (calls s)"
  shows "\<exists>e. route_of (fst (calls s ! i)) = Some e \<and>
    (case snd (calls s ! i) of
       CLogin inst email \<Rightarrow> \<exists>password. e = SignIn email password
     | CLogout \<Rightarrow> e = SignOut
     | CSubmit inst us \<Rightarrow> e = CreateFeeds (Urls us)
     | k \<Rightarrow> e = (if k \<in> {CBootHealth, CDashHealth} \<or> (\<exists>inst. k = CLoginHealth inst) then HealthCheck else ListItems))"
  using call_routed [OF reach_calls_ok [OF assms(1,2)] assms(3)] by (cases "snd (calls s ! i)") auto

lemma calls_reach_their_endpoint_witness:
  "route_of (fst (calls (sent typed board) ! length (calls typed))) = Some (CreateFeeds (Urls [lit ''u'']))"
proof -
  have r: "app_reach plain_platform plain_answers plain_feeds (sent typed board)"
    using reach_step [OF reach_step [OF on_dashboard_reach [unfolded app_reach_def] typed_step] sent_step]
    unfolding app_reach_def .
  have "length (calls typed) < length (calls (sent typed board))" by (simp add: sent_def)
  from calls_reach_their_endpoint [OF plain_routes_ok r this] show ?thesis by (simp add: sent_call)
qed

section \<open>Runs\<close>

text \<open>C6. An offered submit can be carried through: from every reachable state with a signed-in session there is a run
  after which the tables hold one more request, of that user, with exactly the trimmed URLs of the form and a
  queued job, and the page shows its row and accepts the next submit.\<close>

theorem submit_is_recorded:
  assumes "routes_ok pl" "devise_ok d" "site_reach pl d env rd out s" "st_session s = Some u"
    and "dash (st_page s) = Some inst" "AhDash (DhForm FfSubmit) \<in> set (offered pl (st_page s))"
  shows "\<exists>t q. (site_step pl d env rd out)\<^sup>*\<^sup>* s t \<and> requests (st_rails t) = requests (st_rails s) @ [q] \<and>
    rq_user q = u \<and> rq_urls q = active_urls (form_urls (st_page s)) \<and> rq_status q = lit ''pending'' \<and>
    Publish (rq_id q) \<in> set (tasks (st_rails t)) \<and> \<not> loading (st_page t) \<and>
    (\<exists>j. pendingRequests (st_page t) = pendingRequests (st_page s) @ [\<lparr>feed_request_id = Num (int (rq_id q)), job_id = Str j,
      urls = rq_urls q, status = Str (lit ''pending'')\<rparr>])"
  by (rule submit_round [OF assms(1,2) site_reach_ok [OF assms(1-3)] assms(4-6)])

lemma submit_is_recorded_witness:
  "\<exists>t q. demo_step\<^sup>*\<^sup>* demo_typed t \<and> requests (st_rails t) = [asked ''done'', q] \<and> rq_urls q = [lit ''u'']"
proof -
  have d: "dash (st_page demo_typed) = Some board" "AhDash (DhForm FfSubmit) \<in> set (offered plain_platform (st_page demo_typed))"
    using typed_good(3) typed_offers by (simp_all add: demo_typed_fields)
  have "requests claimed_run = [asked ''done'']" by (simp add: claimed_run_def run_at_def)
  with submit_is_recorded [OF plain_routes_ok demo_devise_ok demo_typed_reach demo_typed_fields(2) d] typed_urls
  show ?thesis by (fastforce simp: demo_typed_fields)
qed

text \<open>C32. The connection outlives the session: the consumer of \<open>cable.js\<close> lives as long as the page and the connection is
  identified only when it opens. So in every reachable state with a dashboard whose connection is open there is
  this run: its user signs out and the call is served, another user signs in with the form of the same page, a
  job broadcasts to the first user. The connection is still the one of the first user, and the second is shown the
  stories.\<close>

theorem connection_outlives_session:
  assumes "routes_ok pl" "devise_ok d" "site_reach pl d env rd out s"
    and "dash (st_page s) = Some inst" "userEmail (st_page s) \<noteq> []" "st_conn s = Some u" "st_queue s = []"
    and "account d email password = Some v" "u \<noteq> v"
    and "rails_step env (\<lambda>m. m \<in> set (sv_results (st_go s))) (\<lambda>_ reply. \<exists>e. reply = NoReply e) (st_rails s) r"
    and "casts r = casts (st_rails s) @ [(u, m)]" "bc_status m = lit ''done''"
  shows "\<exists>t. (user_does pl AhLogout [] OO call_served pl d CLogout SignOut OO signs_in pl d email password OO
      job_runs env r OO stream_delivers pl m) s t \<and> (site_step pl d env rd out)\<^sup>*\<^sup>* s t \<and>
    st_session t = Some v \<and> userEmail (st_page t) = email \<and> screen_of pl (st_page t) = SDash \<and>
    st_conn t = Some u \<and> st_rails t = r \<and>
    (\<forall>item \<in> set (bc_items m). \<exists>xs. feedItems (st_page t) = Arr xs \<and>
       link_of (item_msg_value item) \<in> link_of ` set xs)"
  by (rule new_user_sees [OF assms(1,2) site_reach_ok [OF assms(1-3)] assms(4-8,10-12)])

lemma connection_outlives_session_witness:
  "\<exists>t xs. demo_reach t \<and> st_session t = Some 2 \<and> st_conn t = Some 1 \<and> casts (st_rails t) = [(1, demo_cast)] \<and>
     feedItems (st_page t) = Arr xs \<and> Str (lit ''l'') \<in> link_of ` set xs"
proof -
  have "dash (st_page demo) = Some board" "userEmail (st_page demo) \<noteq> []" "account demo_devise (lit ''b'') [] = Some 2"
    by (simp_all add: demo_fields board demo_email demo_devise_def)
  note run = connection_outlives_session [OF plain_routes_ok demo_devise_ok demo_reach this(1,2) demo_fields(2,3) this(3), of stored_run demo_cast]
  have "rails_step plain_env (\<lambda>m. m \<in> set (sv_results (st_go demo))) (\<lambda>_ reply. \<exists>e. reply = NoReply e) (st_rails demo) stored_run"
    "casts stored_run = casts (st_rails demo) @ [(1, demo_cast)]"
    by (simp_all only: demo_fields stored_step stored_casts)
  moreover have "(1 :: nat) \<noteq> 2" by simp
  note run [OF this]
  from this [OF calculation stored_casts(2)] obtain t where
      t: "demo_step\<^sup>*\<^sup>* demo t" "st_session t = Some 2" "st_rails t = stored_run" "st_conn t = Some 1"
      "\<forall>item \<in> set (bc_items demo_cast). \<exists>xs. feedItems (st_page t) = Arr xs \<and> link_of (item_msg_value item) \<in> link_of ` set xs"
    by (elim exE conjE) (use that in simp_all)
  have "casts stored_run = [(1, demo_cast)]" by (simp add: stored_casts claimed_run_def run_at_def)
  moreover have "link_of (item_msg_value (job_item (go_sample ''u'' ''l'' (0, 0, 0)))) = Str (lit ''l'')"
    by (simp add: job_item_link go_sample_def)
  ultimately show ?thesis
    using t site_reach_steps [OF demo_reach t(1)] by (auto simp: stored_casts(3))
qed

text \<open>C31. A logout whose call is lost leaves the session of the cookie alive: the page forgets the user, but the next
  login is answered for the old session without a look at the credentials. So in every reachable state with a
  signed-in dashboard there is this run: the user signs out and the call fails, then somebody signs in with the form of the
  same page, with any address and any password, and the login is served. The page shows that address, the session is still
  the first user's, and the server serves the first user's stories.\<close>

theorem lost_logout_keeps_session:
  assumes "routes_ok pl" "devise_ok d" "site_reach pl d env rd out s"
    and "dash (st_page s) = Some inst" "userEmail (st_page s) \<noteq> []" "st_session s = Some u"
  shows "\<exists>t. (user_does pl AhLogout [] OO call_fails pl CLogout OO signs_in pl d email password) s t \<and>
    (site_step pl d env rd out)\<^sup>*\<^sup>* s t \<and> userEmail (st_page t) = email \<and> screen_of pl (st_page t) = SDash \<and>
    st_session t = Some u \<and> st_rails t = st_rails s \<and>
    (\<forall>job. serve d job ListItems (st_session t) (st_rails t) = (index_feed_items u (st_rails s), Some u, st_rails s))"
  by (rule old_session_serves [OF assms(1,2) site_reach_ok [OF assms(1-3)] assms(4-6)])

lemma lost_logout_keeps_session_witness:
  "\<exists>t. (user_does plain_platform AhLogout [] OO call_fails plain_platform CLogout OO
       signs_in plain_platform demo_devise (lit ''x'') (lit ''wrong'')) demo t \<and> userEmail (st_page t) = lit ''x'' \<and>
     serve demo_devise [] ListItems (st_session t) (st_rails t) = (index_feed_items 1 claimed_run, Some 1, claimed_run)"
proof -
  have "dash (st_page demo) = Some board" "userEmail (st_page demo) \<noteq> []" by (simp_all add: demo_fields board demo_email)
  from lost_logout_keeps_session [OF plain_routes_ok demo_devise_ok demo_reach this demo_fields(5), of "lit ''x''" "lit ''wrong''"]
  show ?thesis unfolding demo_fields by blast
qed

end
