(* ===== verification/FetchPool.thy ===== *)
theory FetchPool
  imports GoFacts
begin

text \<open>
  The goroutines of \<open>Parse\<close> (\<open>rss_reader/rssreader.go\<close>): one for each URL, of which at most the limit of
  the configuration hold a place of the semaphore. They send their results to a channel with
  room for all of them. The end of the context is part of the environment.
\<close>

section \<open>State and steps\<close>

text \<open>A goroutine waits for the semaphore or for the end of the context, fetches, has sent its result and still
  holds its place, or has ended.\<close>

datatype phase = Waiting | Fetching | Sent | Ended

fun holds :: "phase \<Rightarrow> bool" where
  "holds Waiting = False"
| "holds Fetching = True"
| "holds Sent = True"
| "holds Ended = False"

fun has_sent :: "phase \<Rightarrow> bool" where
  "has_sent Waiting = False"
| "has_sent Fetching = False"
| "has_sent Sent = True"
| "has_sent Ended = True"

record pool =
  fp_tasks :: "(jsstr \<times> phase) list"
  fp_results :: "arrival list"
  fp_context :: "jsstr option"

definition set_phase :: "nat \<Rightarrow> phase \<Rightarrow> pool \<Rightarrow> pool" where
  "set_phase i ph p = p\<lparr>fp_tasks := (fp_tasks p)[i := (fst (fp_tasks p ! i), ph)]\<rparr>"

definition send_result :: "jsstr \<Rightarrow> jsstr + go_item list \<Rightarrow> pool \<Rightarrow> pool" where
  "send_result u r p = p\<lparr>fp_results := fp_results p @ [(u, r)]\<rparr>"

definition in_phase :: "pool \<Rightarrow> nat \<Rightarrow> jsstr \<Rightarrow> phase \<Rightarrow> bool" where
  "in_phase p i u ph \<longleftrightarrow> i < length (fp_tasks p) \<and> fp_tasks p ! i = (u, ph)"

text \<open>The URLs of the goroutines in some phases.\<close>

definition urls_in :: "(phase \<Rightarrow> bool) \<Rightarrow> pool \<Rightarrow> jsstr multiset" where
  "urls_in P p = image_mset fst (filter_mset (P \<circ> snd) (mset (fp_tasks p)))"

definition places :: "pool \<Rightarrow> nat" where
  "places p = size (urls_in holds p)"

inductive pool_step :: "reader \<Rightarrow> pool \<Rightarrow> pool \<Rightarrow> bool" for rd where
  ps_acquire: "in_phase p i u Waiting \<Longrightarrow> int (places p) < concurrency_limit (rd_config rd) \<Longrightarrow>
    pool_step rd p (set_phase i Fetching p)"
| ps_give_up: "in_phase p i u Waiting \<Longrightarrow> fp_context p = Some e \<Longrightarrow>
    pool_step rd p (send_result u (Inl e) (set_phase i Ended p))"
| ps_send: "in_phase p i u Fetching \<Longrightarrow> lib \<in> rd_libs rd \<Longrightarrow>
    pool_step rd p (send_result u (fetch_and_parse (rd_config rd) lib u) (set_phase i Sent p))"
| ps_release: "in_phase p i u Sent \<Longrightarrow> pool_step rd p (set_phase i Ended p)"
| ps_context: "fp_context p = None \<Longrightarrow> e \<in> context_errors \<Longrightarrow> pool_step rd p (p\<lparr>fp_context := Some e\<rparr>)"

definition pool_start :: "jsstr list \<Rightarrow> pool \<Rightarrow> bool" where
  "pool_start urls p \<longleftrightarrow> fp_tasks p = map (\<lambda>u. (u, Waiting)) urls \<and> fp_results p = [] \<and>
     set_option (fp_context p) \<subseteq> context_errors"

definition pool_reach :: "reader \<Rightarrow> jsstr list \<Rightarrow> pool \<Rightarrow> bool" where
  "pool_reach rd urls p \<longleftrightarrow> reach (pool_start urls) (pool_step rd) p"

text \<open>The wait group is done, so the channel is closed and the loop over it ends.\<close>

definition returned :: "pool \<Rightarrow> bool" where
  "returned p \<longleftrightarrow> (\<forall>t \<in> set (fp_tasks p). snd t = Ended)"

section \<open>One goroutine moves\<close>

lemma set_phase_mset:
  assumes "in_phase p i u a"
  obtains M where "mset (fp_tasks p) = add_mset (u, a) M" "mset (fp_tasks (set_phase i b p)) = add_mset (u, b) M"
proof -
  have i: "i < length (fp_tasks p)" "fp_tasks p ! i = (u, a)" using assms by (simp_all add: in_phase_def)
  have "mset (fp_tasks p) = add_mset (u, a) (mset (fp_tasks p) - {#(u, a)#})"
    using i by (metis insert_DiffM nth_mem_mset)
  moreover have "mset (fp_tasks (set_phase i b p)) = add_mset (u, b) (mset (fp_tasks p) - {#(u, a)#})"
    using i by (simp add: set_phase_def mset_update)
  ultimately show thesis by (rule that)
qed

lemma set_phase_urls:
  assumes "in_phase p i u a"
  shows "urls_in P (set_phase i b p) + (if P a then {#u#} else {#}) = urls_in P p + (if P b then {#u#} else {#})"
proof -
  obtain M where "mset (fp_tasks p) = add_mset (u, a) M" "mset (fp_tasks (set_phase i b p)) = add_mset (u, b) M"
    using set_phase_mset [OF assms] .
  then show ?thesis by (simp add: urls_in_def)
qed

lemma set_phase_frame [simp]:
  "fp_results (set_phase i ph p) = fp_results p" "fp_context (set_phase i ph p) = fp_context p"
  by (simp_all add: set_phase_def)

lemma send_result_frame [simp]:
  "fp_tasks (send_result u r p) = fp_tasks p" "fp_context (send_result u r p) = fp_context p"
  "fp_results (send_result u r p) = fp_results p @ [(u, r)]" "urls_in P (send_result u r p) = urls_in P p"
  "places (send_result u r p) = places p"
  by (simp_all add: send_result_def urls_in_def places_def)

lemma urls_in_none: "(\<And>t. t \<in> set (fp_tasks p) \<Longrightarrow> \<not> P (snd t)) \<Longrightarrow> urls_in P p = {#}"
  by (simp add: urls_in_def flip: mset_filter)

lemma urls_in_all: "(\<And>t. t \<in> set (fp_tasks p) \<Longrightarrow> P (snd t)) \<Longrightarrow> urls_in P p = mset (map fst (fp_tasks p))"
  by (simp add: urls_in_def flip: mset_filter)

lemma set_phase_fst: "in_phase p i u a \<Longrightarrow> map fst (fp_tasks (set_phase i b p)) = map fst (fp_tasks p)"
  by (rule nth_equalityI) (auto simp: in_phase_def set_phase_def nth_list_update)

lemma set_phase_places:
  "in_phase p i u a \<Longrightarrow> places (set_phase i b p) + of_bool (holds a) = places p + of_bool (holds b)"
  using arg_cong [OF set_phase_urls [of p i u a holds b], of size] by (simp add: places_def split: if_splits)

section \<open>The invariant\<close>

text \<open>Every goroutine that has sent a result has sent one, for its URL; the semaphore is respected.\<close>

definition pool_ok :: "reader \<Rightarrow> jsstr list \<Rightarrow> pool \<Rightarrow> bool" where
  "pool_ok rd urls p \<longleftrightarrow> map fst (fp_tasks p) = urls \<and> mset (map fst (fp_results p)) = urls_in has_sent p \<and>
     (\<forall>(u, r) \<in> set (fp_results p). outcome_of rd u r) \<and>
     int (places p) \<le> concurrency_limit (rd_config rd) \<and> set_option (fp_context p) \<subseteq> context_errors"

lemma start_ok:
  assumes "0 \<le> concurrency_limit (rd_config rd)" "pool_start urls p"
  shows "pool_ok rd urls p"
proof -
  have t: "fp_tasks p = map (\<lambda>u. (u, Waiting)) urls" using assms(2) by (simp add: pool_start_def)
  then have w: "snd t = Waiting" if "t \<in> set (fp_tasks p)" for t using that by auto
  have "urls_in has_sent p = {#}" "urls_in holds p = {#}" by (rule urls_in_none; simp add: w)+
  with assms t show ?thesis by (simp add: pool_start_def pool_ok_def places_def o_def)
qed

lemma step_ok:
  assumes "pool_ok rd urls p" "pool_step rd p q"
  shows "pool_ok rd urls q"
  using assms(2)
proof (cases rule: pool_step.cases)
  case (ps_acquire i u)
  with assms(1) set_phase_urls [OF ps_acquire(2), of has_sent Fetching] set_phase_places [OF ps_acquire(2), of Fetching]
  show ?thesis by (simp add: pool_ok_def set_phase_fst)
next
  case (ps_give_up i u e)
  with assms(1) set_phase_urls [OF ps_give_up(2), of has_sent Ended] set_phase_places [OF ps_give_up(2), of Ended]
  show ?thesis by (auto simp: pool_ok_def set_phase_fst outcome_of_def)
next
  case (ps_send i u lib)
  with assms(1) set_phase_urls [OF ps_send(2), of has_sent Sent] set_phase_places [OF ps_send(2), of Sent]
  show ?thesis by (auto simp: pool_ok_def set_phase_fst outcome_of_def)
next
  case (ps_release i u)
  with assms(1) set_phase_urls [OF ps_release(2), of has_sent Ended] set_phase_places [OF ps_release(2), of Ended]
  show ?thesis by (simp add: pool_ok_def set_phase_fst)
next
  case (ps_context e)
  with assms(1) show ?thesis by (simp add: pool_ok_def urls_in_def places_def)
qed

text \<open>The limit of a configured reader is positive, whatever its options are.\<close>

lemma apply_options_positive:
  "0 < concurrency_limit c \<Longrightarrow> 0 < max_body_size c \<Longrightarrow>
   0 < concurrency_limit (fold apply_option opts c) \<and> 0 < max_body_size (fold apply_option opts c)"
proof (induction opts arbitrary: c)
  case (Cons x opts)
  show ?case unfolding fold_Cons o_apply
    by (rule Cons.IH) (use Cons.prems in \<open>cases x; simp\<close>)+
qed simp

lemma new_reader_positive: "0 < concurrency_limit (new_reader opts)" "0 < max_body_size (new_reader opts)"
  using apply_options_positive unfolding new_reader_def by simp_all

definition configured :: "reader \<Rightarrow> bool" where
  "configured rd \<longleftrightarrow> (\<exists>opts. rd_config rd = new_reader opts)"

lemma configured_positive: "configured rd \<Longrightarrow> 0 < concurrency_limit (rd_config rd)"
  by (auto simp: configured_def new_reader_positive)

interpretation pool: inductive_invariant "\<lambda>p. configured rd \<and> pool_start urls p" "pool_step rd" "pool_ok rd urls"
  by unfold_locales (use start_ok less_imp_le [OF configured_positive] step_ok in blast)+

section \<open>Every goroutine ends\<close>

fun phase_steps :: "phase \<Rightarrow> nat" where
  "phase_steps Waiting = 3"
| "phase_steps Fetching = 2"
| "phase_steps Sent = 1"
| "phase_steps Ended = 0"

text \<open>The steps that are left: those of the goroutines and the end of the context.\<close>

definition steps_left :: "pool \<Rightarrow> nat" where
  "steps_left p = (\<Sum>t \<in># mset (fp_tasks p). phase_steps (snd t)) + of_bool (fp_context p = None)"

lemma set_phase_steps:
  assumes "in_phase p i u a"
  shows "steps_left (set_phase i b p) + phase_steps a = steps_left p + phase_steps b"
proof -
  obtain M where "mset (fp_tasks p) = add_mset (u, a) M" "mset (fp_tasks (set_phase i b p)) = add_mset (u, b) M"
    using set_phase_mset [OF assms] .
  then show ?thesis by (simp add: steps_left_def)
qed

lemma send_result_steps [simp]: "steps_left (send_result u r p) = steps_left p"
  by (simp add: steps_left_def)

lemma step_decreases: "pool_step rd p q \<Longrightarrow> steps_left q < steps_left p"
proof (induction rule: pool_step.induct)
  case (ps_acquire p i u)
  then show ?case using set_phase_steps [of p i u Waiting Fetching] by simp
next
  case (ps_give_up p i u e)
  then show ?case using set_phase_steps [of p i u Waiting Ended] by simp
next
  case (ps_send p i u lib)
  then show ?case using set_phase_steps [of p i u Fetching Sent] by simp
next
  case (ps_release p i u)
  then show ?case using set_phase_steps [of p i u Sent Ended] by simp
qed (simp add: steps_left_def)

lemma run_steps: "run_of (pool_step rd) p ts \<Longrightarrow> length ts \<le> steps_left p"
proof (induction ts arbitrary: p)
  case (Cons q ts)
  then have "length ts \<le> steps_left q" "steps_left q < steps_left p" using step_decreases by auto
  then show ?case by simp
qed simp

lemma steps_bound: "steps_left p \<le> 3 * length (fp_tasks p) + 1"
proof -
  have "(\<Sum>t \<in># mset ts. phase_steps (snd t)) \<le> 3 * length ts" for ts :: "(jsstr \<times> phase) list"
  proof (induction ts)
    case (Cons t ts)
    have "phase_steps (snd t) \<le> 3" by (cases "snd t") simp_all
    with Cons show ?case by simp
  qed simp
  from this [of "fp_tasks p"] show ?thesis unfolding steps_left_def by (cases "fp_context p") auto
qed

text \<open>No deadlock: a goroutine that has a place can move, and when none has one, one that waits gets it.\<close>

lemma pool_moves:
  assumes "0 < concurrency_limit (rd_config rd)" "rd_libs rd \<noteq> {}" "\<not> returned p"
  shows "\<exists>q. pool_step rd p q \<and> fp_context q = fp_context p"
proof -
  have at: "\<exists>i. in_phase p i (fst t) (snd t)" if "t \<in> set (fp_tasks p)" for t
    using that by (auto simp: in_phase_def in_set_conv_nth)
  obtain t where t: "t \<in> set (fp_tasks p)" "snd t \<noteq> Ended" using assms(3) by (auto simp: returned_def)
  show ?thesis
  proof (cases "\<exists>t' \<in> set (fp_tasks p). holds (snd t')")
    case True
    then obtain t' i where i: "in_phase p i (fst t') (snd t')" "holds (snd t')" using at by blast
    show ?thesis
    proof (cases "snd t'")
      case Fetching
      moreover obtain lib where "lib \<in> rd_libs rd" using assms(2) by blast
      ultimately show ?thesis
        using ps_send [of p i "fst t'" lib rd] i(1)
        by (intro exI [of _ "send_result (fst t') (fetch_and_parse (rd_config rd) lib (fst t')) (set_phase i Sent p)"]) simp
    next
      case Sent
      then show ?thesis using ps_release [of p i "fst t'" rd] i(1) by (intro exI [of _ "set_phase i Ended p"]) simp
    qed (use i(2) in simp_all)
  next
    case False
    then have "places p = 0" by (simp add: places_def urls_in_none)
    moreover obtain i where "in_phase p i (fst t) Waiting"
      using at [OF t(1)] t False by (cases "snd t") auto
    ultimately show ?thesis
      using ps_acquire [of p i "fst t" rd] assms(1) by (intro exI [of _ "set_phase i Fetching p"]) simp
  qed
qed

lemma returned_urls: "returned p \<Longrightarrow> urls_in has_sent p = mset (map fst (fp_tasks p))"
  by (rule urls_in_all) (simp add: returned_def)

lemma returned_arrivals: "pool_ok rd urls p \<Longrightarrow> returned p \<Longrightarrow> arrivals rd urls (fp_results p)"
  using returned_urls [of p] unfolding pool_ok_def arrivals_def by auto

lemma sent_le: "pool_ok rd urls p \<Longrightarrow> length (fp_results p) \<le> length urls"
proof -
  assume "pool_ok rd urls p"
  then have "mset (map fst (fp_results p)) = urls_in has_sent p" "urls = map fst (fp_tasks p)"
    by (simp_all add: pool_ok_def)
  then have "length (fp_results p) = size (urls_in has_sent p)" "length urls = length (fp_tasks p)"
    by (metis size_mset length_map)+
  then show ?thesis by (simp add: urls_in_def size_filter_mset_lesseq [THEN order_trans])
qed

section \<open>The size limit\<close>

text \<open>A body that is parsed is the whole body of a response with code 200 that is within the limit.\<close>

lemma fetch_url_Inr:
  assumes "0 < max_body_size c"
  shows "fetch_url c dl = Inr body \<longleftrightarrow> (\<exists>st. dl = Response 200 st body None) \<and> int (length body) \<le> max_body_size c"
proof (cases dl)
  case (Response code st bytes broken)
  have "int (length bytes) \<le> max_body_size c \<longleftrightarrow> length bytes < nat (max_body_size c + 1)" by auto
  then show ?thesis
    unfolding Response fetch_url_def by (auto simp: Let_def split: option.splits if_splits)
qed (simp_all add: fetch_url_def)

end
