(* ===== verification/Tokens.thy ===== *)
theory Tokens
  imports GoFacts JsonRound
begin

text \<open>
  The tokens of the fallback: \<open>JwtService\<close> signs one for the user of a request, \<open>PublishFeedJob\<close> sends it
  with its call of \<open>/parse\<close>, and the middleware of the service checks it (\<open>auth/jwt.go\<close>). The two token
  libraries are parameters.
\<close>

section \<open>The libraries\<close>

text \<open>\<open>JWT.encode\<close> with the private key; the payload of a token whose signature and algorithm the service accepts;
  and the decoding of a payload into \<open>Claims\<close>, of which the id and the time of expiry are used.\<close>

record jwt_lib =
  jwt_encode :: "jsval \<Rightarrow> jsstr"
  jwt_verify :: "jsstr \<Rightarrow> jsval option"
  jwt_claims :: "jsval \<Rightarrow> (jsstr \<times> int option) option"

text \<open>The claims of a token with a text as its subject.\<close>

definition subject_payload :: "jsstr \<Rightarrow> jsstr \<Rightarrow> int \<Rightarrow> jsval" where
  "subject_payload sub jti expiry = Obj [(lit ''sub'', Str sub), (lit ''jti'', Str jti), (lit ''exp'', Num expiry)]"

text \<open>The documented behaviour of the libraries: what is signed is verified, a token has no spaces, and \<open>RegisteredClaims\<close>,
  whose \<open>Subject\<close> is a \<open>string\<close>, is decoded by \<open>encoding/json\<close>, which fails on a number there.\<close>

definition jwt_lib_ok :: "jwt_lib \<Rightarrow> bool" where
  "jwt_lib_ok L \<longleftrightarrow>
     (\<forall>p. jsonable p \<longrightarrow> jwt_verify L (jwt_encode L p) = Some p \<and> cu CHR '' '' \<notin> set (jwt_encode L p)) \<and>
     (\<forall>ps n. map_of ps (lit ''sub'') = Some (Num n) \<longrightarrow> jwt_claims L (Obj ps) = None) \<and>
     (\<forall>sub jti expiry. jwt_claims L (subject_payload sub jti expiry) = Some (jti, Some expiry))"

section \<open>Signing and checking\<close>

text \<open>\<open>JwtService.generate_token\<close>: \<open>jti\<close> is the generated id, \<open>now\<close> the time in seconds. The column \<open>jwt_jti\<close> that
  it also writes is read nowhere.\<close>

definition token_payload :: "nat \<Rightarrow> jsstr \<Rightarrow> int \<Rightarrow> jsval" where
  "token_payload user jti now =
     Obj [(lit ''sub'', Num (int user)), (lit ''jti'', Str jti), (lit ''exp'', Num (now + 5 * 60))]"

definition generate_token :: "jwt_lib \<Rightarrow> nat \<Rightarrow> jsstr \<Rightarrow> int \<Rightarrow> jsstr" where
  "generate_token L user jti now = jwt_encode L (token_payload user jti now)"

text \<open>The header of \<open>execute_fallback\<close>.\<close>

definition fallback_header :: "jsstr \<Rightarrow> jsstr" where
  "fallback_header token = lit ''Bearer '' @ token"

text \<open>\<open>jwt.ParseWithClaims\<close>: the id of a token that is verified, decoded and not expired.\<close>

definition parse_with_claims :: "jwt_lib \<Rightarrow> int \<Rightarrow> jsstr \<Rightarrow> jsstr option" where
  "parse_with_claims L now token =
     (case jwt_verify L token of
        None \<Rightarrow> None
      | Some payload \<Rightarrow>
          (case jwt_claims L payload of
             None \<Rightarrow> None
           | Some (jti, expiry) \<Rightarrow>
               (case expiry of Some e \<Rightarrow> if now < e then Some jti else None | None \<Rightarrow> Some jti)))"

section \<open>What is accepted\<close>

lemma split_once: "c \<notin> set p \<Longrightarrow> c \<notin> set q \<Longrightarrow> split_on c (p @ c # q) = [p, q]"
proof (induction p)
  case Nil
  have "split_on c q = [q]" if "c \<notin> set q" for q using that by (induction q) auto
  with Nil show ?case by simp
qed auto

lemma fallback_authorized:
  assumes "cu CHR '' '' \<notin> set token"
  shows "authorized valid (fallback_header token) = valid token"
proof -
  have "fallback_header token = lit ''Bearer'' @ cu CHR '' '' # token"
    by (simp add: fallback_header_def lit_def)
  moreover have "cu CHR '' '' \<notin> set (lit ''Bearer'')" by (simp add: lit_def cu_def)
  ultimately have "split_on (cu CHR '' '') (fallback_header token) = [lit ''Bearer'', token]"
    using split_once assms by simp
  moreover have "map lower_unit (lit ''Bearer'') = lit ''bearer''" by (simp add: lit_def cu_def lower_unit_def)
  ultimately show ?thesis by (simp add: authorized_def)
qed

lemma payload_jsonable: "jsonable (token_payload user jti now)" "jsonable (subject_payload sub jti expiry)"
  by (simp_all add: token_payload_def subject_payload_def lit_eq_iff)

lemma signed:
  assumes "jwt_lib_ok L" "jsonable p"
  shows "jwt_verify L (jwt_encode L p) = Some p" "cu CHR '' '' \<notin> set (jwt_encode L p)"
  using assms by (auto simp: jwt_lib_ok_def)

lemma generated_refused:
  assumes "jwt_lib_ok L"
  shows "parse_with_claims L now (generate_token L user jti issued) = None"
proof -
  have "jwt_claims L (token_payload user jti issued) = None"
    using assms unfolding jwt_lib_ok_def token_payload_def by (metis map_of_Cons_code(2))
  then show ?thesis
    by (simp add: parse_with_claims_def generate_token_def signed [OF assms payload_jsonable(1)])
qed

lemma subject_accepted:
  assumes "jwt_lib_ok L"
  shows "parse_with_claims L now (jwt_encode L (subject_payload sub jti expiry)) =
    (if now < expiry then Some jti else None)"
  using assms signed(1) [OF assms payload_jsonable(2)] by (simp add: parse_with_claims_def jwt_lib_ok_def)

text \<open>The fallback after a refused call.\<close>

lemma refused_fallback:
  "let t = snd (execute_fallback env up (Reply 401 None) r s)
   in item_table t = item_table s \<and> casts t = casts s @ [(rq_user r,
        \<lparr>bc_request = rq_id r, bc_status = lit ''failed'', bc_items = [],
         bc_errors = [Str (lit ''Go RSS parser fallback failed with HTTP 401'')]\<rparr>)] \<and>
      requests t = map (\<lambda>x. if rq_id x = rq_id r then x\<lparr>rq_job := rq_job r, rq_status := lit ''failed''\<rparr> else x) (requests s)"
proof -
  have "lit ''Go RSS parser fallback failed with HTTP '' @ digits 401 = lit ''Go RSS parser fallback failed with HTTP 401''"
    by (simp add: lit_def cu_def digits.simps)
  then show ?thesis
    by (simp add: execute_fallback_def act_simps update_request_def reply_job_def STATUSES_def)
qed

section \<open>An instance\<close>

text \<open>Tokens that are the text of their payload, with the spaces escaped.\<close>

fun plain_encode :: "jsstr \<Rightarrow> jsstr" where
  "plain_encode [] = []"
| "plain_encode (c # cs) = (if c = cu CHR '' '' then [0, 0] else [1, c]) @ plain_encode cs"

fun plain_decode :: "jsstr \<Rightarrow> jsstr" where
  "plain_decode (m # c # cs) = (if m = 0 then cu CHR '' '' else c) # plain_decode cs"
| "plain_decode _ = []"

definition plain_claims :: "jsval \<Rightarrow> (jsstr \<times> int option) option" where
  "plain_claims v =
     (case v of
        Obj ps \<Rightarrow>
          (case (map_of ps (lit ''sub''), map_of ps (lit ''jti''), map_of ps (lit ''exp'')) of
             (Some (Str _), Some (Str jti), Some (Num e)) \<Rightarrow> Some (jti, Some e) | _ \<Rightarrow> None)
      | _ \<Rightarrow> None)"

definition plain_jwt :: jwt_lib where
  "plain_jwt = \<lparr>jwt_encode = (\<lambda>v. plain_encode (stringify v)), jwt_verify = (\<lambda>t. json_parse (plain_decode t)),
     jwt_claims = plain_claims\<rparr>"

lemma plain_decode_encode: "plain_decode (plain_encode s) = s" "cu CHR '' '' \<notin> set (plain_encode s)"
  by (induction s) (auto simp: cu_def)

lemma plain_jwt_ok: "jwt_lib_ok plain_jwt"
  by (simp add: jwt_lib_ok_def plain_jwt_def plain_decode_encode json_round_trip plain_claims_def subject_payload_def
      lit_eq_iff)

end
