(* ===== verification/PropsService.thy ===== *)
theory PropsService
  imports PropsGo FetchPool Tokens
begin

text \<open>Properties of the reader's goroutines and of the tokens of the fallback.\<close>

section \<open>The reader\<close>

text \<open>C14. \<open>Parse\<close> returns, whatever its options, its URLs and the end of its context: in every reachable state of its
  goroutines at most the limit of them hold a place, the channel never overflows, and unless all have ended
  one can move; every run has at most three steps for each URL and one for the context; and when it
  returns, its results are one outcome for each URL, in some order.\<close>

theorem reader_completes:
  assumes "rd_config rd = new_reader opts" "rd_libs rd \<noteq> {}" "pool_reach rd us p"
  shows "int (places p) \<le> concurrency_limit (new_reader opts) \<and> length (fp_results p) \<le> length us \<and>
    (if returned p then arrivals rd us (fp_results p)
     else \<exists>q. pool_step rd p q \<and> fp_context q = fp_context p) \<and>
    (\<forall>ts. run_of (pool_step rd) p ts \<longrightarrow> length ts \<le> 3 * length us + 1)"
proof -
  have ok: "pool_ok rd us p" 
  proof (rule pool.reachable_inv)
    have "pool_start us = (\<lambda>p. configured rd \<and> pool_start us p)" using assms(1) by (auto simp: configured_def)
    with assms(3) show "reach (\<lambda>p. configured rd \<and> pool_start us p) (pool_step rd) p" by (simp add: pool_reach_def)
  qed
  then have "length (fp_tasks p) = length us" by (auto simp: pool_ok_def)
  then have "steps_left p \<le> 3 * length us + 1" using steps_bound [of p] by simp
  then have "\<forall>ts. run_of (pool_step rd) p ts \<longrightarrow> length ts \<le> 3 * length us + 1"
    using run_steps order_trans by blast
  with ok show ?thesis
    using sent_le [OF ok] returned_arrivals [OF ok] pool_moves [of rd p] assms(1,2) new_reader_positive(1)
    by (simp add: pool_ok_def)
qed

definition two_urls :: pool where
  "two_urls = \<lparr>fp_tasks = [(lit ''a'', Waiting), (lit ''b'', Waiting)], fp_results = [], fp_context = None\<rparr>"

definition narrow_reader :: reader where
  "narrow_reader = plain_reader\<lparr>rd_config := new_reader [WithConcurrencyLimit 0, WithConcurrencyLimit 1]\<rparr>"

lemma reader_completes_witness: "\<exists>q. pool_step narrow_reader two_urls q \<and> fp_context q = None"
proof -
  have "pool_reach narrow_reader [lit ''a'', lit ''b''] two_urls"
    unfolding pool_reach_def by (rule reach_start) (simp add: pool_start_def two_urls_def)
  from reader_completes [OF _ _ this] show ?thesis
    by (auto simp: narrow_reader_def plain_reader_def returned_def two_urls_def)
qed

section \<open>The tokens of the fallback\<close>

text \<open>C10. The fallback is never served: \<open>JwtService\<close> writes the number of the user as the subject of the token, the service
  reads the subject as a text, so every call with such a token is refused before the handler runs, whatever
  the time, the blocklist and the request are, and the request of the user ends as \<open>failed\<close> without stories. A
  token whose subject is a text is accepted until it expires, unless its id is blocked.\<close>

theorem fallback_token_refused:
  assumes "jwt_lib_ok L"
  shows "serve_parse (validate_token (parse_with_claims L now) blocked)
      (fallback_header (generate_token L user jti issued)) parse wr hup ulid req s = (Reply 401 None, s) \<and>
    (let t = snd (execute_fallback env up (Reply 401 None) r st)
     in item_table t = item_table st \<and> casts t = casts st @ [(rq_user r,
          \<lparr>bc_request = rq_id r, bc_status = lit ''failed'', bc_items = [],
           bc_errors = [Str (lit ''Go RSS parser fallback failed with HTTP 401'')]\<rparr>)]) \<and>
    (now < expiry \<and> (jti = [] \<or> blocked jti = Some False) \<longrightarrow>
      serve_parse (validate_token (parse_with_claims L now) blocked)
        (fallback_header (jwt_encode L (subject_payload sub jti expiry))) parse wr hup ulid req s =
      parse_request parse wr hup ulid req s)"
proof (intro conjI impI)
  have "cu CHR '' '' \<notin> set (generate_token L user jti issued)"
    unfolding generate_token_def by (rule signed(2) [OF assms payload_jsonable(1)])
  then show "serve_parse (validate_token (parse_with_claims L now) blocked)
      (fallback_header (generate_token L user jti issued)) parse wr hup ulid req s = (Reply 401 None, s)"
    by (simp add: serve_parse_def fallback_authorized validate_token_def generated_refused [OF assms])
  show "let t = snd (execute_fallback env up (Reply 401 None) r st)
     in item_table t = item_table st \<and> casts t = casts st @ [(rq_user r,
          \<lparr>bc_request = rq_id r, bc_status = lit ''failed'', bc_items = [],
           bc_errors = [Str (lit ''Go RSS parser fallback failed with HTTP 401'')]\<rparr>)]"
    using refused_fallback [of env up r st] by (simp add: Let_def)
  assume "now < expiry \<and> (jti = [] \<or> blocked jti = Some False)"
  then show "serve_parse (validate_token (parse_with_claims L now) blocked)
      (fallback_header (jwt_encode L (subject_payload sub jti expiry))) parse wr hup ulid req s =
    parse_request parse wr hup ulid req s"
    using signed(2) [OF assms payload_jsonable(2), of sub jti expiry]
    by (auto simp: serve_parse_def fallback_authorized validate_token_def subject_accepted [OF assms])
qed

definition fallback_up :: handler_up where
  "fallback_up = \<lparr>hu_async = False, hu_create = True, hu_command = True, hu_record = True\<rparr>"

lemma fallback_token_refused_witness:
  "fst (serve_parse (validate_token (parse_with_claims plain_jwt 0) (\<lambda>_. Some False))
     (fallback_header (generate_token plain_jwt 1 [] 0)) (\<lambda>_. ([], [])) (\<lambda>_. True) fallback_up [] (Some (lit ''j'', [lit ''u'']))
     service_init) = Reply 401 None \<and>
   serve_parse (validate_token (parse_with_claims plain_jwt 0) (\<lambda>_. Some False))
     (fallback_header (jwt_encode plain_jwt (subject_payload (lit ''1'') [] 300))) (\<lambda>_. ([], [])) (\<lambda>_. True) fallback_up []
     (Some (lit ''j'', [lit ''u''])) service_init =
   parse_request (\<lambda>_. ([], [])) (\<lambda>_. True) fallback_up [] (Some (lit ''j'', [lit ''u''])) service_init"
  using fallback_token_refused [OF plain_jwt_ok, of 0 "\<lambda>_. Some False" 1 "[]" 0 "\<lambda>_. ([], [])" "\<lambda>_. True" fallback_up "[]"
      "Some (lit ''j'', [lit ''u''])" service_init undefined undefined undefined undefined 300 "lit ''1''"]
  by simp

end
