(* ===== verification/Spec2Isabelle.thy ===== *)
theory Spec2Isabelle
  imports PropsData PropsUi PropsDash PropsRails PropsGo PropsSite PropsService
begin

text \<open>
  A verification library of the RSS reader: the React application under \<open>src/rss_frontend/app/frontend\<close>
  (JavaScript), the Rails side that answers it, the controllers and jobs under \<open>src/rss_frontend/app\<close>
  (Ruby), and the service that fetches the feeds, under \<open>src/rss_backend\<close> (Go). Paths of JavaScript files
  below are relative to the first directory, those of Ruby files to the second, those of Go files to the third.

  \<^bold>\<open>The program.\<close> \<open>entrypoints/application.jsx\<close> mounts \<open>App\<close> under \<open>StrictMode\<close>. \<open>MainApp\<close>
  (\<open>components/App.jsx\<close>) asks the server for the stories to find out whether a session exists, then
  routes to \<open>LoginForm\<close> or to \<open>Dashboard\<close>. The dashboard loads the stories and the mode, subscribes
  to the Action Cable channel through \<open>hooks/useFeedChannel.js\<close>, submits URLs through \<open>FeedForm\<close>,
  keeps a table of pending requests and merges the stories that answers and broadcasts bring.
  \<open>FeedList\<close> and \<open>FeedItem\<close> render them. All calls go through \<open>api/client.js\<close>. On the Rails side
  \<open>FeedsController\<close> creates a request and queues \<open>PublishFeedJob\<close>, which hands it to the feed service over
  the broker or, when the broker fails, by a call; \<open>ProcessFeedResultJob\<close> stores the result that comes
  back and broadcasts it, and \<open>FeedItemsController\<close> lists the stored items. The Go service takes a job from
  the broker or from a call of \<open>/parse\<close>, answers the URLs it has cached, fetches the others, caches what they
  brought, and publishes or returns the merged items and the errors.

  \<^bold>\<open>Theories, in the order of their imports.\<close>
  \<^item> \<open>Prelude\<close>: actions (a state and an error as a sum: \<open>bind_a\<close>, \<open>try_catch\<close>, \<open>try_finally\<close>), the rules
    \<open>keeps_rules\<close> of what an action keeps, and lists of results.
  \<^item> \<open>JsValue\<close>, \<open>JsString\<close>, \<open>JsSort\<close>, \<open>JsDate\<close>: the JavaScript the source uses. Values with the reads that
    throw on \<open>undefined\<close> and \<open>null\<close>; strings as lists of 16-bit code units; \<open>Array.prototype.sort\<close> as a
    stable sort by a comparator; \<open>Date\<close> on the ISO grammar, with the other date strings, the local
    offset and the texts of built-in errors as parameters (the record \<open>engine\<close>).
  \<^item> \<open>VDom\<close>, \<open>Shared\<close>: elements with their attributes, children and handlers; \<open>events\<close> lists the handlers
    of the enabled elements; \<open>StatusBadge\<close> and \<open>ErrorBanner\<close>.
  \<^item> \<open>LoginForm\<close>, \<open>FeedForm\<close>, \<open>FeedItem\<close>, \<open>FeedList\<close>: the components of the same names, with their state,
    their handlers (cut at the \<open>await\<close> of a promise) and what they render.
  \<^item> \<open>Json\<close>, \<open>JsonRound\<close>, \<open>ApiClient\<close>: \<open>JSON.stringify\<close> and \<open>JSON.parse\<close>, \<open>request\<close> as the request it builds
    (\<open>build_request\<close>) and what it does with the outcome of \<open>fetch\<close> (\<open>finish_request\<close>), and the calls of \<open>api\<close>.
  \<^item> \<open>Machine\<close>: reachable states of a step relation and the locales of inductive invariants.
  \<^item> \<open>FeedChannel\<close>: the consumer of \<open>cable.js\<close> and the effect and clean-up of the hook.
  \<^item> \<open>Dashboard\<close>: the component \<open>Dashboard\<close>: the record \<open>page\<close> holds its state and the state of \<open>MainApp\<close> it is
    given; \<open>handleBroadcastMessage\<close>, \<open>submit_start\<close> and \<open>submit_settle\<close> (\<open>handleFeedSubmit\<close> before and after its
    \<open>await\<close>), \<open>load_items\<close>, \<open>load_health\<close>, and the clean-up timers.
  \<^item> \<open>MainApp\<close>: \<open>MainApp\<close> and \<open>Navigation\<close>: the record \<open>main_app\<close> extends \<open>page\<close>; bootstrap, login and logout, routing,
    \<open>commit\<close> (redirects, mounting and unmounting, mount effects, an error thrown while rendering), the
    events the screen offers and what they run.
  \<^item> \<open>World\<close>: the application in its environment as the step relation \<open>app_step\<close>.
  \<^item> \<open>PageData\<close>: any property of stories and rows that every answer and broadcast respects is an invariant of
    the page (the locale \<open>page_data\<close>, whose assumptions are about the data alone).
  \<^item> \<open>WorldCalls\<close>: every call in flight travels with the request that \<open>api/client.js\<close> builds for it.
  \<^item> \<open>WorldInv\<close>, \<open>WorldFlags\<close>, \<open>WorldRows\<close>, \<open>WorldSafe\<close>: the invariants of every reachable state: the mounted
    component is the one of the screen and is the one subscribed; a form is busy exactly while a call
    of it is in flight; a finished request has its timer; the data are well typed, so that rendering
    never throws. Each is an interpretation of a locale of \<open>Machine\<close>.
  \<^item> \<open>Merge\<close>, \<open>DashFacts\<close>: the contract of the merge as a locale (\<open>keyed_merge\<close>) with its interpretation on
    \<open>merge_items\<close>, and the results of the dashboard's handlers.
  \<^item> \<open>Examples\<close>, \<open>AppFacts\<close>, \<open>AppRun\<close>: the session as an abstract machine, and a concrete run from the first
    render to a finished request, on which the properties are shown to apply.
  \<^item> \<open>Rails\<close>: the tables as the record \<open>rails\<close>, \<open>ProcessFeedResultJob\<close> (\<open>work\<close>, also cut into \<open>work_find\<close>,
    \<open>work_claim\<close> and \<open>work_finish\<close>, between which other jobs may run), \<open>PublishFeedJob\<close> (\<open>publish_command\<close>,
    \<open>mark_processing\<close>, \<open>execute_fallback\<close>), the controllers and the stream of \<open>FeedChannel\<close>.
  \<^item> \<open>RailsWorld\<close>, \<open>RailsFacts\<close>: the jobs and deliveries as the step relation \<open>rails_step\<close>, with the invariants of
    its reachable states (unique rows, owners, and a weight that bounds the broadcasts of a request),
    and what storing a result leaves in the tables.
  \<^item> \<open>RailsRest\<close>: what a delivery does to a request in steps of \<open>rails_step\<close>, and when no later delivery can change it
    any more.
  \<^item> \<open>FullStack\<close>: the controllers as the server of the page: the contracts of \<open>WorldSafe\<close> and \<open>WorldRows\<close> are
    proved for their answers and broadcasts.
  \<^item> \<open>GoWorker\<close>: the reader (\<open>rss_reader\<close>: \<open>fetch_and_parse\<close>, \<open>deduplicate\<close>, \<open>item_before\<close> for the order of
    \<open>sortItems\<close>, \<open>reader_parse\<close>), a job (\<open>run_job\<close>, the part that \<open>worker/processor.go\<close> and \<open>handler/parse.go\<close>
    share; \<open>process_job\<close> and \<open>parse_request\<close> around it, \<open>serve_parse\<close> with the check of tokens, \<open>job_page\<close>), and the deliveries of a command
    (\<open>rabbitmq/consumer.go\<close>: \<open>process_delivery\<close>, \<open>command_life\<close>).
  \<^item> \<open>GoFacts\<close>: where the items of a job come from (\<open>in_feed\<close> says of which entry of which document), and the service as the step relation \<open>go_step\<close> with the
    invariant that proves \<open>service_contract\<close> for what it publishes and answers.
  \<^item> \<open>BrokerClient\<close>: the connection of the service to the broker (\<open>rabbitmq/client.go\<close>): its client as a state
    machine (\<open>client_step\<close>) and the recovery loop as a function of the outcomes of its attempts.
  \<^item> \<open>FetchPool\<close>: the goroutines of \<open>Parse\<close> (\<open>rss_reader/rssreader.go\<close>) as the step relation \<open>pool_step\<close>: the semaphore, the
    channel of results, the end of the context. When all have ended, the results satisfy \<open>arrivals\<close>, which the
    job and the properties of the service rest on.
  \<^item> \<open>Tokens\<close>: the token of the fallback from \<open>services/jwt_service.rb\<close> to the middleware of the service (\<open>auth/jwt.go\<close>).
  \<^item> \<open>Pipeline\<close>: the way of an item from its feed through the job, the tables and the broadcast to the page.
  \<^item> \<open>RailsServer\<close>: the requests of the page as the server sees them: \<open>route_of\<close> (\<open>config/routes.rb\<close>), \<open>serve\<close>
    (the session before and after each call, \<open>sessions_controller.rb\<close> and \<open>base_controller.rb\<close>) and \<open>find_verified_user\<close>
    (\<open>application_cable/connection.rb\<close>).
  \<^item> \<open>Site\<close>, \<open>SiteInv\<close>: the page, the session, the connection, the tables and jobs and the Go service
    composed as the step relation \<open>site_step\<close>; its invariant says that each part is in a state of
    its own model and that the page, the responses and the broadcasts on their way agree with the tables.
  \<^item> \<open>Provenance\<close>: where the stories in the tables and on the page come from.
  \<^item> \<open>SiteRuns\<close>: the events of a run by name (\<open>user_does\<close>, \<open>call_served\<close>, \<open>call_fails\<close>, \<open>job_runs\<close>,
    \<open>stream_delivers\<close>), which compose to runs of the whole program: a sign-out, a sign-in, a submit.
  \<^item> \<open>PropsData\<close>, \<open>PropsUi\<close>, \<open>PropsDash\<close>, \<open>PropsRails\<close>, \<open>PropsGo\<close>, \<open>PropsSite\<close>, \<open>PropsService\<close> and this theory: the properties.

  \<^bold>\<open>The environment.\<close> A step of \<open>app_step\<close> is an event of the user that the screen offers, the answer to any call in
  flight (so answers come in any order, and a call may never be answered), a broadcast, a timer that
  is due, a millisecond of time, or a move of the browser to any path. What the server may answer and
  broadcast are the parameters \<open>answers\<close> and \<open>feeds\<close>; \<open>answer_contract\<close>, \<open>feed_contract\<close> and \<open>submit_contract\<close>
  say what a property needs of them, and properties that do not name one hold for any server. The
  router is a parameter (\<open>p_route\<close>): \<open>routes_ok\<close> says that \<open>/login\<close> and \<open>/feeds\<close> match their routes.
  A component that is mounted gets a fresh instance number; a handler started by an instance that
  is gone still runs, and its writes to the state of that instance are ignored, as React does.

  A step of \<open>rails_step\<close> creates a request, lets one task make its next move, or delivers a message; a
  message may be delivered any number of times, and the database may fail between the groups of
  items that a result stores (\<open>up\<close>). The feed service is a parameter; \<open>service_contract\<close> says that its
  results are final and that its fallback answers for the job it was given; \<open>go_contract\<close> proves it for the
  Go service. A step of \<open>go_step\<close> processes a command, answers a request or lets a cache entry or a job
  expire; the results of the downloads arrive in any order, each may fail, and so may the calls of Redis
  and of the broker. The record \<open>reader\<close> holds what a reader works with: its configuration, the states of the web and of
  the libraries it may meet (\<open>rd_libs\<close>, one for each download), and \<open>sort.Slice\<close> (\<open>rd_sort\<close> with the contract
  \<open>sorts_items\<close>), which is not stable.

  A step of \<open>site_step\<close> is one of these, in any interleaving, now with the other parts as the environment: a
  call in flight is served as the request it is (\<open>ss_serve\<close>) and its response is answered later or lost; a call may
  be refused or fail at any point; the cookie of the session may change at any time (another page of the
  same browser); the connection is opened once the page has subscribed, is identified by the session of that
  moment, may be lost and is reopened; the broadcasts for its user are queued for it and delivered in order, at most once.
  Other browsers act on the tables through \<open>ss_rails\<close>, other clients of the Go service ask for the URLs of the
  parameter \<open>out\<close>. Devise is the record \<open>devise\<close>: the user of credentials, the stored address, the known users
  and two of its answers; \<open>devise_ok\<close> says that it refuses a call without a session, and that what it answers to a
  sign-out of nobody is refused or has no body.

  \<^bold>\<open>Bounds.\<close> The JSON parser has the fuel \<open>2 * length + 1\<close>; \<open>json_parse_fuel\<close> shows that more changes nothing.
  \<open>commit\<close> follows at most two redirects; \<open>redirects_end\<close> shows that one is enough. Times are milliseconds. A command is
  attempted three times; since it is requeued as long as the failed queue cannot be written, \<open>command_life\<close> is a
  partial function, and \<open>command_settles\<close> says exactly when it returns. A recovery is
  followed through any finite list of attempts. \<open>Parse\<close> takes at most three steps for each URL and one for its context.

  \<^bold>\<open>Abstractions.\<close> JSON numbers are integers. \<open>strict_eq\<close> takes two objects or arrays as different, which is exact for
  values of different messages; only an object as \<open>feed_request_id\<close>, put into a row and into its timer
  by one answer, would be equal to itself (\<open>submit_contract\<close> excludes it: the server sends numbers).
  The browser's own validation of a form (\<open>required\<close>, \<open>type\<close>) is left out, so the model offers some submit
  events that a browser refuses. A user event may carry any text, and any number of calls overlap. A
  broadcast reaches the callback that is current at that moment. The session cookie appears in \<open>site_step\<close> as the user
  it stands for; in \<open>app_step\<close> the server is any. A page that has been left takes its calls with it. The call of the
  fallback and its answer are one step of \<open>site_step\<close>. On the Rails side a message is JSON whose fields are texts; one that is
  not JSON is rejected. The single statements on \<open>feed_requests\<close> do not fail, so an exception of
  \<open>update!\<close> after a successful publication is left out. What one job writes between two broadcasts of its own is one
  step, so two workers that race in \<open>find_or_create_by!\<close> for one feed are not modelled. A recovery of the broker
  connection is one step of \<open>client_step\<close>. Rows get the next free number. The cast of a
  text to a date and the texts of exceptions are parameters (\<open>rails_env\<close>). A response is the JSON text
  of its value, without the escapes Rails adds, which decode to the same value.

  \<^bold>\<open>Not modelled.\<close> The protocol of Action Cable (the confirmation of a subscription, its heartbeat), the inside of React and of the
  router, style sheets, the test files and the tool configuration (\<open>vite.config.ts\<close>, \<open>jest.config.js\<close>,
  \<open>babel.config.js\<close>) and the service worker, which holds only comments. Of the Rails side:
  the inside of Devise, the conversion of exceptions to answers (any refused answer),
  \<open>RabbitmqPublisher\<close>, which only calls its library, and the pages. Of the Go service: \<open>net/http\<close>,
  \<open>encoding/xml\<close> and \<open>time.Parse\<close>, which are parameters (\<open>feed_lib\<close>), the token libraries (\<open>jwt_lib\<close>, of which
  \<open>jwt_lib_ok\<close> says what they document), the configuration, the sweep of the failed queue and the static
  pages. The size limit is below the largest 64-bit integer. Texts of the service are sequences of
  16-bit units as on the page, and the year of a date is not negative.
\<close>

section \<open>The session\<close>

text \<open>C7. The application refines the abstract machine of its session: the answer of the bootstrap, of a
  login and of a logout moves it as the machine says, whatever the answer is; no other answer and
  no user event, broadcast, timer or navigation changes who is signed in.\<close>

theorem app_refines_session:
  assumes "routes_ok pl" "app_reach pl answers feeds s"
  shows "(\<forall>i a. session_of (commit pl (answer_call pl i a s)) =
        session_next (cause_of (snd (calls s ! i)) (finish_request a)) (session_of s)) \<and>
    (\<forall>h v. session_of (commit pl (user_event h v s)) = session_of s) \<and>
    (\<forall>data. session_of (commit pl (receive data s)) = session_of s) \<and>
    (\<forall>i. session_of (commit pl (fire_timer i s)) = session_of s) \<and>
    (\<forall>p. session_of (commit pl (s\<lparr>path := p\<rparr>)) = session_of s)"
proof -
  have "session_of (answer_call pl i a s) =
      session_next (cause_of (snd (calls s ! i)) (finish_request a)) (session_of s)" for i a
    unfolding answer_call_def settle_session by (simp add: session_of_def)
  moreover have "linked s" using reach_placed [OF assms] by (simp add: placed_def)
  moreover have "session_of (s\<lparr>path := p\<rparr>) = session_of s" for p by (simp add: session_of_def)
  ultimately show ?thesis
    by (simp only: commit_session user_event_session receive_session fire_timer_session) simp
qed

lemma app_refines_session_witness:
  "session_of (commit plain_platform (answer_call plain_platform 0 (Inl []) opened)) = SignedOut \<and>
   session_of (commit plain_platform (receive Null opened)) = session_of opened"
  using app_refines_session [OF plain_routes_ok opened_reach [of plain_answers plain_feeds]]
  by (simp add: opened_call finish_request_def)

text \<open>C11. The dashboard is mounted only for a signed-in user and the login form only for a signed-out one, so
  never both, and neither before the bootstrap is answered.\<close>

theorem session_guard:
  assumes "routes_ok pl" "app_reach pl answers feeds s"
  shows "(dash s \<noteq> None \<longrightarrow> session_of s = SignedIn) \<and> (login_view s \<noteq> None \<longrightarrow> session_of s = SignedOut)"
  using reach_placed [OF assms]
  by (auto simp: placed_def screen_of_def routed_def session_of_def split: if_splits option.splits route.splits)

lemma session_guard_witness: "dash on_dashboard \<noteq> None \<and> session_of on_dashboard = SignedIn"
  using session_guard [OF plain_routes_ok on_dashboard_reach [of plain_feeds]] on_dashboard_screen(2) by auto

text \<open>C34. The session is decided as soon as the bootstrap call is answered, whatever the answer is: while
  the spinner is shown such a call is in flight, and any answer to it ends the spinner.\<close>

theorem bootstrap_decides:
  assumes "routes_ok pl" "app_reach pl answers feeds s" "session_of s = Undecided"
  shows "\<exists>i < length (calls s). snd (calls s ! i) = CBootItems \<and>
    (\<forall>a. session_of (commit pl (answer_call pl i a s)) \<noteq> Undecided)"
proof -
  from assms(3) have "authenticated s = None" by (auto simp: session_of_def split: option.splits bool.splits)
  with reach_flags [OF assms(1,2)] have "in_flight boots s > 0" by (simp add: flags_def)
  then obtain c where "c \<in> set (calls s)" "boots (snd c)"
    by (auto simp: in_flight_def filter_empty_conv)
  then obtain i where i: "i < length (calls s)" "boots (snd (calls s ! i))" by (auto simp: in_set_conv_nth)
  then have b: "snd (calls s ! i) = CBootItems" by (cases "snd (calls s ! i)") auto
  have "session_of (commit pl (answer_call pl i a s)) \<noteq> Undecided" for a
    unfolding commit_session answer_call_def settle_session b by simp
  with i(1) b show ?thesis by blast
qed

lemma bootstrap_decides_witness:
  "\<exists>i < length (calls opened). snd (calls opened ! i) = CBootItems \<and>
     (\<forall>a. session_of (commit plain_platform (answer_call plain_platform i a opened)) \<noteq> Undecided)"
  by (rule bootstrap_decides [OF plain_routes_ok opened_reach [of plain_answers plain_feeds]])
    (simp add: opened_def app_init_def session_of_def)

text \<open>C30. A logout always ends the session, also when the call fails: the stories, the address and the flash
  are gone, the dashboard and its subscription are taken down and the login form is shown.\<close>

theorem logout_ends_session:
  assumes "routes_ok pl" "linked s" "crashed s = None"
    and "i < length (calls s)" "snd (calls s ! i) = CLogout"
  shows "let t = commit pl (answer_call pl i a s)
    in session_of t = SignedOut \<and> feedItems t = Arr [] \<and> userEmail t = [] \<and> flashMessage t = [] \<and>
       dash t = None \<and> deliver (cable (channel t)) = [] \<and> screen_of pl t = SLogin"
proof -
  define u where "u = answer_call pl i a s"
  have "authenticated u = Some False \<and> feedItems u = Arr [] \<and> userEmail u = [] \<and> flashMessage u = [] \<and>
      crashed u = None"
    using assms(3) by (cases "finish_request a") (simp_all add: u_def answer_call_def assms(5) logout_done_def act_simps)
  then have u: "authenticated u = Some False" "feedItems u = Arr []" "userEmail u = []" "flashMessage u = []"
    "crashed u = None" by simp_all
  have "linked u" using assms(2,4) by (simp add: u_def answer_linked)
  then have p: "placed pl (commit pl u)" by (rule commit_placed [OF assms(1)])
  have "crashed (commit pl u) = None" using signed_out_no_crash [OF u(1)] u(5) by simp
  then have sc: "screen_of pl (commit pl u) = SLogin"
    using p u(1) by (intro screen_login) (simp_all add: commit_keeps)
  with p have d: "dash (commit pl u) = None" by (auto simp: placed_def)
  with p have "deliver (cable (channel (commit pl u))) = []" by (simp add: placed_def deliver_linked)
  with sc d u show ?thesis by (simp add: Let_def commit_keeps session_of_def flip: u_def)
qed

lemma logout_ends_session_witness:
  "let t = commit plain_platform (answer_call plain_platform 0 (Inl []) (on_dashboard\<lparr>calls := [(api_logout, CLogout)]\<rparr>))
   in session_of t = SignedOut \<and> screen_of plain_platform t = SLogin"
proof -
  have "linked (on_dashboard\<lparr>calls := [(api_logout, CLogout)]\<rparr>)"
    using on_dashboard_good(1) by (simp add: placed_def linked_def)
  with logout_ends_session [of plain_platform "on_dashboard\<lparr>calls := [(api_logout, CLogout)]\<rparr>" 0 "Inl []"]
  show ?thesis using on_dashboard_good(2) by (simp add: good_def Let_def)
qed

section \<open>Subscriptions and redirects\<close>

text \<open>C13. Broadcasts reach the dashboard that is on the screen and nothing else: at every moment the channel
  delivers to exactly the mounted instance, once (also under \<open>StrictMode\<close>), and to nobody while
  no dashboard is shown.\<close>

theorem channel_follows_dashboard:
  assumes "routes_ok pl" "app_reach pl answers feeds s"
  shows "deliver (cable (channel s)) = (case dash s of None \<Rightarrow> [] | Some inst \<Rightarrow> [inst]) \<and>
    (dash s = None \<longleftrightarrow> screen_of pl s \<noteq> SDash)"
  using reach_placed [OF assms] deliver_linked [of s] by (auto simp: placed_def)

lemma channel_follows_dashboard_witness: "\<exists>inst. deliver (cable (channel on_dashboard)) = [inst]"
  using channel_follows_dashboard [OF plain_routes_ok on_dashboard_reach [of plain_feeds]]
    on_dashboard_screen by auto

text \<open>The redirects of a render end: from any path at most one \<open>Navigate\<close> is followed, the rest of the
  state is untouched, and the path reached is one that renders a page.\<close>

theorem redirects_end:
  assumes "routes_ok pl"
  shows "\<exists>p. (\<forall>n \<ge> 1. redirects pl n s = s\<lparr>path := p\<rparr>) \<and> (\<forall>q. screen_of pl (s\<lparr>path := p\<rparr>) \<noteq> SMove q)"
proof -
  obtain p where p: "redirects pl 1 s = s\<lparr>path := p\<rparr>" using redirects_path by blast
  have "redirects pl n s = s\<lparr>path := p\<rparr>" if n: "n \<ge> 1" for n
  proof -
    from n obtain k where "n = Suc k" by (cases n) auto
    with redirects_enough [OF assms, of k s] p show ?thesis by simp
  qed
  moreover have "screen_of pl (s\<lparr>path := p\<rparr>) \<noteq> SMove q" for q
    using redirects_done [OF assms, of 0 s q] p by simp
  ultimately show ?thesis by blast
qed

lemma redirects_end_witness:
  "\<exists>p. \<forall>q. screen_of plain_platform (opened\<lparr>path := p\<rparr>) \<noteq> SMove q"
  using redirects_end [OF plain_routes_ok, of opened] by blast

section \<open>Calls in flight\<close>

text \<open>C17. The busy state of a form is exact: the dashboard is \<open>loading\<close> exactly while one submit of the
  mounted instance is unanswered, the login form exactly while one call of its login is, and never
  more than one of them is in flight.\<close>

theorem busy_while_in_flight:
  assumes "routes_ok pl" "app_reach pl answers feeds s"
  shows "(\<forall>inst. dash s = Some inst \<longrightarrow>
      length (filter (\<lambda>c. submits inst (snd c)) (calls s)) = (if loading s then 1 else 0)) \<and>
    (\<forall>inst f. login_view s = Some (inst, f) \<longrightarrow>
      length (filter (\<lambda>c. logs_in inst (snd c)) (calls s)) = (if lf_loading f then 1 else 0))"
  using reach_flags [OF assms] by (simp add: flags_def in_flight_def)

lemma busy_while_in_flight_witness:
  "\<exists>inst. dash on_dashboard = Some inst \<and>
     length (filter (\<lambda>c. submits inst (snd c)) (calls on_dashboard)) = (if loading on_dashboard then 1 else 0)"
  using busy_while_in_flight [OF plain_routes_ok on_dashboard_reach [of plain_feeds]] on_dashboard_screen(2) by blast

text \<open>C19. A submit is sent once: when the form offers it, the event sends exactly one POST, with the URLs of
  the form, clears the error and marks the dashboard as loading, and from then on the form does not
  offer another one.\<close>

theorem no_double_submit:
  assumes "placed pl s" "good s"
    and "AhDash (DhForm FfSubmit) \<in> set (offered pl s)" "dash s = Some inst"
  shows "let t = commit pl (user_event (AhDash (DhForm FfSubmit)) v s); us = active_urls (form_urls s)
    in us \<noteq> [] \<and> t = s\<lparr>loading := True, error := [], calls := calls s @ [(api_submitFeeds us, CSubmit inst us)]\<rparr> \<and>
       AhDash (DhForm FfSubmit) \<notin> set (offered pl t)"
  using submit_sends [OF assms(1,2,4) offered_submit(3) [OF assms(3)]] sent_not_offered offered_submit(3) [OF assms(3)]
  by (simp add: Let_def del: user_event.simps) (simp add: sent_def)

lemma no_double_submit_witness:
  "AhDash (DhForm FfSubmit) \<notin> set (offered plain_platform
     (commit plain_platform (user_event (AhDash (DhForm FfSubmit)) [] typed)))"
  using no_double_submit [OF typed_placed typed_good(1) typed_offers typed_good(3), of "[]"]
  unfolding Let_def by (elim conjE)

text \<open>Outdated handlers are harmless: a broadcast, an answer or a timer that belongs to an instance of the
  dashboard that is gone changes nothing of the instance that is mounted now.\<close>

theorem outdated_handlers_harmless:
  assumes "dash s \<noteq> Some inst"
    and "t = snd (handleBroadcastMessage inst data s) \<or> t = snd (submit_settle en inst us answer s) \<or>
      t = snd (load_items inst answer s) \<or> t = snd (run_cleanup_timer inst v s)"
  shows "dash t = dash s \<and> loading t = loading s \<and> error t = error s \<and>
    pendingRequests t = pendingRequests s \<and> form_urls t = form_urls s"
proof -
  have "page_frame inst s t" using assms(2) page_frames by blast
  with assms(1) show ?thesis by (simp add: page_frame_def)
qed

lemma outdated_handlers_harmless_witness:
  "pendingRequests (snd (run_cleanup_timer (Suc board) (Num 7) answered)) = [done_row]"
proof -
  have "dash answered \<noteq> Some (Suc board)" using answered_row(1) by simp
  from outdated_handlers_harmless [OF this disjI2 [OF disjI2 [OF disjI2 [OF refl]]]] answered_row(2)
  show ?thesis by simp
qed

section \<open>Reachable states are well typed and render\<close>

text \<open>If the server keeps its contract (the items it sends are stories, the statuses are texts), the
  application never crashes: in every reachable state the stories are a list of stories, every
  status can be shown, and \<open>MainApp\<close> renders.\<close>

theorem reachable_well_typed:
  assumes "routes_ok pl" "answer_contract answers" "feed_contract feeds" "app_reach pl answers feeds s"
  shows "crashed s = None \<and> (\<exists>xs. feedItems s = Arr xs \<and> (\<forall>x \<in> set xs. story x)) \<and>
    (\<forall>r \<in> set (pendingRequests s). row_ok r) \<and> (\<exists>ns. MainApp pl s = Inr ns)"
proof -
  have g: "good s" by (rule reach_good [OF assms])
  from good_renders [OF this] g show ?thesis by (auto simp: good_def stories_def list_all_iff)
qed

lemma reachable_well_typed_witness: "\<exists>ns. MainApp plain_platform on_dashboard = Inr ns"
  using reachable_well_typed [OF plain_routes_ok plain_contracts(1,2) on_dashboard_reach] by blast

section \<open>Finished requests\<close>

text \<open>C23. Every finished request in the table has its clean-up scheduled: for a row with the status \<open>done\<close> or
  \<open>failed\<close> a timer of the same instance and request is due within three seconds.\<close>

theorem finished_rows_timed:
  assumes "routes_ok pl" "submit_contract answers" "app_reach pl answers feeds s" "dash s = Some inst"
    and "r \<in> set (pendingRequests s)" "status r = Str (lit ''done'') \<or> status r = Str (lit ''failed'')"
  shows "\<exists>due v. (due, TCleanup inst v) \<in> set (timers s) \<and> strict_eq (feed_request_id r) v \<and> due \<le> clock s + 3000"
  using assms by (rule reach_row_timed)

lemma finished_rows_timed_witness:
  "\<exists>due v. (due, TCleanup board v) \<in> set (timers answered) \<and> strict_eq (Num 7) v \<and> due \<le> clock answered + 3000"
  using finished_rows_timed [OF plain_routes_ok plain_contracts(3) answered_reach [of plain_feeds] answered_row(1),
      of done_row] answered_row(2)
  by (simp add: done_row_def)

text \<open>C25. A finished request leaves the table: whatever else is going on, there is a run of at most three
  seconds of waiting and one timer after which its row is gone, every row of another request is
  kept, and the rest of the page is as before.\<close>

theorem finished_rows_leave:
  assumes "placed pl s" "good s" "rows_timed s" "dash s = Some inst"
    and "r \<in> set (pendingRequests s)" "status r = Str (lit ''done'') \<or> status r = Str (lit ''failed'')"
  shows "\<exists>n ts. n \<le> clock s + 3000 \<and> (app_step pl answers feeds)\<^sup>*\<^sup>* s
    (s\<lparr>clock := n, timers := ts,
       pendingRequests := filter (\<lambda>r'. feed_request_id r' \<noteq> feed_request_id r) (pendingRequests s)\<rparr>)"
proof -
  have "finished (status r)" using assms(6) by (auto simp: finished_def is_status_def)
  obtain n ts u where
    u: "u = s\<lparr>clock := n, timers := ts,
      pendingRequests := filter (\<lambda>r'. feed_request_id r' \<noteq> feed_request_id r) (pendingRequests s)\<rparr>"
    and n: "n \<le> clock s + 3000" and steps: "(app_step pl answers feeds)\<^sup>*\<^sup>* s (commit pl u)"
    using finished_row_leaves [OF assms(3-5) \<open>finished (status r)\<close>, of pl answers feeds] .
  note d = placed_dash [OF assms(1,4)]
  have "screen_of pl u = SDash" using d(1) unfolding u by (subst screen_of_cong [of _ s]) simp_all
  then have "commit pl u = u"
    using assms(2,4) d(2) by (intro commit_stays) (simp_all add: u good_def)
  with n steps u show ?thesis by metis
qed

lemma finished_rows_leave_witness:
  "\<exists>t. (app_step plain_platform plain_answers plain_feeds)\<^sup>*\<^sup>* answered t \<and> pendingRequests t = []"
proof -
  obtain n ts where "(app_step plain_platform plain_answers plain_feeds)\<^sup>*\<^sup>* answered
      (answered\<lparr>clock := n, timers := ts, pendingRequests := []\<rparr>)"
    using finished_rows_leave [OF answered_good answered_row(1), of done_row plain_answers plain_feeds] answered_row(2)
    by (auto simp: done_row_def)
  then show ?thesis by fastforce
qed

section \<open>Late answers\<close>

text \<open>The stories of a session can come back after its end: when the answer of the story call of a
  dashboard arrives after the logout, its items are stored again while nobody is signed in, and
  the next user who signs in finds them.\<close>

theorem late_items_after_logout:
  assumes "session_of s = SignedOut" "snd (calls s ! i) = CDashItems inst"
    and "finish_request a = Inr data" "prop_of data ''items'' = Arr xs"
  shows "session_of (commit pl (answer_call pl i a s)) = SignedOut \<and>
    feedItems (commit pl (answer_call pl i a s)) = Arr xs"
proof -
  have "\<not> nullish data" using assms(4) by (cases data) (simp_all add: prop_of_def)
  moreover have "session_of (answer_call pl i a s) = SignedOut"
    unfolding answer_call_def settle_session using assms(1,2) by (simp add: session_of_def)
  ultimately show ?thesis
    using assms(2-4)
    by (simp add: commit_session commit_keeps answer_call_def load_items_def act_simps get_prop_of js_or_def)
qed

lemma late_items_after_logout_witness:
  "feedItems (commit plain_platform (answer_call plain_platform 0 (Inr (json_answer (Obj [(lit ''items'', Arr [Num 1])])))
     (opened\<lparr>authenticated := Some False, calls := [(api_getFeedItems, CDashItems 0)]\<rparr>))) = Arr [Num 1]"
proof -
  have "finish_request (Inr (json_answer (Obj [(lit ''items'', Arr [Num 1])]))) = Inr (Obj [(lit ''items'', Arr [Num 1])])"
    by (rule json_answer_value) (simp add: lit_def)
  then show ?thesis
    using late_items_after_logout [of "opened\<lparr>authenticated := Some False, calls := [(api_getFeedItems, CDashItems 0)]\<rparr>"
        0 0 _ _ "[Num 1]"]
    by (simp add: session_of_def prop_of_def lit_def)
qed

text \<open>A login that fails after the session has begun is reported nowhere: the user stays signed in, the
  flash still says so and no timer will clear it, and neither the stories nor the dashboard's error
  change; only the login form, which the redirect has already removed, would show the failure.\<close>

theorem late_login_failure_hidden:
  assumes "snd (calls s ! i) = CLoginItems inst" "finish_request a = Inl e"
  shows "let t = answer_call pl i a s
    in session_of t = session_of s \<and> flashMessage t = flashMessage s \<and> timers t = timers s \<and>
       feedItems t = feedItems s \<and> error t = error s \<and>
       (\<forall>f. login_view s = Some (inst, f) \<longrightarrow>
          login_view t = Some (inst, snd (lf_settle (p_engine pl) (Inl e) f))) \<and>
       (login_view s = None \<longrightarrow> t = s\<lparr>calls := drop_nth i (calls s)\<rparr>)"
  using assms
  by (auto simp: answer_call_def await_login_def login_items_def act_simps resolve_login_def Let_def session_of_def
      split: option.split)

lemma late_login_failure_hidden_witness:
  "let s = on_dashboard\<lparr>flashMessage := lit ''Signed in successfully'', calls := [(api_getFeedItems, CLoginItems 0)]\<rparr>;
       t = answer_call plain_platform 0 (Inl []) s
   in session_of t = SignedIn \<and> flashMessage t = lit ''Signed in successfully'' \<and> timers t = timers s"
  using late_login_failure_hidden [of "on_dashboard\<lparr>flashMessage := lit ''Signed in successfully'',
      calls := [(api_getFeedItems, CLoginItems 0)]\<rparr>" 0 0 "Inl []" "FetchFailed []" plain_platform]
    on_dashboard_session
  by (simp add: Let_def finish_request_def session_of_def)

section \<open>Both sides together\<close>

text \<open>C4. With the Rails controllers and jobs as its server the page never crashes: whatever the tables hold,
  whichever calls are refused or lost, in every reachable state \<open>MainApp\<close> renders and every finished
  request has its clean-up timer. No contract is assumed: the ones above hold for these answers.\<close>

theorem full_stack_safe:
  assumes "routes_ok pl" "app_reach pl rails_answers rails_casts s"
  shows "crashed s = None \<and> (\<exists>ns. MainApp pl s = Inr ns) \<and>
    (\<forall>inst r. dash s = Some inst \<longrightarrow> r \<in> set (pendingRequests s) \<longrightarrow>
       status r = Str (lit ''done'') \<or> status r = Str (lit ''failed'') \<longrightarrow>
       (\<exists>due v. (due, TCleanup inst v) \<in> set (timers s) \<and> strict_eq (feed_request_id r) v \<and> due \<le> clock s + 3000))"
  using server.reach_renders [OF assms] server.reach_timed [OF assms] by blast

lemma full_stack_dashboard: "app_reach plain_platform rails_answers rails_casts on_dashboard"
proof -
  have a: "finish_request (Inr (index_feed_items 1 rails_init)) = Inr empty_value"
    by (simp add: index_answer index_items_def rails_init_def empty_value_def)
  have "app_step plain_platform rails_answers rails_casts opened
      (commit plain_platform (answer_call plain_platform 0 (Inr (index_feed_items 1 rails_init)) opened))"
    by (rule as_answer) (use opened_call in \<open>force simp: rails_answers_def\<close>)+
  moreover have "commit plain_platform (answer_call plain_platform 0 (Inr (index_feed_items 1 rails_init)) opened) = on_dashboard"
    by (simp only: on_dashboard_def answer_call_def a answer_values(1))
  ultimately show ?thesis
    using opened_reach [of rails_answers rails_casts] unfolding app_reach_def by (metis reach_step)
qed

lemma full_stack_safe_witness: "\<exists>ns. MainApp plain_platform on_dashboard = Inr ns"
  using full_stack_safe [OF plain_routes_ok full_stack_dashboard] by blast

text \<open>C9. A result travels from the queue to the screen: when the job acknowledges a claimed \<open>done\<close> result, it
  broadcasts one message to the owner, and the page that receives it shows every item of the result
  under its link, loses no story, and marks the rows of that request as done, whatever errors the result
  carries.\<close>

theorem result_reaches_page:
  assumes "work_find m s = Some r" "open_status (rq_status r)" "rm_status m = Some (lit ''done'')"
    and "fst (work env up (Some m) s) = Inr Ack"
    and "dash p = Some inst" "feedItems p = Arr olds" "list_all linkable olds"
  shows "\<exists>c xs. casts (snd (work env up (Some m) s)) = casts s @ [(rq_user r, c)] \<and>
    feedItems (snd (handleBroadcastMessage inst (cast_value c) p)) = Arr xs \<and> set olds \<subseteq> set xs \<and>
    link_of ` item_msg_value ` set (or_empty (rm_items m)) \<subseteq> link_of ` set xs \<and>
    pendingRequests (snd (handleBroadcastMessage inst (cast_value c) p)) =
      map (\<lambda>q. if feed_request_id q = Num (int (rq_id r)) then q\<lparr>status := Str (lit ''done'')\<rparr> else q) (pendingRequests p)"
  by (intro exI conjI) (rule result_shown [OF assms], rule result_shown [OF assms], auto simp: result_shown [OF assms])

lemma result_reaches_page_witness:
  "\<exists>c xs. feedItems (snd (handleBroadcastMessage 0 (cast_value c) sample_page)) = Arr xs \<and>
     (\<exists>x \<in> set xs. link_of x = Str (lit ''l''))"
proof -
  have "link_of (item_msg_value result_item) = Str (lit ''l'')"
    by (simp add: link_of_def item_msg_value_def result_item_def text_value_def)
  moreover have "rm_status item_result = Some (lit ''done'')" "rm_items item_result = Some [result_item]"
    "dash sample_page = Some 0" "feedItems sample_page = Arr []"
    by (simp_all add: item_result_def done_msg_def sample_page_def)
  ultimately show ?thesis
    using result_reaches_page [OF item_result_run(1,2) _ item_result_run(3) [of undefined], of sample_page 0 "[]"]
    by (fastforce simp: or_empty_def)
qed

text \<open>C3. A story travels from its feed to the screen: whatever feed of a job brought it, fetched or cached, when the
  service publishes the result and the Rails job processes it with the database up, the owner is sent
  one broadcast, the page that receives it shows a story with that link and keeps all others, and
  the story is in the listing that a reload shows.\<close>

theorem fetched_story_reaches_page:
  assumes "sorts_items rd" "go_reach rd (\<lambda>u. \<not> blank u) svc" "\<forall>u \<in> set us. \<not> blank u"
    and "arrivals rd (urls_to_fetch (sv_cache svc) us) rs" "delivered (sv_cache svc) us rs l"
    and "process_job (\<lambda>_. reader_parse rd rs) wr up j us svc = (True, svc')" "up_publish up \<noteq> None"
    and "work_find (last (sv_results svc')) t = Some r" "open_status (rq_status r)"
    and "dash p = Some inst" "feedItems p = Arr olds" "list_all linkable olds"
  shows "\<exists>c xs. casts (snd (work env (\<lambda>_. True) (Some (last (sv_results svc'))) t)) = casts t @ [(rq_user r, c)] \<and>
    feedItems (snd (handleBroadcastMessage inst (cast_value c) p)) = Arr xs \<and> set olds \<subseteq> set xs \<and>
    Str l \<in> link_of ` set xs \<and>
    Some l \<in> si_link ` set (index_items (rq_user r) (snd (work env (\<lambda>_. True) (Some (last (sv_results svc'))) t)))"
proof -
  define job where "job = fst (run_job (\<lambda>_. reader_parse rd rs) wr (sv_cache svc) us)"
  note m = published_message [OF assms(2-4,6,7), folded job_def]
  have "Some l \<in> field ''link'' ` set (jr_items job)"
    using run_job_links [OF assms(1,4), of l wr] assms(5) by (simp add: job_def)
  then obtain item where item: "item \<in> set (jr_items job)" "field ''link'' item = Some l" by auto
  have "cache_ok rd (sv_cache svc)" using go_reach_ok [OF assms(1,2)] by (simp add: service_ok_def)
  then have "item_from rd (\<lambda>u. \<not> blank u) item"
    using run_job_items [OF _ assms(1,4,3)] item(1) by (simp add: job_def)
  then obtain i where i: "item = job_item i" by (auto simp: item_from_def)
  have "jr_items job \<noteq> []" using item(1) by force
  then have "jr_status job = lit ''done''" unfolding job_def by (rule run_job_done)
  then have st: "rm_status (last (sv_results svc')) = Some (lit ''done'')" by (simp add: m(1) result_message_def)
  have its: "rm_items (last (sv_results svc')) = Some (jr_items job)"
    using item(1) by (auto simp: m(1) result_message_def or_null_def)
  have ack: "fst (work env (\<lambda>_. True) (Some (last (sv_results svc'))) t) = Inr Ack"
    by (rule go_result_acked [OF assms(1) m(2) assms(8,9)])
  note shown = result_shown [OF assms(8,9) st ack assms(10-12)]
  have "Str l \<in> link_of ` item_msg_value ` set (jr_items job)"
    using item i by (force simp: job_item_link)
  moreover have "Some l \<in> si_link ` set (index_items (rq_user r) (snd (work env (\<lambda>_. True) (Some (last (sv_results svc'))) t)))"
    using work_lists_item [OF assms(8,9) go_result_stores(1) [OF assms(1) m(2)] ack its item(1) _ item(2)] i by force
  ultimately show ?thesis
    by (intro exI conjI) (rule shown, rule shown, simp_all add: links_of_merge its or_empty_def del: set_append set_filter)
qed

lemma fetched_story_reaches_page_witness:
  "\<exists>c xs. casts (snd (work plain_env (\<lambda>_. True) (Some go_result) open_run)) = [(1, c)] \<and>
     feedItems (snd (handleBroadcastMessage 0 (cast_value c) sample_page)) = Arr xs \<and> Str (lit ''l'') \<in> link_of ` set xs"
proof -
  have d: "delivered (sv_cache service_init) [lit ''u''] [(lit ''u'', Inr [go_sample ''u'' ''l'' (0, 0, 0)])] (lit ''l'')"
    by (simp add: delivered_def arrived_items_def go_sample_def)
  have a: "arrivals plain_reader (urls_to_fetch (sv_cache service_init) [lit ''u'']) [(lit ''u'', Inr [go_sample ''u'' ''l'' (0, 0, 0)])]"
    using sample_arrivals(1) by (simp add: urls_to_fetch_def service_init_def)
  have r: "go_reach plain_reader (\<lambda>u. \<not> blank u) service_init" unfolding go_reach_def by (rule reach_start) simp
  have p: "process_job (\<lambda>_. reader_parse plain_reader [(lit ''u'', Inr [go_sample ''u'' ''l'' (0, 0, 0)])]) (\<lambda>_. True) go_up
      (lit ''j'') [lit ''u''] service_init = (True, go_done)"
    unfolding go_done_def by (simp add: process_job_def go_up_def Let_def case_prod_unfold)
  have w: "work_find (last (sv_results go_done)) open_run = Some (asked ''processing'')"
    using open_run(2) by (simp add: go_done_results work_find_def go_result_def result_message_def done_msg_def)
  have c: "casts open_run = []" "rq_user (asked ''processing'') = 1"
    by (simp_all add: open_run_def run_at_def rails_init_def asked_def)
  have g: "dash sample_page = Some 0" "feedItems sample_page = Arr []" by (simp_all add: sample_page_def)
  show ?thesis
    using fetched_story_reaches_page [OF plain_reader_ok r _ a d p _ w open_run(3) g, of plain_env]
    by (auto simp: lit_u go_up_def go_done_results c)
qed

end
